(* ===== verification/Prelude.thy ===== *)
theory Prelude
  imports Main "HOL-Library.Word"
begin

text \<open>
  The vocabulary every component shares: Go's bytes and fixed-width integers, the outcomes of a
  Go call, slices and buffers, the byte orders of \<^verbatim>\<open>encoding/binary\<close>, and the source of
  randomness. Go's \<^verbatim>\<open>int\<close> is 64 bits wide; lengths and offsets are \<open>nat\<close> here, and a
  quantity the code lets become negative is \<open>int\<close>. A value the code converts to a narrower
  type (\<^verbatim>\<open>uint16(n)\<close>, \<^verbatim>\<open>byte(n)\<close>) is converted to a word, so that it wraps.
\<close>

unbundle bit_operations_syntax

section \<open>Collections of rules\<close>

named_theorems wire_length \<open>lengths of encoded fields\<close>
named_theorems wire_roundtrip \<open>decoding what was encoded\<close>

section \<open>Types\<close>

type_synonym byte = "8 word"
type_synonym bytes = "byte list"
type_synonym uint16 = "16 word"
type_synonym uint32 = "32 word"
type_synonym uint64 = "64 word"

text \<open>A Go string is a sequence of bytes; a literal is its ASCII text.\<close>

definition str :: "string \<Rightarrow> bytes" where
  "str s = map of_char s"

lemma length_str [simp, wire_length]: "length (str s) = length s"
  by (simp add: str_def)

section \<open>Outcomes\<close>

text \<open>
  A Go call returns, panics (an index out of range, a nil dereference, an explicit panic), or
  never returns. The model keeps the three apart; an error return is an ordinary value.
\<close>

datatype 'a go = Ret 'a | Panic | Hang

primrec go_bind :: "'a go \<Rightarrow> ('a \<Rightarrow> 'b go) \<Rightarrow> 'b go" where
  "go_bind (Ret x) f = f x"
| "go_bind Panic f = Panic"
| "go_bind Hang f = Hang"

lemma go_bind_Ret_iff: "go_bind m f = Ret y \<longleftrightarrow> (\<exists>x. m = Ret x \<and> f x = Ret y)"
  by (cases m) auto

lemma go_bind_cong [fundef_cong]:
  "m = m' \<Longrightarrow> (\<And>x. m' = Ret x \<Longrightarrow> f x = g x) \<Longrightarrow> go_bind m f = go_bind m' g"
  by (cases m') auto

section \<open>Slices and buffers\<close>

text \<open>
  The slice expression \<^verbatim>\<open>s[i:j]\<close>: it panics unless \<open>i \<le> j\<close> and \<open>j\<close> is
  within bounds. (Go bounds \<^verbatim>\<open>j\<close> by the capacity; the slices of this program are cut from
  slices whose capacity beyond the length is never relied on, so the length is the bound here.)
\<close>

definition slice :: "nat \<Rightarrow> nat \<Rightarrow> 'a list \<Rightarrow> 'a list option" where
  "slice i j xs = (if i \<le> j \<and> j \<le> length xs then Some (take (j - i) (drop i xs)) else None)"

abbreviation sub :: "nat \<Rightarrow> nat \<Rightarrow> 'a list \<Rightarrow> 'a list" where
  "sub i n xs \<equiv> take n (drop i xs)"

lemma slice_Some_iff:
  "slice i j xs = Some ys \<longleftrightarrow> i \<le> j \<and> j \<le> length xs \<and> ys = sub i (j - i) xs"
  by (auto simp: slice_def)

lemma slice_None_iff: "slice i j xs = None \<longleftrightarrow> j < i \<or> length xs < j"
  by (auto simp: slice_def)

lemma length_slice: "slice i j xs = Some ys \<Longrightarrow> length ys = j - i"
  by (auto simp: slice_def split: if_splits)

lemma slice_append: "j \<le> length xs \<Longrightarrow> slice i j (xs @ ys) = slice i j xs"
  by (auto simp: slice_def)

lemma sub_append [simp]: "i + n \<le> length xs \<Longrightarrow> sub i n (xs @ ys) = sub i n xs"
  by simp

lemma sub_take: "i + n \<le> m \<Longrightarrow> sub i n (take m xs) = sub i n xs"
  by (simp add: drop_take)

text \<open>Go's \<^verbatim>\<open>copy(dst[off:], src)\<close>: it copies as much as fits.\<close>

definition copy_at :: "nat \<Rightarrow> 'a list \<Rightarrow> 'a list \<Rightarrow> 'a list" where
  "copy_at off src dst =
     take off dst @ take (length dst - off) src @ drop (off + length src) dst"

lemma length_copy_at [simp]: "off \<le> length dst \<Longrightarrow> length (copy_at off src dst) = length dst"
  by (simp add: copy_at_def)

text \<open>
  A scratch buffer from the pool holds stale bytes; two copies that cover it leave none.
\<close>

lemma copy_at_two:
  "length junk = length a + length b \<Longrightarrow> copy_at (length a) b (copy_at 0 a junk) = a @ b"
  by (simp add: copy_at_def)

lemma copy_at_end: "length dst = off + length src \<Longrightarrow> copy_at off src dst = take off dst @ src"
  by (simp add: copy_at_def)

section \<open>Byte order\<close>

definition le16 :: "uint16 \<Rightarrow> bytes" where
  "le16 w = [ucast w, ucast (drop_bit 8 w)]"

definition be16 :: "uint16 \<Rightarrow> bytes" where
  "be16 w = [ucast (drop_bit 8 w), ucast w]"

definition le32 :: "uint32 \<Rightarrow> bytes" where
  "le32 w = [ucast w, ucast (drop_bit 8 w), ucast (drop_bit 16 w), ucast (drop_bit 24 w)]"

definition be32 :: "uint32 \<Rightarrow> bytes" where
  "be32 w = [ucast (drop_bit 24 w), ucast (drop_bit 16 w), ucast (drop_bit 8 w), ucast w]"

definition le64 :: "uint64 \<Rightarrow> bytes" where
  "le64 w = map (\<lambda>k. ucast (drop_bit (8 * k) w)) [0..<8]"

definition be64 :: "uint64 \<Rightarrow> bytes" where
  "be64 w = rev (le64 w)"

text \<open>The readers index their argument as Go's do; callers have checked the length.\<close>

definition rd_le16 :: "bytes \<Rightarrow> uint16" where
  "rd_le16 b = ucast (b ! 0) OR push_bit 8 (ucast (b ! 1))"

definition rd_be16 :: "bytes \<Rightarrow> uint16" where
  "rd_be16 b = ucast (b ! 1) OR push_bit 8 (ucast (b ! 0))"

definition rd_le32 :: "bytes \<Rightarrow> uint32" where
  "rd_le32 b = ucast (b ! 0) OR push_bit 8 (ucast (b ! 1)) OR
     push_bit 16 (ucast (b ! 2)) OR push_bit 24 (ucast (b ! 3))"

definition rd_be32 :: "bytes \<Rightarrow> uint32" where
  "rd_be32 b = ucast (b ! 3) OR push_bit 8 (ucast (b ! 2)) OR
     push_bit 16 (ucast (b ! 1)) OR push_bit 24 (ucast (b ! 0))"

definition rd_le64 :: "bytes \<Rightarrow> uint64" where
  "rd_le64 b = foldr (\<lambda>x acc. push_bit 8 acc OR ucast x) (take 8 b) 0"

lemma length_le16 [simp, wire_length]: "length (le16 w) = 2"
  by (simp add: le16_def)

lemma length_be16 [simp, wire_length]: "length (be16 w) = 2"
  by (simp add: be16_def)

lemma length_le32 [simp, wire_length]: "length (le32 w) = 4"
  by (simp add: le32_def)

lemma length_be32 [simp, wire_length]: "length (be32 w) = 4"
  by (simp add: be32_def)

lemma length_le64 [simp, wire_length]: "length (le64 w) = 8"
  by (simp add: le64_def)

lemma length_be64 [simp, wire_length]: "length (be64 w) = 8"
  by (simp add: be64_def)

lemma rd_le16_le16 [simp, wire_roundtrip]: "rd_le16 (le16 w) = w"
  by (rule bit_word_eqI) (auto simp: rd_le16_def le16_def bit_simps)

lemma rd_be16_be16 [simp, wire_roundtrip]: "rd_be16 (be16 w) = w"
  by (rule bit_word_eqI) (auto simp: rd_be16_def be16_def bit_simps)

lemma rd_le32_le32 [simp, wire_roundtrip]: "rd_le32 (le32 w) = w"
  by (rule bit_word_eqI, auto simp: rd_le32_def le32_def bit_simps) (rule ccontr, simp)

lemma rd_be32_be32 [simp, wire_roundtrip]: "rd_be32 (be32 w) = w"
  by (rule bit_word_eqI, auto simp: rd_be32_def be32_def bit_simps) (rule ccontr, simp)

text \<open>The readers look at the first bytes only.\<close>

lemma rd_le16_append [simp]: "2 \<le> length a \<Longrightarrow> rd_le16 (a @ b) = rd_le16 a"
  by (cases a) (auto simp: rd_le16_def nth_append)

lemma rd_be16_append [simp]: "2 \<le> length a \<Longrightarrow> rd_be16 (a @ b) = rd_be16 a"
  by (cases a) (auto simp: rd_be16_def nth_append)

lemma rd_le32_append [simp]: "4 \<le> length a \<Longrightarrow> rd_le32 (a @ b) = rd_le32 a"
  by (cases a) (auto simp: rd_le32_def nth_append)

lemma unat_uint16_of_nat: "n < 65536 \<Longrightarrow> unat (of_nat n :: uint16) = n"
  by (simp add: unsigned_of_nat take_bit_nat_eq_self)

lemma unat_byte_of_nat: "n < 256 \<Longrightarrow> unat (of_nat n :: byte) = n"
  by (simp add: unsigned_of_nat take_bit_nat_eq_self)

lemma unat_byte_less [simp]: "unat (x :: byte) < 256"
  using unsigned_less[of x] by simp

lemma unat_uint16_less [simp]: "unat (x :: uint16) < 65536"
  using unsigned_less[of x] by simp

section \<open>Randomness\<close>

text \<open>
  \<^verbatim>\<open>math/rand\<close> and \<^verbatim>\<open>crypto/rand\<close> are one source of arbitrary draws: a function
  from positions to naturals and the position of the next draw. Nothing is assumed of the
  function, so a theorem about the model holds whatever the generators return.
\<close>

record rng =
  draws :: "nat \<Rightarrow> nat"
  rpos :: nat

definition draw :: "rng \<Rightarrow> nat \<times> rng" where
  "draw r = (draws r (rpos r), r\<lparr>rpos := Suc (rpos r)\<rparr>)"

text \<open>\<^verbatim>\<open>rand.Intn(n)\<close>, for the positive \<open>n\<close> of every call of this program.\<close>

definition Intn :: "nat \<Rightarrow> rng \<Rightarrow> nat \<times> rng" where
  "Intn n r = (case draw r of (x, r') \<Rightarrow> (x mod n, r'))"

text \<open>\<^verbatim>\<open>rand.Read\<close> of \<open>n\<close> bytes, and \<^verbatim>\<open>tools.AppendRandBytes\<close>.\<close>

definition rand_bytes :: "nat \<Rightarrow> rng \<Rightarrow> bytes \<times> rng" where
  "rand_bytes n r =
     (map (\<lambda>i. of_nat (draws r (rpos r + i))) [0..<n], r\<lparr>rpos := rpos r + n\<rparr>)"

definition AppendRandBytes :: "bytes \<Rightarrow> nat \<Rightarrow> rng \<Rightarrow> bytes \<times> rng" where
  "AppendRandBytes b n r = (case rand_bytes n r of (x, r') \<Rightarrow> (b @ x, r'))"

definition Uint32 :: "rng \<Rightarrow> uint32 \<times> rng" where
  "Uint32 r = (case draw r of (x, r') \<Rightarrow> (of_nat x, r'))"

lemma Intn_less: "0 < n \<Longrightarrow> fst (Intn n r) < n"
  by (simp add: Intn_def draw_def)

lemma Intn_less': "Intn n r = (k, r') \<Longrightarrow> 0 < n \<Longrightarrow> k < n"
  by (metis Intn_less fst_conv)

lemma length_rand_bytes [simp, wire_length]: "length (fst (rand_bytes n r)) = n"
  by (simp add: rand_bytes_def)

lemma length_rand_bytes': "rand_bytes n r = (x, r') \<Longrightarrow> length x = n"
  by (metis length_rand_bytes fst_conv)

lemma AppendRandBytes_conv:
  "AppendRandBytes b n r = (b @ fst (rand_bytes n r), snd (rand_bytes n r))"
  by (simp add: AppendRandBytes_def split: prod.split)

end
