(* ===== verification/Net.thy ===== *)
theory Net
  imports Prelude
begin

text \<open>
  The network as a \<^verbatim>\<open>net.Conn\<close> shows it: what a connection will deliver is a list of
  outcomes, an error or a chunk of bytes, and a \<^verbatim>\<open>Read\<close> into a buffer of \<open>m\<close> bytes takes as
  much of the first chunk as fits. A read with nothing to come blocks. Over it, \<^verbatim>\<open>io.ReadFull\<close>.
  Nothing is assumed of where the network cuts a stream.
\<close>

datatype io_error = EOF | ErrUnexpectedEOF | OtherError nat

type_synonym net = "(io_error + bytes) list"

fun net_read :: "nat \<Rightarrow> net \<Rightarrow> ((io_error + bytes) \<times> net) go" where
  "net_read m [] = Hang"
| "net_read m (Inl e # rest) = Ret (Inl e, rest)"
| "net_read m (Inr x # rest) =
     (if length x \<le> m then Ret (Inr x, rest) else Ret (Inr (take m x), Inr (drop m x) # rest))"

text \<open>
  \<^verbatim>\<open>io.ReadFull\<close> of \<open>n\<close> bytes: an end of the stream after some of them is
  \<open>ErrUnexpectedEOF\<close>. The bytes read are part of the result, with an error or without. A
  connection that keeps returning no bytes at all is waited for.
\<close>

fun read_full_loop :: "nat \<Rightarrow> bytes \<Rightarrow> net \<Rightarrow> (bytes \<times> io_error option \<times> net) go" where
  "read_full_loop n got [] = (if length got \<ge> n then Ret (got, None, []) else Hang)"
| "read_full_loop n got (Inl e # rest) =
     (if length got \<ge> n then Ret (got, None, Inl e # rest)
      else Ret (got, Some (if e = EOF \<and> got \<noteq> [] then ErrUnexpectedEOF else e), rest))"
| "read_full_loop n got (Inr x # rest) =
     (let need = n - length got in
      if need = 0 then Ret (got, None, Inr x # rest)
      else if length x \<le> need then read_full_loop n (got @ x) rest
      else Ret (got @ take need x, None, Inr (drop need x) # rest))"

definition ReadFull :: "nat \<Rightarrow> net \<Rightarrow> (bytes \<times> io_error option \<times> net) go" where
  "ReadFull n net = read_full_loop n [] net"

text \<open>A network without errors, and the stream its chunks are cut from.\<close>

definition chunks_of :: "net \<Rightarrow> bytes \<Rightarrow> bool" where
  "chunks_of net stream \<longleftrightarrow> (\<exists>chunks. net = map Inr chunks \<and> concat chunks = stream)"

lemma chunks_of_Nil [simp]: "chunks_of [] s \<longleftrightarrow> s = []"
  by (auto simp: chunks_of_def)

lemma chunks_of_Cons: "chunks_of (o' # net) s \<longleftrightarrow> (\<exists>x t. o' = Inr x \<and> s = x @ t \<and> chunks_of net t)"
  by (cases o') (auto simp: chunks_of_def Cons_eq_map_conv)

lemma chunks_of_map [intro]: "chunks_of (map Inr chunks) (concat chunks)"
  by (auto simp: chunks_of_def)

text \<open>One read takes a beginning of the stream that fits, or blocks because it is over.\<close>

lemma net_read_chunks:
  assumes "chunks_of net s"
  shows "net_read m net = Hang \<and> net = [] \<or>
    (\<exists>x t net'. net_read m net = Ret (Inr x, net') \<and> s = x @ t \<and> chunks_of net' t \<and> length x \<le> m)"
proof (cases net)
  case (Cons o' rest)
  with assms obtain x t where x: "o' = Inr x" "s = x @ t" "chunks_of rest t" by (auto simp: chunks_of_Cons)
  show ?thesis
  proof (cases "length x \<le> m")
    case False
    have "chunks_of (Inr (drop m x) # rest) (drop m x @ t)" using x(3) by (auto simp: chunks_of_Cons)
    moreover have "s = take m x @ (drop m x @ t)" using x(2) by simp
    ultimately show ?thesis using Cons x(1) False by fastforce
  qed (use Cons x in auto)
qed simp

lemma read_full_loop_chunks:
  "chunks_of net s \<Longrightarrow> length got \<le> n \<Longrightarrow> n \<le> length got + length s \<Longrightarrow>
   \<exists>net'. read_full_loop n got net = Ret (got @ take (n - length got) s, None, net') \<and>
     chunks_of net' (drop (n - length got) s)"
proof (induction n got net arbitrary: s rule: read_full_loop.induct)
  case (3 n got x rest)
  from 3(2) obtain t where t: "s = x @ t" "chunks_of rest t" by (auto simp: chunks_of_Cons)
  consider "n = length got" | "length got < n" "length x \<le> n - length got" | "n - length got < length x" "length got < n"
    using 3(3) by linarith
  then show ?case
  proof cases
    case 1
    then show ?thesis using 3(2) by simp
  next
    case 2
    with 3(1)[of "n - length got" t] t 3(3,4) show ?thesis by (auto simp: Let_def)
  next
    case 3
    then show ?thesis using t by (auto simp: Let_def chunks_of_Cons)
  qed
qed (auto simp: chunks_of_Cons)

text \<open>\<open>ReadFull\<close> takes exactly the bytes it is asked for, when there are that many.\<close>

lemma ReadFull_chunks:
  "chunks_of net s \<Longrightarrow> n \<le> length s \<Longrightarrow>
   \<exists>net'. ReadFull n net = Ret (take n s, None, net') \<and> chunks_of net' (drop n s)"
  using read_full_loop_chunks[of net s "[]" n] by (simp add: ReadFull_def)

section \<open>Readers\<close>

text \<open>Reads of given sizes, one after the other, until one of them fails: all that they deliver.\<close>

fun reads :: "('c \<Rightarrow> nat \<Rightarrow> (('e + bytes) \<times> 'c) go) \<Rightarrow> 'c \<Rightarrow> nat list \<Rightarrow> (bytes \<times> 'e option \<times> 'c) go" where
  "reads read c [] = Ret ([], None, c)"
| "reads read c (m # ms) = go_bind (read c m) (\<lambda>(res, c').
     case res of
       Inl e \<Rightarrow> Ret ([], Some e, c')
     | Inr x \<Rightarrow> go_bind (reads read c' ms) (\<lambda>(y, e, c''). Ret (x @ y, e, c'')))"

text \<open>
  What a \<^verbatim>\<open>Read\<close> method promises of the bytes still to be delivered: it delivers a beginning
  of them, and blocks only when there are none. A decoding connection provides it for what its
  network will deliver, decoded.
\<close>

locale byte_reader =
  fixes read :: "'c \<Rightarrow> nat \<Rightarrow> (('e + bytes) \<times> 'c) go"
    and pending :: "'c \<Rightarrow> bytes \<Rightarrow> bool"
  assumes read_step: "pending c s \<Longrightarrow> (read c m = Hang \<and> s = []) \<or>
    (\<exists>x t c'. read c m = Ret (Inr x, c') \<and> s = x @ t \<and> pending c' t)"
begin

text \<open>
  Any sequence of reads then delivers a beginning without error or panic; one of them blocks only
  after those before it have delivered everything.
\<close>

lemma reads_deliver:
  assumes "pending c s"
  shows "(\<exists>x t c'. reads read c ms = Ret (x, None, c') \<and> s = x @ t \<and> pending c' t) \<or>
    (reads read c ms = Hang \<and> (\<exists>ms1 ms2 c'. ms = ms1 @ ms2 \<and> reads read c ms1 = Ret (s, None, c')))"
  using assms
proof (induction ms arbitrary: c s)
  case (Cons m ms)
  from read_step[OF Cons.prems, of m] show ?case
  proof
    assume "read c m = Hang \<and> s = []"
    then have "reads read c (m # ms) = Hang" "reads read c [] = Ret (s, None, c)" "m # ms = [] @ m # ms"
      by simp_all
    then show ?thesis by blast
  next
    assume "\<exists>x t c'. read c m = Ret (Inr x, c') \<and> s = x @ t \<and> pending c' t"
    then obtain x t c' where x: "read c m = Ret (Inr x, c')" "s = x @ t" "pending c' t" by blast
    from Cons.IH[OF x(3)] show ?thesis
    proof
      assume "\<exists>y u c''. reads read c' ms = Ret (y, None, c'') \<and> t = y @ u \<and> pending c'' u"
      then obtain y u c'' where "reads read c' ms = Ret (y, None, c'')" "t = y @ u" "pending c'' u" by blast
      with x(1,2) have "reads read c (m # ms) = Ret (x @ y, None, c'') \<and> s = (x @ y) @ u \<and> pending c'' u" by simp
      then show ?thesis by blast
    next
      assume "reads read c' ms = Hang \<and> (\<exists>ms1 ms2 c''. ms = ms1 @ ms2 \<and> reads read c' ms1 = Ret (t, None, c''))"
      then obtain ms1 ms2 c'' where "reads read c' ms = Hang" "ms = ms1 @ ms2"
        "reads read c' ms1 = Ret (t, None, c'')" by blast
      with x(1,2) have "reads read c (m # ms) = Hang" "m # ms = (m # ms1) @ ms2"
        "reads read c (m # ms1) = Ret (s, None, c'')" by simp_all
      then show ?thesis by blast
    qed
  qed
qed simp

end

text \<open>The network itself, when it delivers a stream without errors, is such a reader.\<close>

interpretation net: byte_reader "\<lambda>net m. net_read m net" chunks_of
proof
  fix net s m assume "chunks_of net s"
  from net_read_chunks[OF this, of m] this
  show "(net_read m net = Hang \<and> s = []) \<or>
    (\<exists>x t c'. net_read m net = Ret (Inr x, c') \<and> s = x @ t \<and> chunks_of c' t)"
    by auto
qed

section \<open>Decoders\<close>

text \<open>
  \<open>got\<close> has been decoded of a stream that decodes to \<open>whole\<close> without error: decoding what has
  arrived (\<open>ahead\<close>) and what the connection \<open>c\<close> under the decoder has still to deliver completes it,
  and when nothing is to come it is complete. \<open>p\<close> is the state of the decoder.
\<close>

definition decodes_to ::
  "('p \<Rightarrow> bytes \<Rightarrow> bytes \<Rightarrow> ('e option \<times> 'p \<times> bytes \<times> bytes) go) \<Rightarrow> ('c \<Rightarrow> bytes \<Rightarrow> bool) \<Rightarrow>
     'c \<Rightarrow> 'p \<Rightarrow> bytes \<Rightarrow> bytes \<Rightarrow> bytes \<Rightarrow> bool"
where
  "decodes_to dec pending c p got ahead whole \<longleftrightarrow> (\<exists>s p2. pending c s \<and>
     dec p got (ahead @ s) = Ret (None, p2, whole, []) \<and> (s = [] \<longrightarrow> got = whole))"

text \<open>
  What a connection relies on of its decoder: decoding input in two pieces is decoding it at once
  (until an error), what is already decoded is only appended to, and decoding comes back.
\<close>

locale stream_decoder =
  fixes dec :: "'p \<Rightarrow> bytes \<Rightarrow> bytes \<Rightarrow> ('e option \<times> 'p \<times> bytes \<times> bytes) go"
  assumes dec_append: "dec p dst (s @ t) = go_bind (dec p dst s)
      (\<lambda>(e, p', dst', r). case e of None \<Rightarrow> dec p' dst' (r @ t) | Some _ \<Rightarrow> Ret (e, p', dst', []))"
    and dec_prefix: "dec p (pre @ dst) s = go_bind (dec p dst s) (\<lambda>(e, p', out, r). Ret (e, p', pre @ out, r))"
    and dec_nil: "dec p dst [] = Ret (None, p, dst, [])"
    and dec_returns: "dec p dst s \<noteq> Hang"
begin

text \<open>
  If a whole input decodes without error, so does each of its beginnings, to a beginning of the
  output, and the state reached takes the rest.
\<close>

lemma dec_beginning:
  assumes "dec p dst (s @ t) = Ret (None, p2, out, [])"
  obtains p1 o1 r1 where "dec p dst s = Ret (None, p1, dst @ o1, r1)" "dec p1 (dst @ o1) (r1 @ t) = Ret (None, p2, out, [])"
    "\<exists>o2. out = (dst @ o1) @ o2"
proof -
  from assms dec_append[of p dst s t] obtain e p1 d1 r1 where 1: "dec p dst s = Ret (e, p1, d1, r1)"
    "(case e of None \<Rightarrow> dec p1 d1 (r1 @ t) | Some _ \<Rightarrow> Ret (e, p1, d1, [])) = Ret (None, p2, out, [])"
    by (auto simp: go_bind_Ret_iff)
  then have e: "e = None" by (cases e) auto
  obtain o1 where o1: "d1 = dst @ o1" using 1(1) dec_prefix[of p dst "[]" s] by (cases "dec p [] s") auto
  from 1(2) e have r: "dec p1 d1 (r1 @ t) = Ret (None, p2, out, [])" by simp
  obtain o2 where "out = d1 @ o2" using r dec_prefix[of p1 d1 "[]" "r1 @ t"] by (cases "dec p1 [] (r1 @ t)") auto
  with 1(1) e o1 r that show thesis by simp
qed

text \<open>One read of the connection below, decoded: the state moves on along the stream, or nothing is left.\<close>

lemma advance:
  assumes below: "byte_reader read pending" and d: "decodes_to dec pending c p got ahead whole"
  shows "(read c m = Hang \<and> got = whole) \<or>
    (\<exists>x c' p1 o1 r1. read c m = Ret (Inr x, c') \<and> dec p [] (ahead @ x) = Ret (None, p1, o1, r1) \<and>
      decodes_to dec pending c' p1 (got @ o1) r1 whole)"
proof -
  from d obtain s p2 where s: "pending c s" "dec p got (ahead @ s) = Ret (None, p2, whole, [])"
    "s = [] \<Longrightarrow> got = whole" by (auto simp: decodes_to_def)
  from byte_reader.read_step[OF below s(1), of m] show ?thesis
  proof
    assume "\<exists>x t c'. read c m = Ret (Inr x, c') \<and> s = x @ t \<and> pending c' t"
    then obtain x t c' where x: "read c m = Ret (Inr x, c')" "s = x @ t" "pending c' t" by blast
    with s(2) have "dec p got ((ahead @ x) @ t) = Ret (None, p2, whole, [])" by simp
    then obtain p1 o1 r1 where y: "dec p got (ahead @ x) = Ret (None, p1, got @ o1, r1)"
      "dec p1 (got @ o1) (r1 @ t) = Ret (None, p2, whole, [])"
      by (rule dec_beginning) blast
    have "dec p [] (ahead @ x) = Ret (None, p1, o1, r1)"
      using y(1) dec_prefix[of p got "[]" "ahead @ x"] by (cases "dec p [] (ahead @ x)") auto
    moreover have "t = [] \<Longrightarrow> got @ o1 = whole" using y(1) s(2) x(2) by simp
    then have "decodes_to dec pending c' p1 (got @ o1) r1 whole"
      using x(3) y(2) by (auto simp: decodes_to_def)
    ultimately show ?thesis using x(1) by blast
  qed (use s(3) in simp)
qed

lemma decodes_to_prefix: "decodes_to dec pending c p got ahead whole \<Longrightarrow> \<exists>rest. whole = got @ rest"
proof -
  assume "decodes_to dec pending c p got ahead whole"
  then obtain s p2 where "dec p got s = Ret (None, p2, whole, [])" by (auto simp: decodes_to_def)
  with dec_prefix[of p got "[]" s] show ?thesis by (cases "dec p [] s") auto
qed

text \<open>A decoder that has only begun: all that the connection below is to deliver decodes to the stream.\<close>

lemma decodes_to_start:
  assumes "pending c s" "dec p [] s = Ret (None, p2, whole, [])"
  shows "decodes_to dec pending c p [] [] whole"
proof -
  have "s = [] \<Longrightarrow> whole = []" using assms(2) dec_nil[of p "[]"] by simp
  with assms show ?thesis by (auto simp: decodes_to_def)
qed

end

end
