(* ===== verification/Go_Text.thy ===== *)
theory Go_Text
  imports Prelude
begin

text \<open>
  The functions of \<^verbatim>\<open>strings\<close>, \<^verbatim>\<open>bytes\<close> and \<^verbatim>\<open>strconv\<close> the program calls
  on short texts: splitting, searching, replacing, decimal numbers. A Go string is a list of bytes.
\<close>

text \<open>\<^verbatim>\<open>strings.Split\<close> at a single byte.\<close>

fun split_at :: "byte \<Rightarrow> bytes \<Rightarrow> bytes list" where
  "split_at c [] = [[]]"
| "split_at c (x # xs) =
     (if x = c then [] # split_at c xs
      else (case split_at c xs of [] \<Rightarrow> [[x]] | y # ys \<Rightarrow> (x # y) # ys))"

text \<open>\<^verbatim>\<open>strconv.ParseUint(s, 10, 32)\<close>: digits only, at least one, and no overflow.\<close>

definition ParseUint32 :: "bytes \<Rightarrow> uint32 option" where
  "ParseUint32 s =
     (if s = [] \<or> (\<exists>c \<in> set s. c < 48 \<or> 57 < c) then None
      else let n = foldl (\<lambda>acc c. 10 * acc + (unat c - 48)) 0 s
           in if n < 2 ^ 32 then Some (of_nat n) else None)"

text \<open>\<^verbatim>\<open>strings.Index\<close> and \<^verbatim>\<open>bytes.Index\<close>: the first occurrence; \<open>None\<close> is -1.\<close>

fun Index :: "bytes \<Rightarrow> bytes \<Rightarrow> nat option" where
  "Index s sep =
     (if take (length sep) s = sep then Some 0
      else (case s of [] \<Rightarrow> None | _ # t \<Rightarrow> map_option Suc (Index t sep)))"

declare Index.simps [simp del]

lemma Index_Some:
  "Index s sep = Some i \<Longrightarrow> i + length sep \<le> length s \<and> sub i (length sep) s = sep"
proof (induction s sep arbitrary: i rule: Index.induct)
  case (1 s sep)
  show ?case
  proof (cases "take (length sep) s = sep")
    case True
    then have "length sep \<le> length s" by (metis length_take min.cobounded1)
    with True 1(2) show ?thesis by (simp add: Index.simps[of s sep])
  next
    case False
    with 1(2) obtain x t k where "s = x # t" "Index t sep = Some k" "i = Suc k"
      by (auto simp: Index.simps[of s sep] split: list.splits)
    with 1(1)[OF False, of x t k] show ?thesis by simp
  qed
qed

lemma Index_first:
  "Index s sep = Some i \<Longrightarrow> k < i \<Longrightarrow> sub k (length sep) s \<noteq> sep"
proof (induction s sep arbitrary: i k rule: Index.induct)
  case (1 s sep)
  then have ne: "take (length sep) s \<noteq> sep" by (auto simp: Index.simps[of s sep] split: if_splits)
  with 1(2) obtain x t j where s: "s = x # t" "Index t sep = Some j" "i = Suc j"
    by (auto simp: Index.simps[of s sep] split: list.splits)
  show ?case
  proof (cases k)
    case 0
    with ne show ?thesis by simp
  next
    case (Suc k')
    with 1(1)[OF ne s(1,2), of k'] 1(3) s show ?thesis by simp
  qed
qed

text \<open>\<^verbatim>\<open>strings.ReplaceAll\<close>, for a text to replace that is not empty.\<close>

function ReplaceAll :: "bytes \<Rightarrow> bytes \<Rightarrow> bytes \<Rightarrow> bytes" where
  "ReplaceAll s old new =
     (if old = [] then s
      else if take (length old) s = old then new @ ReplaceAll (drop (length old) s) old new
      else (case s of [] \<Rightarrow> [] | x # t \<Rightarrow> x # ReplaceAll t old new))"
  by pat_completeness auto
termination
proof (relation "measure (\<lambda>(s, old, new). length s)", goal_cases)
  case (2 s old new)
  then have "s \<noteq> []" by auto
  with 2 show ?case by (cases s; cases old) auto
qed simp_all

declare ReplaceAll.simps [simp del]

text \<open>\<^verbatim>\<open>strconv.Itoa\<close>.\<close>

fun nat_digits :: "nat \<Rightarrow> bytes" where
  "nat_digits n = (if n < 10 then [of_nat (48 + n)] else nat_digits (n div 10) @ [of_nat (48 + n mod 10)])"

declare nat_digits.simps [simp del]

definition Itoa :: "int \<Rightarrow> bytes" where
  "Itoa i = (if i < 0 then 45 # nat_digits (nat (- i)) else nat_digits (nat i))"

lemma nat_digits_ne [simp]: "nat_digits n \<noteq> []"
  by (subst nat_digits.simps) simp

text \<open>Printing a number and reading it back.\<close>

lemma digit_byte: "d < 10 \<Longrightarrow> unat (of_nat (48 + d) :: byte) = 48 + d"
  by (rule unat_byte_of_nat) simp

lemma nat_digits_value: "foldl (\<lambda>acc c. 10 * acc + (unat c - 48)) 0 (nat_digits n) = n"
proof (induction n rule: nat_digits.induct)
  case (1 n)
  show ?case
  proof (cases "n < 10")
    case True
    then show ?thesis using digit_byte[OF True] by (simp add: nat_digits.simps[of n] del: of_nat_add)
  next
    case False
    have "n mod 10 < 10" by simp
    with 1[OF False] digit_byte[OF this] False show ?thesis
      by (simp add: nat_digits.simps[of n] del: of_nat_add)
  qed
qed

lemma nat_digits_range: "c \<in> set (nat_digits n) \<Longrightarrow> 48 \<le> c \<and> c \<le> 57"
proof (induction n rule: nat_digits.induct)
  case (1 n)
  have r: "48 \<le> (of_nat (48 + d) :: byte) \<and> (of_nat (48 + d) :: byte) \<le> 57" if "d < 10" for d
    using digit_byte[OF that] that by (auto simp: word_le_nat_alt simp del: of_nat_add)
  show ?case
  proof (cases "n < 10")
    case True
    with 1(2) r[OF True] show ?thesis by (simp add: nat_digits.simps[of n] del: of_nat_add)
  next
    case False
    with 1 r[of "n mod 10"] show ?thesis
      by (auto simp: nat_digits.simps[of n] simp del: of_nat_add)
  qed
qed

lemma ParseUint32_Itoa: "n < 2 ^ 32 \<Longrightarrow> ParseUint32 (Itoa (int n)) = Some (of_nat n)"
proof -
  assume n: "n < 2 ^ 32"
  have "\<not> (\<exists>c \<in> set (nat_digits n). c < 48 \<or> 57 < c)"
    using nat_digits_range[of _ n] by (auto simp: not_less)
  with n show ?thesis by (simp add: ParseUint32_def Itoa_def nat_digits_value)
qed

end
