(* ===== verification/Pool.thy ===== *)
theory Pool
  imports Prelude
begin

text \<open>
  The byte-slice allocator of \<^verbatim>\<open>clash/common/pool\<close>: size classes \<open>2^0 \<dots> 2^16\<close>, each a
  \<^verbatim>\<open>sync.Pool\<close>. What a \<^verbatim>\<open>sync.Pool\<close> hands out is its own choice (any pooled item, or a
  new one), so \<open>Get\<close> takes the choice as an argument and the theorems hold for every choice.
  The interface \<open>scratch_pool\<close> is what the protocols rely on when they build keys and headers in
  pooled buffers: the length asked for, whatever the stale contents.
\<close>

section \<open>Slices with a capacity\<close>

text \<open>The backing array runs from the slice's start to its capacity.\<close>

record gslice =
  s_len :: nat
  s_arr :: bytes

definition s_cap :: "gslice \<Rightarrow> nat" where
  "s_cap s = length (s_arr s)"

definition s_bytes :: "gslice \<Rightarrow> bytes" where
  "s_bytes s = take (s_len s) (s_arr s)"

definition nil_slice :: gslice where
  "nil_slice = \<lparr>s_len = 0, s_arr = []\<rparr>"

text \<open>\<^verbatim>\<open>make([]byte, n)\<close> and the reslicing \<^verbatim>\<open>b[:n]\<close>.\<close>

definition make_bytes :: "nat \<Rightarrow> gslice" where
  "make_bytes n = \<lparr>s_len = n, s_arr = replicate n 0\<rparr>"

definition reslice :: "nat \<Rightarrow> bytes \<Rightarrow> gslice go" where
  "reslice n arr = (if n \<le> length arr then Ret \<lparr>s_len = n, s_arr = arr\<rparr> else Panic)"

section \<open>The most significant bit\<close>

text \<open>\<^verbatim>\<open>bits.Len32\<close>: the number of bits needed to write the value.\<close>

fun bit_len :: "nat \<Rightarrow> nat" where
  "bit_len n = (if n = 0 then 0 else Suc (bit_len (n div 2)))"

declare bit_len.simps [simp del]

lemma bit_len_0 [simp]: "bit_len 0 = 0"
  by (simp add: bit_len.simps)

lemma bit_len_pos: "0 < n \<Longrightarrow> bit_len n = Suc (bit_len (n div 2))"
  by (simp add: bit_len.simps)

lemma bit_len_bounds: "0 < n \<Longrightarrow> 2 ^ (bit_len n - 1) \<le> n \<and> n < 2 ^ bit_len n"
proof (induction n rule: bit_len.induct)
  case (1 n)
  show ?case
  proof (cases "n div 2 = 0")
    case True
    with "1.prems" have "n = 1" by linarith
    then show ?thesis by (simp add: bit_len_pos)
  next
    case False
    define k where "k = bit_len (n div 2)"
    from False "1.IH" "1.prems" have ih: "2 ^ (k - 1) \<le> n div 2" "n div 2 < 2 ^ k"
      by (simp_all add: k_def)
    from False have "0 < k" by (simp add: k_def bit_len_pos)
    then have "2 ^ k = 2 * (2::nat) ^ (k - 1)" by (simp flip: power_Suc)
    moreover have "bit_len n = Suc k" using "1.prems" by (simp add: bit_len_pos k_def)
    ultimately show ?thesis using ih by auto
  qed
qed

lemma bit_len_le: "n < 2 ^ k \<Longrightarrow> bit_len n \<le> k"
proof (cases "n = 0")
  case False
  assume "n < 2 ^ k"
  moreover from False have "2 ^ (bit_len n - 1) \<le> n" using bit_len_bounds by blast
  ultimately have "(2::nat) ^ (bit_len n - 1) < 2 ^ k" by linarith
  then show ?thesis by (simp add: power_strict_increasing_iff)
qed simp

definition Len32 :: "uint32 \<Rightarrow> int" where
  "Len32 w = int (bit_len (unat w))"

text \<open>\<^verbatim>\<open>msb\<close>: both conversions truncate, as in the code.\<close>

definition msb :: "int \<Rightarrow> uint16" where
  "msb sz = word_of_int (Len32 (word_of_int sz) - 1)"

lemma msb_eq:
  assumes "0 < n" "n < 2 ^ 32"
  shows "unat (msb (int n)) = bit_len n - 1"
proof -
  have u: "unat (of_nat n :: uint32) = n"
    using assms(2) by (simp add: unsigned_of_nat take_bit_nat_eq_self)
  have le: "bit_len n \<le> 32" using assms(2) by (rule bit_len_le)
  have pos: "bit_len n \<noteq> 0" using assms(1) by (simp add: bit_len_pos)
  then have "int (bit_len n) - 1 = int (bit_len n - 1)" by linarith
  then have "msb (int n) = of_int (int (bit_len n - 1))"
    by (simp only: msb_def Len32_def of_int_of_nat_eq u)
  moreover have "unat (of_nat (bit_len n - 1) :: uint16) = bit_len n - 1"
    using le by (intro unat_uint16_of_nat) linarith
  ultimately show ?thesis by (simp only: of_int_of_nat_eq)
qed

section \<open>The allocator\<close>

record allocator =
  buffers :: "bytes list list"

definition NewAllocator :: allocator where
  "NewAllocator = \<lparr>buffers = replicate 17 []\<rparr>"

text \<open>
  \<^verbatim>\<open>alloc.buffers[k].Get()\<close>: the pooled item of the pool's choice, or \<^verbatim>\<open>New\<close>,
  which makes \<open>2^k\<close> zero bytes. An index past the 17 classes panics.
\<close>

definition class_get :: "allocator \<Rightarrow> nat option \<Rightarrow> nat \<Rightarrow> (bytes \<times> allocator) go" where
  "class_get a pick k =
     (if k < length (buffers a) then
        let items = buffers a ! k in
        (case pick of
           Some i \<Rightarrow>
             if i < length items
             then Ret (items ! i,
                       a\<lparr>buffers := (buffers a)[k := take i items @ drop (Suc i) items]\<rparr>)
             else Ret (replicate (2 ^ k) 0, a)
         | None \<Rightarrow> Ret (replicate (2 ^ k) 0, a))
      else Panic)"

definition class_put :: "allocator \<Rightarrow> nat \<Rightarrow> bytes \<Rightarrow> allocator go" where
  "class_put a k arr =
     (if k < length (buffers a) then Ret (a\<lparr>buffers := (buffers a)[k := arr # buffers a ! k]\<rparr>)
      else Panic)"

definition Get :: "allocator \<Rightarrow> nat option \<Rightarrow> int \<Rightarrow> (gslice \<times> allocator) go" where
  "Get a pick sz =
     (if sz < 0 then Panic
      else if sz = 0 then Ret (nil_slice, a)
      else if sz > 65536 then Ret (make_bytes (nat sz), a)
      else
        let b = unat (msb sz) in
        go_bind (class_get a pick (if sz = 2 ^ b then b else b + 1))
          (\<lambda>(arr, a'). go_bind (reslice (nat sz) arr) (\<lambda>s. Ret (s, a'))))"

datatype pool_error = IncorrectBufferSize

definition Put :: "allocator \<Rightarrow> gslice \<Rightarrow> (pool_error option \<times> allocator) go" where
  "Put a buf =
     (if s_cap buf = 0 \<or> s_cap buf > 65536 then Ret (None, a)
      else
        let b = unat (msb (int (s_cap buf))) in
        if s_cap buf \<noteq> 2 ^ b then Ret (Some IncorrectBufferSize, a)
        else go_bind (class_put a b (s_arr buf)) (\<lambda>a'. Ret (None, a')))"

definition RelayBufferSize :: nat where
  "RelayBufferSize = 20 * 1024"

section \<open>The invariant: a class holds arrays of its size\<close>

definition alloc_inv :: "allocator \<Rightarrow> bool" where
  "alloc_inv a \<longleftrightarrow> length (buffers a) = 17 \<and>
     (\<forall>k < 17. \<forall>arr \<in> set (buffers a ! k). length arr = 2 ^ k)"

lemma alloc_inv_New [simp]: "alloc_inv NewAllocator"
  by (simp add: alloc_inv_def NewAllocator_def)

lemma class_get_inv:
  assumes "alloc_inv a" "k < 17"
  obtains arr a' where "class_get a pick k = Ret (arr, a')" "length arr = 2 ^ k" "alloc_inv a'"
proof (cases "\<exists>i. pick = Some i \<and> i < length (buffers a ! k)")
  case True
  then obtain i where i: "pick = Some i" "i < length (buffers a ! k)" by blast
  let ?items = "buffers a ! k"
  let ?a' = "a\<lparr>buffers := (buffers a)[k := take i ?items @ drop (Suc i) ?items]\<rparr>"
  have "set (take i ?items @ drop (Suc i) ?items) \<subseteq> set ?items"
    using set_take_subset set_drop_subset by fastforce
  with assms have "alloc_inv ?a'"
    by (auto simp: alloc_inv_def nth_list_update)
  moreover have "class_get a pick k = Ret (?items ! i, ?a')"
    using assms i by (simp add: class_get_def alloc_inv_def Let_def)
  moreover have "length (?items ! i) = 2 ^ k"
    using assms i by (auto simp: alloc_inv_def)
  ultimately show thesis using that by blast
next
  case False
  with assms have "class_get a pick k = Ret (replicate (2 ^ k) 0, a)"
    by (auto simp: class_get_def alloc_inv_def Let_def split: option.split)
  with assms(1) show thesis using that by simp
qed

lemma class_put_inv:
  assumes "alloc_inv a" "k < 17" "length arr = 2 ^ k"
  shows "\<exists>a'. class_put a k arr = Ret a' \<and> alloc_inv a'"
  using assms by (auto simp: class_put_def alloc_inv_def nth_list_update)

text \<open>The class chosen for a size: the least power of two that holds it.\<close>

definition class_of :: "nat \<Rightarrow> nat" where
  "class_of n = (let b = unat (msb (int n)) in if n = 2 ^ b then b else b + 1)"

lemma class_of_bounds:
  assumes "0 < n" "n \<le> 65536"
  shows "n \<le> 2 ^ class_of n" "2 ^ class_of n < 2 * n" "class_of n < 17"
proof -
  let ?b = "bit_len n - 1"
  have b: "unat (msb (int n)) = ?b" using assms by (intro msb_eq) auto
  have bounds: "2 ^ ?b \<le> n" "n < 2 ^ bit_len n" using bit_len_bounds[OF assms(1)] by auto
  have pos: "0 < bit_len n" using assms(1) by (simp add: bit_len_pos)
  then have two: "2 ^ bit_len n = 2 * (2::nat) ^ ?b" by (simp flip: power_Suc)
  have b16: "?b \<le> 16"
  proof -
    have "(2::nat) ^ ?b \<le> 2 ^ 16" using bounds(1) assms(2) by simp
    then show ?thesis by (rule power_le_imp_le_exp[rotated]) simp
  qed
  show "n \<le> 2 ^ class_of n" using bounds two by (auto simp: class_of_def b Let_def)
  show "2 ^ class_of n < 2 * n" using bounds assms(1) by (auto simp: class_of_def b Let_def)
  show "class_of n < 17"
  proof (cases "n = 2 ^ ?b")
    case True
    with b16 show ?thesis by (simp add: class_of_def b Let_def)
  next
    case False
    with bounds(1) assms(2) have "(2::nat) ^ ?b < 2 ^ 16" by simp
    then have "?b < 16" by (rule power_less_imp_less_exp[rotated]) simp
    with False show ?thesis by (simp add: class_of_def b Let_def)
  qed
qed

lemma Get_class:
  assumes "0 < n" "n \<le> 65536"
  shows "Get a pick (int n) = go_bind (class_get a pick (class_of n))
           (\<lambda>(arr, a'). go_bind (reslice n arr) (\<lambda>s. Ret (s, a')))"
proof -
  have "(int n = 2 ^ k) = (n = 2 ^ k)" for k
    by (metis of_nat_eq_iff of_nat_numeral of_nat_power)
  with assms show ?thesis by (simp add: Get_def class_of_def Let_def)
qed

lemma Get_ok:
  assumes inv: "alloc_inv a" and size: "0 < n" "n \<le> 65536"
  obtains s a' where "Get a pick (int n) = Ret (s, a')" "s_len s = n"
    "s_cap s = 2 ^ class_of n" "alloc_inv a'"
proof -
  note cb = class_of_bounds[OF size]
  from class_get_inv[OF inv cb(3), where pick = pick] obtain arr a'
    where g: "class_get a pick (class_of n) = Ret (arr, a')" "length arr = 2 ^ class_of n"
      "alloc_inv a'" by blast
  from g(1,2) cb(1) have "Get a pick (int n) = Ret (\<lparr>s_len = n, s_arr = arr\<rparr>, a')"
    by (simp add: Get_class[OF size] reslice_def)
  with that g show thesis by (simp add: s_cap_def)
qed

lemma class_of_power: "0 < n \<Longrightarrow> n \<le> 65536 \<Longrightarrow> class_of (2 ^ class_of n) = class_of n"
proof -
  assume n: "0 < n" "n \<le> 65536"
  define m :: nat where "m = 2 ^ class_of n"
  have m: "0 < m" "m \<le> 65536"
  proof -
    have "class_of n \<le> 16" using class_of_bounds(3)[OF n] by simp
    then have "m \<le> 2 ^ 16" unfolding m_def by (intro power_increasing) auto
    then show "m \<le> 65536" by simp
  qed (simp add: m_def)
  have "m \<le> 2 ^ class_of m" "2 ^ class_of m < 2 * m" using class_of_bounds[OF m] by auto
  then have "(2::nat) ^ class_of n \<le> 2 ^ class_of m" "(2::nat) ^ class_of m < 2 ^ Suc (class_of n)"
    by (simp_all add: m_def)
  then have "class_of n \<le> class_of m" "class_of m < Suc (class_of n)"
    using power_le_imp_le_exp power_less_imp_less_exp by (meson one_less_numeral_iff semiring_norm(76))+
  then show ?thesis by (simp add: m_def)
qed

section \<open>Buffers\<close>

text \<open>
  \<^verbatim>\<open>buffer.go\<close>: a pool of \<^verbatim>\<open>bytes.Buffer\<close>s. \<open>PutBuffer\<close> resets the buffer it
  returns, so that \<open>GetBuffer\<close> hands out an empty one.
\<close>

definition GetBuffer :: "bytes list \<Rightarrow> nat option \<Rightarrow> bytes \<times> bytes list" where
  "GetBuffer pool pick =
     (case pick of
        Some i \<Rightarrow> if i < length pool then (pool ! i, take i pool @ drop (Suc i) pool) else ([], pool)
      | None \<Rightarrow> ([], pool))"

definition PutBuffer :: "bytes list \<Rightarrow> bytes \<Rightarrow> bytes list" where
  "PutBuffer pool buf = (let buf = [] in buf # pool)"

definition buffers_empty :: "bytes list \<Rightarrow> bool" where
  "buffers_empty pool \<longleftrightarrow> list_all (\<lambda>b. b = []) pool"

lemma buffers_empty_Nil [simp]: "buffers_empty []"
  by (simp add: buffers_empty_def)

lemma PutBuffer_empty [simp]: "buffers_empty pool \<Longrightarrow> buffers_empty (PutBuffer pool buf)"
  by (simp add: buffers_empty_def PutBuffer_def)

lemma GetBuffer_empty:
  "buffers_empty pool \<Longrightarrow> GetBuffer pool pick = (b, pool') \<Longrightarrow> b = [] \<and> buffers_empty pool'"
  unfolding GetBuffer_def buffers_empty_def list_all_iff
  by (fastforce split: option.splits if_splits dest: in_set_takeD in_set_dropD)

section \<open>What the clients rely on\<close>

text \<open>
  A source of scratch buffers: a size it accepts gives a buffer of that length, and the
  invariant is kept by taking and returning buffers.
\<close>

locale scratch_pool =
  fixes get :: "'a \<Rightarrow> nat option \<Rightarrow> nat \<Rightarrow> ('b \<times> 'a) go"
    and put :: "'a \<Rightarrow> 'b \<Rightarrow> 'a go"
    and contents :: "'b \<Rightarrow> bytes"
    and inv :: "'a \<Rightarrow> bool"
    and limit :: nat
  assumes get_ret: "inv a \<Longrightarrow> n \<le> limit \<Longrightarrow> \<exists>b a'. get a pick n = Ret (b, a')"
    and get_len: "inv a \<Longrightarrow> get a pick n = Ret (b, a') \<Longrightarrow> length (contents b) = n"
    and get_inv: "inv a \<Longrightarrow> n \<le> limit \<Longrightarrow> get a pick n = Ret (b, a') \<Longrightarrow> inv a'"
    and put_back: "inv a \<Longrightarrow> n \<le> limit \<Longrightarrow> get a pick n = Ret (b, a1) \<Longrightarrow>
      inv a2 \<Longrightarrow> \<exists>a3. put a2 b = Ret a3 \<and> inv a3"
begin

text \<open>
  A key built by copying two fields into a scratch buffer of their total length is the two
  fields in order: no stale byte survives.
\<close>

lemma two_fields:
  assumes "inv a" "get a pick (length x + length y) = Ret (b, a')"
  shows "copy_at (length x) y (copy_at 0 x (contents b)) = x @ y"
  using get_len[OF assms] by (rule copy_at_two)

text \<open>Borrowing a buffer and returning it is possible and keeps the invariant.\<close>

lemma borrow:
  assumes "inv a" "n \<le> limit"
  shows "\<exists>b a1 a2. get a pick n = Ret (b, a1) \<and> length (contents b) = n \<and> inv a1 \<and>
    put a1 b = Ret a2 \<and> inv a2"
proof -
  from get_ret[OF assms] obtain b a1 where g: "get a pick n = Ret (b, a1)" by blast
  with assms have "inv a1" by (blast intro: get_inv)
  with put_back[OF assms g] get_len[OF assms(1) g] g show ?thesis by blast
qed

end

text \<open>The model's allocator provides it; an ignored error of \<open>Put\<close> never occurs here.\<close>

definition put_ignoring :: "allocator \<Rightarrow> gslice \<Rightarrow> allocator go" where
  "put_ignoring a b = go_bind (Put a b) (\<lambda>(e, a'). Ret a')"

lemma Get_zero: "Get a pick 0 = Ret (nil_slice, a)"
  by (simp add: Get_def)

lemma put_after_get:
  assumes inv: "alloc_inv a2" and n: "0 < n" "n \<le> 65536" and cap: "s_cap s = 2 ^ class_of n"
  shows "\<exists>a3. Put a2 s = Ret (None, a3) \<and> alloc_inv a3"
proof -
  note cb = class_of_bounds[OF n]
  have le: "class_of n \<le> 16" using cb(3) by simp
  have cap_le: "s_cap s \<le> 65536"
    unfolding cap using power_increasing[OF le, of "2::nat"] by simp
  have pos: "0 < s_cap s" by (simp add: cap)
  have "class_of (s_cap s) = class_of n" unfolding cap by (rule class_of_power[OF n])
  moreover have "2 ^ unat (msb (int (s_cap s))) = s_cap s"
  proof (rule ccontr)
    assume ne: "2 ^ unat (msb (int (s_cap s))) \<noteq> s_cap s"
    let ?b = "unat (msb (int (s_cap s)))"
    from ne have "class_of (s_cap s) = ?b + 1" by (auto simp: class_of_def Let_def)
    with calculation cap have "s_cap s = 2 ^ (?b + 1)" by simp
    moreover have "?b = bit_len (s_cap s) - 1" using pos cap_le by (intro msb_eq) auto
    moreover have "s_cap s < 2 ^ bit_len (s_cap s)" using bit_len_bounds[OF pos] by simp
    moreover have "0 < bit_len (s_cap s)" using pos by (simp add: bit_len_pos)
    ultimately show False by simp
  qed
  ultimately have b: "unat (msb (int (s_cap s))) = class_of n"
    by (auto simp: class_of_def Let_def)
  from class_put_inv[OF inv cb(3)] cap obtain a3
    where "class_put a2 (class_of n) (s_arr s) = Ret a3" "alloc_inv a3"
    by (auto simp: s_cap_def)
  with pos cap_le cap b show ?thesis by (auto simp: Put_def Let_def)
qed

interpretation alloc: scratch_pool
  "\<lambda>a pick n. Get a pick (int n)" put_ignoring s_bytes alloc_inv 65536
proof
  fix a pick and n :: nat assume inv: "alloc_inv a" and n: "n \<le> 65536"
  show "\<exists>b a'. Get a pick (int n) = Ret (b, a')"
  proof (cases "n = 0")
    case False
    then have "0 < n" by simp
    from Get_ok[OF inv this n, of pick] show ?thesis by blast
  qed (simp add: Get_zero)
next
  fix a pick b a' and n :: nat assume inv: "alloc_inv a" and g: "Get a pick (int n) = Ret (b, a')"
  consider "n = 0" | "0 < n" "n \<le> 65536" | "65536 < n" by linarith
  then show "length (s_bytes b) = n"
  proof cases
    case 2
    from Get_ok[OF inv 2, of pick] g have "s_len b = n" "s_cap b = 2 ^ class_of n" by force+
    with class_of_bounds(1)[OF 2] show ?thesis by (simp add: s_bytes_def s_cap_def)
  qed (use g in \<open>auto simp: Get_def s_bytes_def nil_slice_def make_bytes_def\<close>)
next
  fix a pick b a' and n :: nat assume inv: "alloc_inv a" and n: "n \<le> 65536"
    and g: "Get a pick (int n) = Ret (b, a')"
  show "alloc_inv a'"
  proof (cases "n = 0")
    case False
    then have "0 < n" by simp
    from Get_ok[OF inv this n, of pick] g show ?thesis by force
  qed (use g inv in \<open>simp add: Get_zero\<close>)
next
  fix a pick b a1 a2 and n :: nat assume inv: "alloc_inv a" and n: "n \<le> 65536"
    and g: "Get a pick (int n) = Ret (b, a1)" and inv2: "alloc_inv a2"
  show "\<exists>a3. put_ignoring a2 b = Ret a3 \<and> alloc_inv a3"
  proof (cases "n = 0")
    case True
    with g inv2 show ?thesis
      by (auto simp: Get_zero put_ignoring_def Put_def s_cap_def nil_slice_def)
  next
    case False
    then have pos: "0 < n" by simp
    from Get_ok[OF inv pos n, of pick] g have "s_cap b = 2 ^ class_of n" by force
    from put_after_get[OF inv2 pos n this] show ?thesis by (auto simp: put_ignoring_def)
  qed
qed

section \<open>Properties\<close>

text \<open>
  C30: For every size up to 64 KiB and every choice of the pools, \<open>Get\<close> returns: a slice
  of exactly the size asked for, whose capacity is a power of two less than twice the size (so at
  most half of an allocation is waste, as the comment of \<open>NewAllocator\<close> promises), the
  size classes stay well formed, and the slice is one that \<open>Put\<close> accepts back.
\<close>

theorem Get_size_and_waste:
  fixes n :: nat
  assumes "alloc_inv a" "0 < n" "n \<le> 65536"
  shows "\<exists>s a' k a''. Get a pick (int n) = Ret (s, a') \<and> s_len s = n \<and> s_cap s = 2 ^ k \<and>
    n \<le> s_cap s \<and> s_cap s < 2 * n \<and> alloc_inv a' \<and> Put a' s = Ret (None, a'') \<and> alloc_inv a''"
proof -
  from Get_ok[OF assms, of pick] obtain s a' where g: "Get a pick (int n) = Ret (s, a')"
    "s_len s = n" "s_cap s = 2 ^ class_of n" "alloc_inv a'" by blast
  with put_after_get[OF g(4) assms(2,3) g(3)] class_of_bounds[OF assms(2,3)]
  show ?thesis by auto
qed

theorem Get_size_and_waste_witness:
  "alloc_inv NewAllocator \<and> (\<exists>s a'. Get NewAllocator (Some 0) (int 20480) = Ret (s, a') \<and> s_len s = 20480)"
  using Get_size_and_waste[of NewAllocator 20480 "Some 0"] by auto

end
