(* ===== verification/Obfs_HTTP.thy ===== *)
theory Obfs_HTTP
  imports Net Go_Text Pool Obfs_User_Agents
begin

text \<open>
  The HTTP disguises \<^verbatim>\<open>http_simple\<close> and \<^verbatim>\<open>http_post\<close>
  (\<^verbatim>\<open>obfs/base.go\<close>, \<^verbatim>\<open>obfs/http_simple.go\<close>, \<^verbatim>\<open>obfs/http_post.go\<close>). The first data
  written goes out percent-encoded in the path of a request; the first response header read is
  stripped; after that both directions are passed through.
\<close>

section \<open>base.go\<close>

record obfs_Base =
  Host :: bytes
  Port :: int
  ob_Key :: bytes
  IVSize :: nat
  ob_Param :: bytes

section \<open>The connection\<close>

definition hextable :: bytes where
  "hextable = str ''0123456789abcdef''"

definition charset :: bytes where
  "charset = str ''ABCDEFGHIJKLMNOPQRSTUVWXYZabcdefghijklmnopqrstuvwxyz0123456789''"

definition CRLF :: bytes where
  "CRLF = [13, 10]"

record httpObfs =
  ho_Base :: obfs_Base
  post :: bool

definition newHTTPSimple :: "obfs_Base \<Rightarrow> httpObfs" where
  "newHTTPSimple b = \<lparr>ho_Base = b, post = False\<rparr>"

definition newHTTPPost :: "obfs_Base \<Rightarrow> httpObfs" where
  "newHTTPPost b = \<lparr>ho_Base = b, post = True\<rparr>"

text \<open>The leftover of the response's first read is nil or some bytes.\<close>

record httpConn =
  hc_net :: net
  hc_obfs :: httpObfs
  hc_hasSentHeader :: bool
  hc_hasRecvHeader :: bool
  hc_buf :: "bytes option"

definition http_StreamConn :: "httpObfs \<Rightarrow> net \<Rightarrow> httpConn" where
  "http_StreamConn h net = \<lparr>hc_net = net, hc_obfs = h, hc_hasSentHeader = False,
     hc_hasRecvHeader = False, hc_buf = None\<rparr>"

definition http_Read :: "httpConn \<Rightarrow> nat \<Rightarrow> ((io_error + bytes) \<times> httpConn) go" where
  "http_Read c m =
     (case hc_buf c of
        Some x \<Rightarrow>
          let n = min m (length x)
          in Ret (Inr (take n x), c\<lparr>hc_buf := (if n = length x then None else Some (drop n x))\<rparr>)
      | None \<Rightarrow>
          if hc_hasRecvHeader c
          then go_bind (net_read m (hc_net c)) (\<lambda>(res, net). Ret (res, c\<lparr>hc_net := net\<rparr>))
          else go_bind (net_read RelayBufferSize (hc_net c)) (\<lambda>(res, net).
            let c1 = c\<lparr>hc_net := net\<rparr> in
            case res of
              Inl e \<Rightarrow> Ret (Inl e, c1)
            | Inr x \<Rightarrow>
                (case Index x (CRLF @ CRLF) of
                   None \<Rightarrow> Ret (Inl EOF, c1)
                 | Some pos \<Rightarrow>
                     let dataLength = length x - pos - 4;
                         n = min m dataLength;
                         c2 = c1\<lparr>hc_hasRecvHeader := True\<rparr>
                     in Ret (Inr (sub (4 + pos) n x),
                          if dataLength > n
                          then c2\<lparr>hc_buf := Some (sub (4 + pos + n) (dataLength - n) x)\<rparr>
                          else c2))))"

section \<open>The request\<close>

definition packURLEncodedHeadData :: "bytes \<Rightarrow> bytes \<Rightarrow> bytes" where
  "packURLEncodedHeadData buf data =
     buf @ concat (map (\<lambda>x. [37, hextable ! unat (drop_bit 4 x), hextable ! unat (x AND 0x0f)]) data)"

fun random_chars :: "nat \<Rightarrow> rng \<Rightarrow> bytes \<times> rng" where
  "random_chars 0 r = ([], r)"
| "random_chars (Suc n) r =
     (case Intn 62 r of (i, r1) \<Rightarrow> case random_chars n r1 of (xs, r2) \<Rightarrow> (charset ! i # xs, r2))"

definition packBoundary :: "bytes \<Rightarrow> rng \<Rightarrow> bytes \<times> rng" where
  "packBoundary buf r =
     (case random_chars 32 r of (xs, r') \<Rightarrow>
        (buf @ str ''Content-Type: multipart/form-data; boundary='' @ xs @ CRLF, r'))"

definition userAgent :: "bytes list" where
  "userAgent = map str (userAgent_1 @ userAgent_2)"

text \<open>Host and extra header lines from the parameter \<^verbatim>\<open>host#body\<close>, one host of a list drawn.\<close>

definition http_host_body :: "obfs_Base \<Rightarrow> rng \<Rightarrow> bytes \<times> bytes \<times> rng" where
  "http_host_body b r =
     (let hb = (if length (ob_Param b) > 0
                then (case Index (ob_Param b) (str ''#'') of
                        Some pos \<Rightarrow>
                          (take pos (ob_Param b),
                           ReplaceAll (ReplaceAll (drop (pos + 1) (ob_Param b)) [10] CRLF) (92 # str ''n'') CRLF)
                      | None \<Rightarrow> (ob_Param b, []))
                else (Host b, []));
          hosts = split_at 44 (fst hb)
      in case Intn (length hosts) r of (i, r') \<Rightarrow> (hosts ! i, snd hb, r'))"

definition accept_lines :: bytes where
  "accept_lines =
     CRLF @ str ''Accept: text/html,application/xhtml+xml,application/xml;q=0.9,*/*;q=0.8'' @
     CRLF @ str ''Accept-Language: en-US,en;q=0.8'' @ CRLF @ str ''Accept-Encoding: gzip, deflate'' @ CRLF"

text \<open>The lines of the request after the path: those of the parameter, or a browser's.\<close>

definition http_headers :: "httpObfs \<Rightarrow> bytes \<Rightarrow> bytes \<Rightarrow> rng \<Rightarrow> bytes \<times> rng" where
  "http_headers h host body r =
     (let b = ho_Base h;
          line = str '' HTTP/1.1'' @ CRLF @ str ''Host: '' @ host @
                 (if Port b \<noteq> 80 then str '':'' @ Itoa (Port b) else []) @ CRLF
      in if length body > 0 then (line @ body @ CRLF @ CRLF, r)
         else (case Intn (length userAgent) r of (i, r1) \<Rightarrow>
           let agent = line @ str ''User-Agent: '' @ userAgent ! i @ accept_lines in
           case (if post h then packBoundary agent r1 else (agent, r1)) of (lines, r2) \<Rightarrow>
             (lines @ str ''DNT: 1'' @ CRLF @ str ''Connection: keep-alive'' @ CRLF @ CRLF, r2)))"

text \<open>
  \<open>Write\<close>, given the outcome of the network's \<^verbatim>\<open>Write\<close>: the result, the state, and what is
  handed to the network. The network's own count is taken for all of a pass-through.
\<close>

definition http_Write ::
  "httpConn \<Rightarrow> rng \<Rightarrow> io_error option \<Rightarrow> bytes \<Rightarrow> (io_error + nat) \<times> httpConn \<times> bytes \<times> rng" where
  "http_Write c r werr b =
     (let res = (case werr of None \<Rightarrow> Inr (length b) | Some e \<Rightarrow> Inl e) in
      if hc_hasSentHeader c then (res, c, b, r)
      else
        let c' = c\<lparr>hc_hasSentHeader := True\<rparr>;
            base = ho_Base (hc_obfs c);
            headLength = IVSize base + 30;
            bLength = length b
        in case (if int bLength - int headLength > 64
                 then (case Intn 65 r of (k, r1) \<Rightarrow> (headLength + k, r1))
                 else (bLength, r)) of (headDataLength, r1) \<Rightarrow>
        case http_host_body base r1 of (host, body, r2) \<Rightarrow>
        case http_headers (hc_obfs c) host body r2 of (headers, r3) \<Rightarrow>
        let buf = (if post (hc_obfs c) then str ''POST /'' else str ''GET /'');
            buf1 = packURLEncodedHeadData buf (take headDataLength b);
            buf2 = buf1 @ headers @ drop headDataLength b
        in (res, c', buf2, r3))"

section \<open>The path\<close>

text \<open>What a server reads back of the path: hexadecimal escapes up to the first other byte.\<close>

definition unhex :: "byte \<Rightarrow> nat" where
  "unhex c = (if c \<ge> 97 then unat c - 87 else unat c - 48)"

fun url_decode :: "bytes \<Rightarrow> bytes" where
  "url_decode (p # a # b # s) = (if p = 37 then of_nat (16 * unhex a + unhex b) # url_decode s else [])"
| "url_decode _ = []"

lemma unhex_hextable: "i < 16 \<Longrightarrow> unhex (hextable ! i) = i"
proof -
  assume "i < 16"
  then have "i \<in> set [0..<16]" by simp
  moreover have "\<forall>i \<in> set [0..<16]. unhex (hextable ! i) = i"
    by (simp add: hextable_def str_def unhex_def upt_rec)
  ultimately show ?thesis by blast
qed

lemma high_nibble: "unat (drop_bit 4 (x :: byte)) = unat x div 16"
  by (simp add: drop_bit_eq_div unat_div_distrib)

lemma low_nibble: "unat (x AND 0x0f :: byte) = unat x mod 16"
proof -
  have "(0x0f :: byte) = mask 4" by (simp add: mask_eq_exp_minus_1)
  then have "x AND 0x0f = take_bit 4 x" by (simp add: take_bit_eq_mask)
  then show ?thesis by (simp add: take_bit_eq_mod unat_mod_distrib)
qed

lemma nibbles: "of_nat (16 * unat (drop_bit 4 x) + unat (x AND 0x0f)) = (x :: byte)"
  unfolding high_nibble low_nibble by simp

lemma url_decode_encode:
  "(\<And>c u. t = c # u \<Longrightarrow> c \<noteq> 37) \<Longrightarrow>
   url_decode (packURLEncodedHeadData [] data @ t) = data"
proof (induction data)
  case Nil
  then show ?case by (cases t rule: url_decode.cases) (auto simp: packURLEncodedHeadData_def)
next
  case (Cons x xs)
  have "unat (drop_bit 4 x) < 16" "unat (x AND 0x0f) < 16"
    using unat_byte_less[of x] by (simp_all add: high_nibble low_nibble less_mult_imp_div_less)
  then have "of_nat (16 * unhex (hextable ! unat (drop_bit 4 x)) + unhex (hextable ! unat (x AND 0x0f))) = x"
    by (simp only: unhex_hextable nibbles)
  moreover have "url_decode (packURLEncodedHeadData [] xs @ t) = xs" using Cons by blast
  ultimately show ?case by (simp add: packURLEncodedHeadData_def del: of_nat_add of_nat_mult)
qed

lemma packURLEncodedHeadData_eq: "packURLEncodedHeadData buf data = buf @ packURLEncodedHeadData [] data"
  by (simp add: packURLEncodedHeadData_def)

lemma http_headers_shape:
  "http_headers h host body r = (hs, r') \<Longrightarrow>
   \<exists>mid. hs = str '' HTTP/1.1'' @ CRLF @ str ''Host: '' @ host @ mid @ CRLF @ CRLF"
  by (auto simp: http_headers_def Let_def packBoundary_def split: if_splits prod.splits)

section \<open>Reading the response\<close>

text \<open>
  What is still to be delivered: after the head the leftover and the stream; before it the bytes
  behind a head that arrives whole in one read.
\<close>

definition http_pending :: "httpConn \<Rightarrow> bytes \<Rightarrow> bool" where
  "http_pending c s \<longleftrightarrow>
     (case hc_buf c of
        Some x \<Rightarrow> hc_hasRecvHeader c \<and> (\<exists>t. s = x @ t \<and> chunks_of (hc_net c) t)
      | None \<Rightarrow>
          if hc_hasRecvHeader c then chunks_of (hc_net c) s
          else (\<exists>pos x rest t. hc_net c = Inr x # rest \<and> Index x (CRLF @ CRLF) = Some pos \<and>
            length x \<le> RelayBufferSize \<and> s = drop (pos + 4) x @ t \<and> chunks_of rest t))"

interpretation http: byte_reader http_Read http_pending
proof
  fix c s m assume p: "http_pending c s"
  show "(http_Read c m = Hang \<and> s = []) \<or>
    (\<exists>x t c'. http_Read c m = Ret (Inr x, c') \<and> s = x @ t \<and> http_pending c' t)"
  proof (cases "hc_buf c")
    case (Some x)
    with p obtain t where t: "hc_hasRecvHeader c" "s = x @ t" "chunks_of (hc_net c) t"
      by (auto simp: http_pending_def)
    let ?n = "min m (length x)" let ?c = "c\<lparr>hc_buf := (if ?n = length x then None else Some (drop ?n x))\<rparr>"
    have "http_Read c m = Ret (Inr (take ?n x), ?c)" by (simp add: http_Read_def Some)
    moreover have "s = take ?n x @ (drop ?n x @ t)" using t(2) by (simp add: min_def)
    moreover have "http_pending ?c (drop ?n x @ t)" using t by (simp add: http_pending_def)
    ultimately show ?thesis by blast
  next
    case None
    show ?thesis
    proof (cases "hc_hasRecvHeader c")
      case True
      with p None have "chunks_of (hc_net c) s" by (simp add: http_pending_def)
      from net.read_step[OF this, of m] show ?thesis
      proof
        assume "\<exists>x t net'. net_read m (hc_net c) = Ret (Inr x, net') \<and> s = x @ t \<and> chunks_of net' t"
        then obtain x t net' where x: "net_read m (hc_net c) = Ret (Inr x, net')" "s = x @ t" "chunks_of net' t" by blast
        then have "http_Read c m = Ret (Inr x, c\<lparr>hc_net := net'\<rparr>)" "http_pending (c\<lparr>hc_net := net'\<rparr>) t"
          using None True by (simp_all add: http_Read_def http_pending_def)
        with x(2) show ?thesis by blast
      qed (use None True in \<open>simp add: http_Read_def\<close>)
    next
      case False
      with p None obtain pos x rest t where x: "hc_net c = Inr x # rest" "Index x (CRLF @ CRLF) = Some pos"
        "length x \<le> RelayBufferSize" "s = drop (pos + 4) x @ t" "chunks_of rest t"
        by (auto simp: http_pending_def)
      from Index_Some[OF x(2)] have pos: "pos + 4 \<le> length x" by (simp add: CRLF_def)
      let ?d = "drop (4 + pos) x" let ?n = "min m (length x - pos - 4)"
      let ?c = "c\<lparr>hc_net := rest, hc_hasRecvHeader := True,
        hc_buf := (if ?n < length ?d then Some (drop ?n ?d) else None)\<rparr>"
      have "take (length x - pos - 4 - ?n) (drop (4 + pos + ?n) x) = drop ?n ?d"
        by (simp add: add.commute)
      then have "http_Read c m = Ret (Inr (take ?n ?d), ?c)"
        using None False x(1-3) by (auto simp: http_Read_def Let_def)
      moreover have "s = take ?n ?d @ (drop ?n ?d @ t)"
        unfolding x(4) append_assoc[symmetric] append_take_drop_id by (simp add: add.commute)
      moreover have "http_pending ?c (drop ?n ?d @ t)"
        using x(5) by (auto simp: http_pending_def)
      ultimately show ?thesis by blast
    qed
  qed
qed

section \<open>Properties\<close>

text \<open>
  C27: The first \<open>Write\<close> sends one request that carries all the data: the path, decoded, is the data
  up to some length, after the request's header lines comes the rest, and the part that is encoded is
  everything for short data and at most 64 bytes more than IV and address head for long data. Every
  later \<open>Write\<close> is passed through as it is.
\<close>

theorem http_Write_request:
  "\<exists>n mid c' r'. http_Write c r werr b =
     (case werr of None \<Rightarrow> Inr (length b) | Some e \<Rightarrow> Inl e, c',
      (if hc_hasSentHeader c then b
       else (if post (hc_obfs c) then str ''POST /'' else str ''GET /'') @ packURLEncodedHeadData [] (take n b) @
         str '' HTTP/1.1'' @ CRLF @ mid @ CRLF @ CRLF @ drop n b), r') \<and>
     hc_hasSentHeader c' \<and> n \<le> length b \<and>
     (length b \<le> IVSize (ho_Base (hc_obfs c)) + 94 \<or> n \<le> IVSize (ho_Base (hc_obfs c)) + 94) \<and>
     url_decode (packURLEncodedHeadData [] (take n b) @ str '' HTTP/1.1'' @ CRLF @ mid @ CRLF @ CRLF @ drop n b) = take n b"
proof -
  have dec: "url_decode (packURLEncodedHeadData [] (take n b) @ str '' HTTP/1.1'' @ t) = take n b" for n t
    by (rule url_decode_encode) (simp add: str_def)
  show ?thesis
  proof (cases "hc_hasSentHeader c")
    case True
    then show ?thesis using dec[of 0]
      by (intro exI[of _ 0] exI[of _ "[]"] exI[of _ c] exI[of _ r]) (simp add: http_Write_def)
  next
    case False
    let ?base = "ho_Base (hc_obfs c)"
    obtain n r1 where n: "(if int (length b) - int (IVSize ?base + 30) > 64
        then (case Intn 65 r of (k, r1) \<Rightarrow> (IVSize ?base + 30 + k, r1)) else (length b, r)) = (n, r1)"
      by (metis prod.exhaust)
    have k: "k < 65" if "Intn 65 r = (k, r')" for k r' using Intn_less'[OF that] by simp
    have bounds: "n \<le> length b" "length b \<le> IVSize ?base + 94 \<or> n \<le> IVSize ?base + 94"
      using n by (auto split: if_splits prod.splits dest!: k)
    obtain host body r2 where hb: "http_host_body ?base r1 = (host, body, r2)" by (metis prod.exhaust)
    obtain hs r3 where hs: "http_headers (hc_obfs c) host body r2 = (hs, r3)" by (metis prod.exhaust)
    from http_headers_shape[OF hs] obtain mid where mid: "hs = str '' HTTP/1.1'' @ CRLF @ str ''Host: '' @ host @ mid @ CRLF @ CRLF"
      by blast
    have "http_Write c r werr b = (case werr of None \<Rightarrow> Inr (length b) | Some e \<Rightarrow> Inl e,
        c\<lparr>hc_hasSentHeader := True\<rparr>,
        packURLEncodedHeadData (if post (hc_obfs c) then str ''POST /'' else str ''GET /'') (take n b) @ hs @ drop n b, r3)"
      unfolding http_Write_def Let_def n prod.case hb hs using False by simp
    with False mid bounds dec[of n "CRLF @ (str ''Host: '' @ host @ mid) @ CRLF @ CRLF @ drop n b"] show ?thesis
      by (intro exI[of _ n] exI[of _ "str ''Host: '' @ host @ mid"] exI[of _ "c\<lparr>hc_hasSentHeader := True\<rparr>"] exI[of _ r3])
        (simp add: packURLEncodedHeadData_eq[of "if _ then _ else _"])
  qed
qed

text \<open>
  When the response head arrives whole in the first read of the network, a reader is given exactly
  the bytes behind the blank line that ends it, for every way the rest is cut and every read size.
  When the first read ends inside the head, \<open>Read\<close> reports the end of the stream instead, and what
  it read is lost.
\<close>

theorem http_Read_response:
  assumes fits: "length x \<le> RelayBufferSize"
  shows "(\<forall>pos rest t ms. Index x (CRLF @ CRLF) = Some pos \<and> chunks_of rest t \<longrightarrow>
      (let c = http_StreamConn h (Inr x # rest); s = drop (pos + 4) x @ t in
       (\<exists>y u c'. reads http_Read c ms = Ret (y, None, c') \<and> s = y @ u) \<or>
       (reads http_Read c ms = Hang \<and> (\<exists>ms1 ms2 c'. ms = ms1 @ ms2 \<and> reads http_Read c ms1 = Ret (s, None, c'))))) \<and>
    (\<forall>rest m. Index x (CRLF @ CRLF) = None \<longrightarrow>
      http_Read (http_StreamConn h (Inr x # rest)) m = Ret (Inl EOF, http_StreamConn h rest))"
proof (intro conjI allI impI)
  fix pos rest t ms assume "Index x (CRLF @ CRLF) = Some pos \<and> chunks_of rest t"
  with fits have "http_pending (http_StreamConn h (Inr x # rest)) (drop (pos + 4) x @ t)"
    by (simp add: http_pending_def http_StreamConn_def)
  from http.reads_deliver[OF this, of ms]
  show "let c = http_StreamConn h (Inr x # rest); s = drop (pos + 4) x @ t in
       (\<exists>y u c'. reads http_Read c ms = Ret (y, None, c') \<and> s = y @ u) \<or>
       (reads http_Read c ms = Hang \<and> (\<exists>ms1 ms2 c'. ms = ms1 @ ms2 \<and> reads http_Read c ms1 = Ret (s, None, c')))"
    unfolding Let_def by blast
next
  fix rest m assume "Index x (CRLF @ CRLF) = None"
  with fits show "http_Read (http_StreamConn h (Inr x # rest)) m = Ret (Inl EOF, http_StreamConn h rest)"
    by (simp add: http_Read_def http_StreamConn_def)
qed

theorem http_Read_response_witness:
  "\<exists>h. http_Read (http_StreamConn h [Inr [72, 84, 84, 80, 13, 10], Inr [13, 10]]) 16 =
     Ret (Inl EOF, http_StreamConn h [Inr [13, 10]])"
proof -
  let ?h = "newHTTPSimple \<lparr>Host = [], Port = 80, ob_Key = [], IVSize = 16, ob_Param = []\<rparr>"
  have "length [72, 84, 84, 80, 13, 10 :: byte] \<le> RelayBufferSize" by (simp add: RelayBufferSize_def)
  from http_Read_response[OF this, of ?h]
  have "http_Read (http_StreamConn ?h [Inr [72, 84, 84, 80, 13, 10], Inr [13, 10]]) 16 =
     Ret (Inl EOF, http_StreamConn ?h [Inr [13, 10]])" by (simp add: Index.simps CRLF_def)
  then show ?thesis ..
qed

end
