(* ===== verification/Crypto.thy ===== *)
theory Crypto
  imports Prelude
begin

text \<open>
  The parts of Go's standard library the protocols call: the checksums of \<^verbatim>\<open>hash/crc32\<close>
  and \<^verbatim>\<open>hash/adler32\<close>, the digests MD5 and SHA-1, HMAC, RC4, AES-128 on one CBC block
  and standard base64, each as its standard defines it, and over them the helpers of
  \<^verbatim>\<open>tools/crypto.go\<close>. They are functions on byte lists that compute, so that the wire formats
  above them are closed definitions; the theorems use only their lengths and, of RC4, that a
  key stream depends on the key alone.
\<close>

section \<open>Checksums\<close>

definition crc32_bit :: "uint32 \<Rightarrow> uint32" where
  "crc32_bit c = (if bit c 0 then 0xEDB88320 XOR drop_bit 1 c else drop_bit 1 c)"

definition crc32_byte :: "byte \<Rightarrow> uint32 \<Rightarrow> uint32" where
  "crc32_byte b c = (crc32_bit ^^ 8) (c XOR ucast b)"

text \<open>\<^verbatim>\<open>crc32.ChecksumIEEE\<close>.\<close>

definition ChecksumIEEE :: "bytes \<Rightarrow> uint32" where
  "ChecksumIEEE bs = NOT (fold crc32_byte bs 0xFFFFFFFF)"

definition adler_step :: "byte \<Rightarrow> nat \<times> nat \<Rightarrow> nat \<times> nat" where
  "adler_step x = (\<lambda>(a, b). let a' = (a + unat x) mod 65521 in (a', (b + a') mod 65521))"

text \<open>\<^verbatim>\<open>adler32.Checksum\<close>.\<close>

definition Adler32 :: "bytes \<Rightarrow> uint32" where
  "Adler32 bs = (case fold adler_step bs (1, 0) of (a, b) \<Rightarrow> push_bit 16 (of_nat b) OR of_nat a)"

section \<open>MD5\<close>

definition rotl32 :: "nat \<Rightarrow> uint32 \<Rightarrow> uint32" where
  "rotl32 n w = push_bit n w OR drop_bit (32 - n) w"

definition md5_K :: "uint32 list" where
  "md5_K =
    [0xd76aa478, 0xe8c7b756, 0x242070db, 0xc1bdceee,
     0xf57c0faf, 0x4787c62a, 0xa8304613, 0xfd469501,
     0x698098d8, 0x8b44f7af, 0xffff5bb1, 0x895cd7be,
     0x6b901122, 0xfd987193, 0xa679438e, 0x49b40821,
     0xf61e2562, 0xc040b340, 0x265e5a51, 0xe9b6c7aa,
     0xd62f105d, 0x02441453, 0xd8a1e681, 0xe7d3fbc8,
     0x21e1cde6, 0xc33707d6, 0xf4d50d87, 0x455a14ed,
     0xa9e3e905, 0xfcefa3f8, 0x676f02d9, 0x8d2a4c8a,
     0xfffa3942, 0x8771f681, 0x6d9d6122, 0xfde5380c,
     0xa4beea44, 0x4bdecfa9, 0xf6bb4b60, 0xbebfbc70,
     0x289b7ec6, 0xeaa127fa, 0xd4ef3085, 0x04881d05,
     0xd9d4d039, 0xe6db99e5, 0x1fa27cf8, 0xc4ac5665,
     0xf4292244, 0x432aff97, 0xab9423a7, 0xfc93a039,
     0x655b59c3, 0x8f0ccc92, 0xffeff47d, 0x85845dd1,
     0x6fa87e4f, 0xfe2ce6e0, 0xa3014314, 0x4e0811a1,
     0xf7537e82, 0xbd3af235, 0x2ad7d2bb, 0xeb86d391]"

definition md5_S :: "nat list" where
  "md5_S =
    [7, 12, 17, 22, 7, 12, 17, 22, 7, 12, 17, 22, 7, 12, 17, 22,
     5, 9, 14, 20, 5, 9, 14, 20, 5, 9, 14, 20, 5, 9, 14, 20,
     4, 11, 16, 23, 4, 11, 16, 23, 4, 11, 16, 23, 4, 11, 16, 23,
     6, 10, 15, 21, 6, 10, 15, 21, 6, 10, 15, 21, 6, 10, 15, 21]"

text \<open>Cut a byte list into blocks of \<open>n\<close> bytes (the last may be short).\<close>

function blocks_of :: "nat \<Rightarrow> 'a list \<Rightarrow> 'a list list" where
  "blocks_of n xs = (if xs = [] \<or> n = 0 then [] else take n xs # blocks_of n (drop n xs))"
  by pat_completeness auto
termination
  by (relation "measure (\<lambda>(n, xs). length xs)") auto

declare blocks_of.simps [simp del]

definition md_zeros :: "nat \<Rightarrow> nat" where
  "md_zeros n = (119 - n mod 64) mod 64"

definition md5_pad :: "bytes \<Rightarrow> bytes" where
  "md5_pad m = m @ [0x80] @ replicate (md_zeros (length m)) 0 @ le64 (of_nat (8 * length m))"

definition md5_round :: "uint32 list \<Rightarrow> nat \<Rightarrow> uint32 \<times> uint32 \<times> uint32 \<times> uint32 \<Rightarrow>
    uint32 \<times> uint32 \<times> uint32 \<times> uint32" where
  "md5_round M i = (\<lambda>(a, b, c, d).
     let fg = (if i < 16 then ((b AND c) OR (NOT b AND d), i)
               else if i < 32 then ((d AND b) OR (NOT d AND c), (5 * i + 1) mod 16)
               else if i < 48 then (b XOR c XOR d, (3 * i + 5) mod 16)
               else (c XOR (b OR NOT d), (7 * i) mod 16));
         f = fst fg + a + md5_K ! i + M ! snd fg
     in (d, b + rotl32 (md5_S ! i) f, b, c))"

definition md5_block :: "bytes \<Rightarrow> uint32 \<times> uint32 \<times> uint32 \<times> uint32 \<Rightarrow>
    uint32 \<times> uint32 \<times> uint32 \<times> uint32" where
  "md5_block blk = (\<lambda>(a, b, c, d).
     let M = map rd_le32 (blocks_of 4 blk)
     in case fold (md5_round M) [0..<64] (a, b, c, d) of
          (a', b', c', d') \<Rightarrow> (a + a', b + b', c + c', d + d'))"

text \<open>\<^verbatim>\<open>tools.MD5Sum\<close>: \<^verbatim>\<open>md5.New\<close>, \<^verbatim>\<open>Write\<close>, \<^verbatim>\<open>Sum(nil)\<close>.\<close>

definition MD5Sum :: "bytes \<Rightarrow> bytes" where
  "MD5Sum m =
     (case fold md5_block (blocks_of 64 (md5_pad m)) (0x67452301, 0xEFCDAB89, 0x98BADCFE, 0x10325476)
      of (a, b, c, d) \<Rightarrow> le32 a @ le32 b @ le32 c @ le32 d)"

section \<open>SHA-1\<close>

definition sha1_pad :: "bytes \<Rightarrow> bytes" where
  "sha1_pad m = m @ [0x80] @ replicate (md_zeros (length m)) 0 @ be64 (of_nat (8 * length m))"

definition sha1_expand :: "uint32 list \<Rightarrow> nat \<Rightarrow> uint32 list" where
  "sha1_expand w i =
     w @ [rotl32 1 (w ! (i - 3) XOR w ! (i - 8) XOR w ! (i - 14) XOR w ! (i - 16))]"

definition sha1_round :: "uint32 list \<Rightarrow> nat \<Rightarrow> uint32 \<times> uint32 \<times> uint32 \<times> uint32 \<times> uint32 \<Rightarrow>
    uint32 \<times> uint32 \<times> uint32 \<times> uint32 \<times> uint32" where
  "sha1_round w i = (\<lambda>(a, b, c, d, e).
     let fk = (if i < 20 then ((b AND c) OR (NOT b AND d), 0x5A827999)
               else if i < 40 then (b XOR c XOR d, 0x6ED9EBA1)
               else if i < 60 then ((b AND c) OR (b AND d) OR (c AND d), 0x8F1BBCDC)
               else (b XOR c XOR d, 0xCA62C1D6))
     in (rotl32 5 a + fst fk + e + snd fk + w ! i, a, rotl32 30 b, c, d))"

definition sha1_block :: "bytes \<Rightarrow> uint32 \<times> uint32 \<times> uint32 \<times> uint32 \<times> uint32 \<Rightarrow>
    uint32 \<times> uint32 \<times> uint32 \<times> uint32 \<times> uint32" where
  "sha1_block blk = (\<lambda>(a, b, c, d, e).
     let w = foldl sha1_expand (map rd_be32 (blocks_of 4 blk)) [16..<80]
     in case fold (sha1_round w) [0..<80] (a, b, c, d, e) of
          (a', b', c', d', e') \<Rightarrow> (a + a', b + b', c + c', d + d', e + e'))"

text \<open>\<^verbatim>\<open>tools.SHA1Sum\<close>.\<close>

definition SHA1Sum :: "bytes \<Rightarrow> bytes" where
  "SHA1Sum m =
     (case fold sha1_block (blocks_of 64 (sha1_pad m))
        (0x67452301, 0xEFCDAB89, 0x98BADCFE, 0x10325476, 0xC3D2E1F0)
      of (a, b, c, d, e) \<Rightarrow> be32 a @ be32 b @ be32 c @ be32 d @ be32 e)"

section \<open>HMAC\<close>

definition hmac_with :: "(bytes \<Rightarrow> bytes) \<Rightarrow> bytes \<Rightarrow> bytes \<Rightarrow> bytes" where
  "hmac_with h key m =
     (let k0 = (if length key > 64 then h key else key);
          k = k0 @ replicate (64 - length k0) 0
      in h (map (\<lambda>b. b XOR 0x5C) k @ h (map (\<lambda>b. b XOR 0x36) k @ m)))"

text \<open>\<^verbatim>\<open>tools.HmacMD5\<close> and \<^verbatim>\<open>tools.HmacSHA1\<close>.\<close>

definition HmacMD5 :: "bytes \<Rightarrow> bytes \<Rightarrow> bytes" where
  "HmacMD5 key data = hmac_with MD5Sum key data"

definition HmacSHA1 :: "bytes \<Rightarrow> bytes \<Rightarrow> bytes" where
  "HmacSHA1 key data = hmac_with SHA1Sum key data"

lemma length_MD5Sum [simp, wire_length]: "length (MD5Sum m) = 16"
  by (simp add: MD5Sum_def split: prod.split)

lemma length_SHA1Sum [simp, wire_length]: "length (SHA1Sum m) = 20"
  by (simp add: SHA1Sum_def split: prod.split)

lemma length_HmacMD5 [simp, wire_length]: "length (HmacMD5 k m) = 16"
  by (simp add: HmacMD5_def hmac_with_def Let_def)

lemma length_HmacSHA1 [simp, wire_length]: "length (HmacSHA1 k m) = 20"
  by (simp add: HmacSHA1_def hmac_with_def Let_def)

section \<open>RC4\<close>

record rc4 =
  rc_s :: bytes
  rc_i :: byte
  rc_j :: byte

definition swap :: "nat \<Rightarrow> nat \<Rightarrow> 'a list \<Rightarrow> 'a list" where
  "swap i j xs = xs[i := xs ! j, j := xs ! i]"

definition rc4_schedule :: "bytes \<Rightarrow> nat \<Rightarrow> bytes \<times> byte \<Rightarrow> bytes \<times> byte" where
  "rc4_schedule key i = (\<lambda>(s, j).
     let j' = j + s ! i + key ! (i mod length key) in (swap i (unat j') s, j'))"

text \<open>\<^verbatim>\<open>rc4.NewCipher\<close>: a key of no bytes or of more than 256 is refused.\<close>

definition rc4_NewCipher :: "bytes \<Rightarrow> rc4 option" where
  "rc4_NewCipher key =
     (if length key < 1 \<or> 256 < length key then None
      else Some \<lparr>rc_s = fst (fold (rc4_schedule key) [0..<256] (map of_nat [0..<256], 0)),
                 rc_i = 0, rc_j = 0\<rparr>)"

definition rc4_byte :: "rc4 \<Rightarrow> byte \<times> rc4" where
  "rc4_byte c =
     (let i = rc_i c + 1; x = rc_s c ! unat i; j = rc_j c + x;
          s = swap (unat i) (unat j) (rc_s c)
      in (s ! unat (s ! unat i + s ! unat j), \<lparr>rc_s = s, rc_i = i, rc_j = j\<rparr>))"

text \<open>\<^verbatim>\<open>XORKeyStream(dst, src)\<close>: the result is what \<open>dst\<close> holds.\<close>

fun XORKeyStream :: "rc4 \<Rightarrow> bytes \<Rightarrow> bytes \<times> rc4" where
  "XORKeyStream c [] = ([], c)"
| "XORKeyStream c (x # xs) =
     (case rc4_byte c of (k, c') \<Rightarrow>
        case XORKeyStream c' xs of (ys, c'') \<Rightarrow> ((x XOR k) # ys, c''))"

lemma length_XORKeyStream [simp, wire_length]: "length (fst (XORKeyStream c xs)) = length xs"
  by (induction c xs rule: XORKeyStream.induct) (auto split: prod.split)

lemma length_XORKeyStream': "XORKeyStream c xs = (ys, c') \<Longrightarrow> length ys = length xs"
  by (metis length_XORKeyStream fst_conv)

text \<open>Applying the stream twice from the same state restores the text, and ends alike.\<close>

lemma xor_cancel [simp]: "(x XOR k) XOR k = (x :: byte)"
  by (simp add: xor.assoc)

lemma XORKeyStream_involution:
  "XORKeyStream c xs = (ys, c') \<Longrightarrow> XORKeyStream c ys = (xs, c')"
proof (induction xs arbitrary: c ys c')
  case (Cons x xs)
  obtain k c1 where k: "rc4_byte c = (k, c1)" by (cases "rc4_byte c")
  obtain zs c2 where zs: "XORKeyStream c1 xs = (zs, c2)" by (cases "XORKeyStream c1 xs")
  with k Cons.prems have "ys = (x XOR k) # zs" "c' = c2" by auto
  with k Cons.IH[OF zs] show ?case by simp
qed simp

lemma XORKeyStream_append:
  "XORKeyStream c (xs @ ys) =
     (case XORKeyStream c xs of (xs', c') \<Rightarrow>
        case XORKeyStream c' ys of (ys', c'') \<Rightarrow> (xs' @ ys', c''))"
  by (induction c xs rule: XORKeyStream.induct) (auto split: prod.splits)

section \<open>Base64\<close>

definition b64_alphabet :: bytes where
  "b64_alphabet = str ''ABCDEFGHIJKLMNOPQRSTUVWXYZabcdefghijklmnopqrstuvwxyz0123456789+/''"

definition b64_char :: "nat \<Rightarrow> byte" where
  "b64_char n = b64_alphabet ! (n mod 64)"

text \<open>\<^verbatim>\<open>base64.StdEncoding.EncodeToString\<close>.\<close>

fun b64_encode :: "bytes \<Rightarrow> bytes" where
  "b64_encode [] = []"
| "b64_encode [a] =
     [b64_char (unat a div 4), b64_char (unat a mod 4 * 16), 61, 61]"
| "b64_encode [a, b] =
     [b64_char (unat a div 4), b64_char (unat a mod 4 * 16 + unat b div 16),
      b64_char (unat b mod 16 * 4), 61]"
| "b64_encode (a # b # c # r) =
     b64_char (unat a div 4) # b64_char (unat a mod 4 * 16 + unat b div 16) #
     b64_char (unat b mod 16 * 4 + unat c div 64) # b64_char (unat c mod 64) # b64_encode r"

section \<open>AES-128, one block\<close>

definition aes_sbox :: "bytes" where
  "aes_sbox =
    [0x63, 0x7c, 0x77, 0x7b, 0xf2, 0x6b, 0x6f, 0xc5, 0x30, 0x01, 0x67, 0x2b,
     0xfe, 0xd7, 0xab, 0x76, 0xca, 0x82, 0xc9, 0x7d, 0xfa, 0x59, 0x47, 0xf0,
     0xad, 0xd4, 0xa2, 0xaf, 0x9c, 0xa4, 0x72, 0xc0, 0xb7, 0xfd, 0x93, 0x26,
     0x36, 0x3f, 0xf7, 0xcc, 0x34, 0xa5, 0xe5, 0xf1, 0x71, 0xd8, 0x31, 0x15,
     0x04, 0xc7, 0x23, 0xc3, 0x18, 0x96, 0x05, 0x9a, 0x07, 0x12, 0x80, 0xe2,
     0xeb, 0x27, 0xb2, 0x75, 0x09, 0x83, 0x2c, 0x1a, 0x1b, 0x6e, 0x5a, 0xa0,
     0x52, 0x3b, 0xd6, 0xb3, 0x29, 0xe3, 0x2f, 0x84, 0x53, 0xd1, 0x00, 0xed,
     0x20, 0xfc, 0xb1, 0x5b, 0x6a, 0xcb, 0xbe, 0x39, 0x4a, 0x4c, 0x58, 0xcf,
     0xd0, 0xef, 0xaa, 0xfb, 0x43, 0x4d, 0x33, 0x85, 0x45, 0xf9, 0x02, 0x7f,
     0x50, 0x3c, 0x9f, 0xa8, 0x51, 0xa3, 0x40, 0x8f, 0x92, 0x9d, 0x38, 0xf5,
     0xbc, 0xb6, 0xda, 0x21, 0x10, 0xff, 0xf3, 0xd2, 0xcd, 0x0c, 0x13, 0xec,
     0x5f, 0x97, 0x44, 0x17, 0xc4, 0xa7, 0x7e, 0x3d, 0x64, 0x5d, 0x19, 0x73,
     0x60, 0x81, 0x4f, 0xdc, 0x22, 0x2a, 0x90, 0x88, 0x46, 0xee, 0xb8, 0x14,
     0xde, 0x5e, 0x0b, 0xdb, 0xe0, 0x32, 0x3a, 0x0a, 0x49, 0x06, 0x24, 0x5c,
     0xc2, 0xd3, 0xac, 0x62, 0x91, 0x95, 0xe4, 0x79, 0xe7, 0xc8, 0x37, 0x6d,
     0x8d, 0xd5, 0x4e, 0xa9, 0x6c, 0x56, 0xf4, 0xea, 0x65, 0x7a, 0xae, 0x08,
     0xba, 0x78, 0x25, 0x2e, 0x1c, 0xa6, 0xb4, 0xc6, 0xe8, 0xdd, 0x74, 0x1f,
     0x4b, 0xbd, 0x8b, 0x8a, 0x70, 0x3e, 0xb5, 0x66, 0x48, 0x03, 0xf6, 0x0e,
     0x61, 0x35, 0x57, 0xb9, 0x86, 0xc1, 0x1d, 0x9e, 0xe1, 0xf8, 0x98, 0x11,
     0x69, 0xd9, 0x8e, 0x94, 0x9b, 0x1e, 0x87, 0xe9, 0xce, 0x55, 0x28, 0xdf,
     0x8c, 0xa1, 0x89, 0x0d, 0xbf, 0xe6, 0x42, 0x68, 0x41, 0x99, 0x2d, 0x0f,
     0xb0, 0x54, 0xbb, 0x16]"

definition sub_byte :: "byte \<Rightarrow> byte" where
  "sub_byte b = aes_sbox ! unat b"

definition xtime :: "byte \<Rightarrow> byte" where
  "xtime b = push_bit 1 b XOR (if bit b 7 then 0x1B else 0)"

definition xor_bytes :: "bytes \<Rightarrow> bytes \<Rightarrow> bytes" where
  "xor_bytes a b = map2 (XOR) a b"

text \<open>The key schedule: \<open>rcon\<close> and the previous round key give the next one.\<close>

definition next_round_key :: "byte \<Rightarrow> bytes \<Rightarrow> bytes" where
  "next_round_key rcon k =
     (let t = [sub_byte (k ! 13) XOR rcon, sub_byte (k ! 14), sub_byte (k ! 15), sub_byte (k ! 12)];
          w0 = xor_bytes (sub 0 4 k) t; w1 = xor_bytes (sub 4 4 k) w0;
          w2 = xor_bytes (sub 8 4 k) w1; w3 = xor_bytes (sub 12 4 k) w2
      in w0 @ w1 @ w2 @ w3)"

definition shift_rows :: "bytes \<Rightarrow> bytes" where
  "shift_rows s = map (\<lambda>i. s ! i) [0, 5, 10, 15, 4, 9, 14, 3, 8, 13, 2, 7, 12, 1, 6, 11]"

definition mix_column :: "bytes \<Rightarrow> bytes" where
  "mix_column c = map (\<lambda>i. xtime (c ! i) XOR (xtime (c ! ((i + 1) mod 4)) XOR c ! ((i + 1) mod 4)) XOR
       c ! ((i + 2) mod 4) XOR c ! ((i + 3) mod 4)) [0..<4]"

definition mix_columns :: "bytes \<Rightarrow> bytes" where
  "mix_columns s = mix_column (sub 0 4 s) @ mix_column (sub 4 4 s) @
     mix_column (sub 8 4 s) @ mix_column (sub 12 4 s)"

definition aes_round :: "byte \<Rightarrow> bytes \<times> bytes \<Rightarrow> bytes \<times> bytes" where
  "aes_round rcon = (\<lambda>(s, k). let k' = next_round_key rcon k in
     (xor_bytes (mix_columns (shift_rows (map sub_byte s))) k', k'))"

definition aes128_block :: "bytes \<Rightarrow> bytes \<Rightarrow> bytes" where
  "aes128_block key blk =
     (case fold aes_round [1, 2, 4, 8, 16, 32, 64, 128, 27] (xor_bytes blk key, key) of
        (s, k) \<Rightarrow> xor_bytes (shift_rows (map sub_byte s)) (next_round_key 54 k))"

text \<open>
  \<^verbatim>\<open>aes.NewCipher\<close> with a 16-byte key, and \<^verbatim>\<open>CryptBlocks\<close> of a CBC encrypter with a zero
  initialisation vector on a single block. Other AES key sizes do not occur in the program.
\<close>

definition aes_cbc_zero_iv :: "bytes \<Rightarrow> bytes \<Rightarrow> bytes option" where
  "aes_cbc_zero_iv key blk =
     (if length key = 16 then Some (aes128_block key (xor_bytes blk (replicate 16 0))) else None)"

lemma length_xor_bytes [simp]: "length (xor_bytes a b) = min (length a) (length b)"
  by (simp add: xor_bytes_def)

lemma length_next_round_key [simp]: "length k = 16 \<Longrightarrow> length (next_round_key rcon k) = 16"
  by (simp add: next_round_key_def Let_def)

lemma aes_rounds_key: "length k = 16 \<Longrightarrow> length (snd (fold aes_round rs (s, k))) = 16"
  by (induction rs arbitrary: s k) (auto simp: aes_round_def Let_def)

lemma length_aes128_block: "length key = 16 \<Longrightarrow> length (aes128_block key blk) = 16"
  using aes_rounds_key[of key "[1, 2, 4, 8, 16, 32, 64, 128, 27]" "xor_bytes blk key"]
  by (auto simp: aes128_block_def shift_rows_def split: prod.split)

end
