(* ===== verification/Machine.thy ===== *)
theory Machine
  imports Main
begin

text \<open>
  State machines: what the components with goroutines, handshakes or a life cycle share. A component gives
  its step relation, one step for each critical section, operation on a channel or call; its runs are
  \<open>reaches\<close>. The locales say what makes a property an invariant, and are interpreted on every step
  relation of the development.
\<close>

inductive reaches :: "('s \<Rightarrow> 's \<Rightarrow> bool) \<Rightarrow> 's \<Rightarrow> 's \<Rightarrow> bool" for step s where
  reaches_refl: "reaches step s s"
| reaches_next: "reaches step s s' \<Longrightarrow> step s' s'' \<Longrightarrow> reaches step s s''"

lemma reaches_one: "step s s' \<Longrightarrow> reaches step s s'"
  by (rule reaches_next[OF reaches_refl])

lemma reaches_trans: "reaches step s' s'' \<Longrightarrow> reaches step s s' \<Longrightarrow> reaches step s s''"
  by (induction rule: reaches.induct) (auto intro: reaches_next)

text \<open>A property that steps keep is kept by runs, from whatever state they begin in.\<close>

locale stable =
  fixes step :: "'s \<Rightarrow> 's \<Rightarrow> bool" and inv :: "'s \<Rightarrow> bool"
  assumes preserved: "inv s \<Longrightarrow> step s s' \<Longrightarrow> inv s'"
begin

lemma runs: "reaches step s s' \<Longrightarrow> inv s \<Longrightarrow> inv s'"
  by (induction rule: reaches.induct) (auto intro: preserved)

text \<open>What steps keep as long as an invariant holds.\<close>

lemma runs_with:
  assumes keep: "\<And>s s'. inv s \<Longrightarrow> P s \<Longrightarrow> step s s' \<Longrightarrow> P s'"
  shows "reaches step s s' \<Longrightarrow> inv s \<Longrightarrow> P s \<Longrightarrow> P s'"
proof (induction rule: reaches.induct)
  case (reaches_next s' s'')
  with runs[OF reaches_next(1)] keep show ?case by blast
qed simp

end

text \<open>With a state to begin in, it holds of every state that can come about.\<close>

locale machine = stable +
  fixes start :: 's
  assumes initial: "inv start"
begin

lemma reachable: "reaches step start s \<Longrightarrow> inv s"
  by (rule runs[OF _ initial])

end

end
