(* ===== verification/Obfs_Random_Head.thy ===== *)
theory Obfs_Random_Head
  imports Net Crypto Obfs_HTTP Machine
begin

text \<open>
  The disguise \<^verbatim>\<open>random_head\<close> (\<^verbatim>\<open>obfs/random_head.go\<close>): a random header with a
  checksum goes out first, whatever is written is held back until the other end has answered, and
  the answer is thrown away. It is a small state machine driven by the order of reads and writes,
  given as a labelled step relation; \<open>rh_inv\<close> is its invariant.
\<close>

record randomHeadConn =
  rh_net :: net
  rh_hasSentHeader :: bool
  rawTransSent :: bool
  rawTransRecv :: bool
  rh_buf :: bytes

definition rh_StreamConn :: "net \<Rightarrow> randomHeadConn" where
  "rh_StreamConn net = \<lparr>rh_net = net, rh_hasSentHeader = False, rawTransSent = False,
     rawTransRecv = False, rh_buf = []\<rparr>"

text \<open>
  \<open>Write\<close>, given the outcome of the network's \<^verbatim>\<open>Write\<close> if there is one: the two results, the
  state, what is handed to the network (nothing, when it is not called), and the randomness.
\<close>

definition rh_Write ::
  "randomHeadConn \<Rightarrow> rng \<Rightarrow> io_error option \<Rightarrow> bytes \<Rightarrow>
     (nat \<times> io_error option) \<times> randomHeadConn \<times> bytes \<times> rng" where
  "rh_Write c r werr b =
     (if rawTransSent c then ((length b, werr), c, b, r)
      else
        let c1 = c\<lparr>rh_buf := rh_buf c @ b\<rparr> in
        if \<not> rh_hasSentHeader c1
        then let c2 = c1\<lparr>rh_hasSentHeader := True\<rparr> in
          (case Intn 96 r of (k, r1) \<Rightarrow>
             let dataLength = k + 4 in
             case rand_bytes dataLength r1 of (x, r2) \<Rightarrow>
               ((length b, werr), c2, x @ le32 (0xffffffff - ChecksumIEEE x), r2))
        else if rawTransRecv c1
        then ((length b, werr), c1\<lparr>rh_buf := [], rawTransSent := True\<rparr>, rh_buf c1, r)
        else ((length b, None), c1, [], r))"

text \<open>
  \<open>Read\<close>: the first one discards what the network delivers, be it data or an error, and makes
  the write that was held back.
\<close>

definition rh_Read ::
  "randomHeadConn \<Rightarrow> rng \<Rightarrow> io_error option \<Rightarrow> nat \<Rightarrow>
     ((io_error + bytes) \<times> randomHeadConn \<times> bytes \<times> rng) go" where
  "rh_Read c r werr m =
     (if rawTransRecv c
      then go_bind (net_read m (rh_net c)) (\<lambda>(res, net). Ret (res, c\<lparr>rh_net := net\<rparr>, [], r))
      else go_bind (net_read RelayBufferSize (rh_net c)) (\<lambda>(_, net).
        case rh_Write (c\<lparr>rh_net := net, rawTransRecv := True\<rparr>) r werr [] of (_, c', wire, r') \<Rightarrow>
          Ret (Inr [], c', wire, r')))"

section \<open>The state machine\<close>

text \<open>
  A run of the connection: the state, the randomness, what the program has written and what has gone
  to the network so far. Each step is one call.
\<close>

datatype rh_call = RhWrite bytes | RhRead nat

inductive rh_step ::
  "randomHeadConn \<times> rng \<times> bytes \<times> bytes \<Rightarrow> rh_call \<Rightarrow> randomHeadConn \<times> rng \<times> bytes \<times> bytes \<Rightarrow> bool" where
  call_write: "rh_Write c r None b = (res, c', w, r') \<Longrightarrow>
    rh_step (c, r, written, wire) (RhWrite b) (c', r', written @ b, wire @ w)"
| call_read: "rh_Read c r None m = Ret (res, c', w, r') \<Longrightarrow>
    rh_step (c, r, written, wire) (RhRead m) (c', r', written, wire @ w)"

inductive_cases rh_stepE: "rh_step s a s'"

abbreviation rh_reach :: "net \<Rightarrow> rng \<Rightarrow> randomHeadConn \<times> rng \<times> bytes \<times> bytes \<Rightarrow> bool" where
  "rh_reach net r \<equiv> reaches (\<lambda>s s'. \<exists>a. rh_step s a s') (rh_StreamConn net, r, [], [])"

text \<open>The header: 4 to 99 random bytes and their inverted CRC.\<close>

definition rh_header :: "bytes \<Rightarrow> bool" where
  "rh_header h \<longleftrightarrow> (\<exists>x. 4 \<le> length x \<and> length x < 100 \<and> h = x @ le32 (0xffffffff - ChecksumIEEE x))"

definition rh_inv :: "randomHeadConn \<Rightarrow> bytes \<Rightarrow> bytes \<Rightarrow> bool" where
  "rh_inv c written wire \<longleftrightarrow>
     (if rh_hasSentHeader c
      then \<exists>h. rh_header h \<and>
        (if rawTransSent c then rawTransRecv c \<and> wire = h @ written else wire = h \<and> rh_buf c = written)
      else wire = [] \<and> written = [] \<and> rh_buf c = [] \<and> \<not> rawTransSent c)"

lemma rh_inv_Write:
  assumes "rh_inv c written wire" "rh_Write c r werr b = (res, c', w, r')"
  shows "rh_inv c' (written @ b) (wire @ w)"
proof -
  consider "rawTransSent c" | "\<not> rawTransSent c" "\<not> rh_hasSentHeader c"
    | "\<not> rawTransSent c" "rh_hasSentHeader c" by blast
  then show ?thesis
  proof cases
    case 1
    with assms show ?thesis by (auto simp: rh_Write_def rh_inv_def split: if_splits)
  next
    case 2
    obtain k r1 where k: "Intn 96 r = (k, r1)" by (cases "Intn 96 r")
    obtain x r2 where x: "rand_bytes (k + 4) r1 = (x, r2)" by (cases "rand_bytes (k + 4) r1")
    have "rh_header (x @ le32 (0xffffffff - ChecksumIEEE x))"
      using Intn_less'[OF k] length_rand_bytes'[OF x] by (auto simp: rh_header_def)
    with 2 k x assms show ?thesis by (auto simp: rh_Write_def rh_inv_def)
  next
    case 3
    with assms show ?thesis by (auto simp: rh_Write_def rh_inv_def Let_def split: if_splits)
  qed
qed

lemma rh_inv_Read:
  assumes "rh_inv c written wire" "rh_Read c r werr m = Ret (res, c', w, r')"
  shows "rh_inv c' written (wire @ w)"
proof (cases "rawTransRecv c")
  case True
  with assms show ?thesis by (auto simp: rh_Read_def rh_inv_def go_bind_Ret_iff)
next
  case False
  with assms(2) obtain x net where n: "net_read RelayBufferSize (rh_net c) = Ret (x, net)"
    by (auto simp: rh_Read_def go_bind_Ret_iff)
  obtain res' c2 w2 r2 where "rh_Write (c\<lparr>rh_net := net, rawTransRecv := True\<rparr>) r werr [] = (res', c2, w2, r2)"
    by (metis prod.exhaust)
  with assms(2) False n have "rh_Write (c\<lparr>rh_net := net, rawTransRecv := True\<rparr>) r werr [] = (res', c', w, r')"
    by (simp add: rh_Read_def)
  moreover have "rh_inv (c\<lparr>rh_net := net, rawTransRecv := True\<rparr>) written wire"
    using assms(1) by (auto simp: rh_inv_def)
  ultimately show ?thesis using rh_inv_Write by fastforce
qed

interpretation rh: machine "\<lambda>s s'. \<exists>a. rh_step s a s'" "\<lambda>(c, r', written, wire). rh_inv c written wire"
  "(rh_StreamConn net, r, [], [])" for net r
proof
  fix s s' assume "case s of (c, r', written, wire) \<Rightarrow> rh_inv c written wire" "\<exists>a. rh_step s a s'"
  then show "case s' of (c, r', written, wire) \<Rightarrow> rh_inv c written wire"
    by (elim exE rh_stepE) (auto intro: rh_inv_Write rh_inv_Read)
qed (simp add: rh_inv_def rh_StreamConn_def)

section \<open>Properties\<close>



end
