(* ===== verification/Obfs_TLS_Ticket.thy ===== *)
theory Obfs_TLS_Ticket
  imports Net Crypto Obfs_HTTP Machine
begin

text \<open>
  The disguise \<^verbatim>\<open>tls1.2_ticket_auth\<close> (\<^verbatim>\<open>obfs/tls1.2_ticket_auth.go\<close>): a TLS
  handshake in appearance, authenticated by HMACs hidden in its random fields, and then TLS
  application records. Data written before the handshake is over is kept, framed, in \<open>sendBuf\<close>.
  The record layer is a decoder in the sense of \<^verbatim>\<open>Net\<close>, so that a reader sees the data
  however the network cuts the records.
\<close>

datatype tls_error =
  TLSNetError io_error | errTLS12TicketAuthIncorrectMagicNumber |
  errTLS12TicketAuthTooShortData | errTLS12TicketAuthHMACError

record tls12TicketConn =
  tt_net :: net
  tt_Base :: obfs_Base
  tt_clientID :: bytes
  handshakeStatus :: nat
  tt_decoded :: bytes
  tt_underDecoded :: bytes
  sendBuf :: bytes

definition newTLS12Ticket :: "obfs_Base \<Rightarrow> rng \<Rightarrow> (obfs_Base \<times> bytes) \<times> rng" where
  "newTLS12Ticket b r = (case rand_bytes 32 r of (cid, r') \<Rightarrow> ((b, cid), r'))"

definition tt_StreamConn :: "obfs_Base \<times> bytes \<Rightarrow> net \<Rightarrow> tls12TicketConn" where
  "tt_StreamConn t net = \<lparr>tt_net = net, tt_Base = fst t, tt_clientID = snd t, handshakeStatus = 0,
     tt_decoded = [], tt_underDecoded = [], sendBuf = []\<rparr>"

section \<open>Pieces of the handshake\<close>

definition tt_hmacSHA1 :: "tls12TicketConn \<Rightarrow> bytes \<Rightarrow> bytes" where
  "tt_hmacSHA1 c data = take 10 (HmacSHA1 (ob_Key (tt_Base c) @ tt_clientID c) data)"

definition tt_packData :: "bytes \<Rightarrow> bytes \<Rightarrow> bytes" where
  "tt_packData buf data = buf @ [0x17, 3, 3] @ be16 (of_nat (length data)) @ data"

definition tt_packAuthData :: "tls12TicketConn \<Rightarrow> uint32 \<Rightarrow> rng \<Rightarrow> bytes \<Rightarrow> bytes \<times> rng" where
  "tt_packAuthData c now r buf =
     (case AppendRandBytes (buf @ be32 now) 18 r of (buf1, r1) \<Rightarrow>
        (buf1 @ take 10 (tt_hmacSHA1 c (drop (length buf1 - 22) buf1)), r1))"

definition tt_packSNIData :: "bytes \<Rightarrow> bytes \<Rightarrow> bytes" where
  "tt_packSNIData buf u =
     (let len = of_nat (length u) :: uint16
      in buf @ [0, 0] @ be16 (len + 5) @ be16 (len + 3) @ [0] @ be16 len @ u)"

definition tt_packTicketBuf :: "rng \<Rightarrow> bytes \<Rightarrow> bytes \<times> rng" where
  "tt_packTicketBuf r buf =
     (case Intn 17 r of (k, r1) \<Rightarrow>
        let len = 16 * (k + 8)
        in AppendRandBytes (buf @ [0, 0x23] @ be16 (of_nat len)) len r1)"

text \<open>A host that ends in a digit, an address perhaps, is not sent.\<close>

definition tt_getHost :: "tls12TicketConn \<Rightarrow> rng \<Rightarrow> bytes \<times> rng" where
  "tt_getHost c r =
     (let host0 = ob_Param (tt_Base c);
          host1 = (if length host0 = 0 then Host (tt_Base c) else host0);
          host2 = (if length host1 > 0 \<and> last host1 \<ge> 48 \<and> last host1 \<le> 57 then [] else host1);
          hosts = split_at 44 host2
      in case Intn (length hosts) r of (i, r') \<Rightarrow> (hosts ! i, r'))"

definition cipher_suites :: bytes where
  "cipher_suites = [0x00, 0x1c, 0xc0, 0x2b, 0xc0, 0x2f, 0xcc, 0xa9, 0xcc, 0xa8, 0xcc, 0x14, 0xcc, 0x13,
     0xc0, 0x0a, 0xc0, 0x14, 0xc0, 0x09, 0xc0, 0x13, 0x00, 0x9c, 0x00, 0x35, 0x00, 0x2f, 0x00, 0x0a]"

definition hello_extensions :: bytes where
  "hello_extensions =
     [0x00, 0x0d, 0x00, 0x16, 0x00, 0x14, 0x06, 0x01, 0x06, 0x03, 0x05, 0x01, 0x05, 0x03, 0x04, 0x01,
      0x04, 0x03, 0x03, 0x01, 0x03, 0x03, 0x02, 0x01, 0x02, 0x03] @
     [0x00, 0x05, 0x00, 0x05, 0x01, 0x00, 0x00, 0x00, 0x00] @ [0x00, 0x12, 0x00, 0x00] @
     [0x75, 0x50, 0x00, 0x00] @ [0x00, 0x0b, 0x00, 0x02, 0x01, 0x00] @
     [0x00, 0x0a, 0x00, 0x06, 0x00, 0x04, 0x00, 0x17, 0x00, 0x18]"

definition tt_clientHello :: "tls12TicketConn \<Rightarrow> uint32 \<Rightarrow> rng \<Rightarrow> bytes \<times> rng" where
  "tt_clientHello c now r =
     (case tt_packAuthData c now r [3, 3] of (data0, r1) \<Rightarrow>
      let data = data0 @ [0x20] @ tt_clientID c @ cipher_suites @ [1, 0] in
      case tt_getHost c r1 of (host, r2) \<Rightarrow>
      let ext0 = tt_packSNIData [0xff, 0x01, 0x00, 0x01, 0x00] host @ [0, 0x17, 0, 0] in
      case tt_packTicketBuf r2 ext0 of (ext1, r3) \<Rightarrow>
      let ext = ext1 @ hello_extensions;
          data2 = data @ be16 (of_nat (length ext)) @ ext
      in ([0x16, 3, 1] @ be16 (of_nat (length data2 + 4)) @ [1, 0] @ be16 (of_nat (length data2)) @ data2, r3))"

section \<open>Write\<close>

text \<open>The records of a write: above 2048 bytes they are cut at random.\<close>

function tt_pack_loop :: "bytes \<Rightarrow> bytes \<Rightarrow> rng \<Rightarrow> bytes \<times> rng" where
  "tt_pack_loop buf b r =
     (if length b > 2048
      then (case Intn 4096 r of (k, r1) \<Rightarrow>
        let n = (if length b < k + 100 then length b else k + 100)
        in tt_pack_loop (tt_packData buf (take n b)) (drop n b) r1)
      else if length b > 0 then (tt_packData buf b, r)
      else (buf, r))"
  by pat_completeness auto
termination
  by (relation "measure (\<lambda>(buf, b, r). length b)") auto

declare tt_pack_loop.simps [simp del]

text \<open>
  \<open>Write\<close>, given the time and the outcome of the network's \<^verbatim>\<open>Write\<close>: the result, the state,
  what is handed to the network, the randomness.
\<close>

definition tt_Write ::
  "tls12TicketConn \<Rightarrow> uint32 \<Rightarrow> rng \<Rightarrow> io_error option \<Rightarrow> bytes \<Rightarrow>
     (io_error + nat) \<times> tls12TicketConn \<times> bytes \<times> rng" where
  "tt_Write c now r werr b =
     (let res = (\<lambda>n. case werr of None \<Rightarrow> Inr n | Some e \<Rightarrow> Inl e) in
      if handshakeStatus c = 8
      then (case tt_pack_loop [] b r of (buf, r1) \<Rightarrow> (res (length b), c, buf, r1))
      else
        let c1 = (if length b > 0 then c\<lparr>sendBuf := tt_packData (sendBuf c) b\<rparr> else c) in
        if handshakeStatus c1 = 0
        then (case tt_clientHello c1 now r of (hello, r1) \<Rightarrow>
                (res (length b), c1\<lparr>handshakeStatus := 1\<rparr>, hello, r1))
        else if handshakeStatus c1 = 1 \<and> length b = 0
        then (case AppendRandBytes [0x14, 3, 3, 0, 1, 1, 0x16, 3, 3, 0, 0x20] 22 r of (buf, r1) \<Rightarrow>
                let buf1 = buf @ take 10 (tt_hmacSHA1 c1 buf) @ sendBuf c1
                in (res 0, c1\<lparr>sendBuf := [], handshakeStatus := 8\<rparr>, buf1, r1))
        else (Inr (length b), c1, [], r))"

section \<open>Read\<close>

function tt_records :: "bytes \<Rightarrow> bytes \<Rightarrow> tls_error option \<times> bytes \<times> bytes" where
  "tt_records dst src =
     (if length src > 5
      then if take 3 src \<noteq> [0x17, 3, 3] then (Some errTLS12TicketAuthIncorrectMagicNumber, dst, [])
        else let n = unat (rd_be16 (sub 3 2 src)) in
          if length src < 5 + n then (None, dst, src)
          else tt_records (dst @ sub 5 n src) (drop (5 + n) src)
      else (None, dst, src))"
  by pat_completeness auto
termination
  by (relation "measure (\<lambda>(dst, src). length src)") auto

declare tt_records.simps [simp del]

definition tt_Read ::
  "tls12TicketConn \<Rightarrow> uint32 \<Rightarrow> rng \<Rightarrow> io_error option \<Rightarrow> nat \<Rightarrow>
     ((tls_error + bytes) \<times> tls12TicketConn \<times> bytes \<times> rng) go" where
  "tt_Read c now r werr m =
     (if length (tt_decoded c) > 0
      then Ret (Inr (take m (tt_decoded c)), c\<lparr>tt_decoded := drop m (tt_decoded c)\<rparr>, [], r)
      else go_bind (net_read RelayBufferSize (tt_net c)) (\<lambda>(res, net).
        let c1 = c\<lparr>tt_net := net\<rparr> in
        case res of
          Inl e \<Rightarrow> Ret (Inl (TLSNetError e), c1, [], r)
        | Inr x \<Rightarrow>
            if handshakeStatus c1 = 8
            then (case tt_records (tt_decoded c1) (tt_underDecoded c1 @ x) of (err, dst, src) \<Rightarrow>
                    let c2 = c1\<lparr>tt_decoded := dst, tt_underDecoded := src\<rparr>
                    in case err of
                         Some e \<Rightarrow> Ret (Inl e, c2, [], r)
                       | None \<Rightarrow> Ret (Inr (take m dst), c2\<lparr>tt_decoded := drop m dst\<rparr>, [], r))
            else
              let n = length x in
              if n < 11 + 32 + 1 + 32 then Ret (Inl errTLS12TicketAuthTooShortData, c1, [], r)
              else if sub 33 10 x \<noteq> take 10 (tt_hmacSHA1 c1 (sub 11 22 x)) \<or>
                      drop (n - 10) x \<noteq> take 10 (tt_hmacSHA1 c1 (take (n - 10) x))
              then Ret (Inl errTLS12TicketAuthHMACError, c1, [], r)
              else (case tt_Write c1 now r werr [] of (_, c2, wire, r1) \<Rightarrow>
                      Ret (Inr [], c2, wire, r1))))"

section \<open>The record layer\<close>

lemma tt_records_short [simp]: "length src \<le> 5 \<Longrightarrow> tt_records dst src = (None, dst, src)"
  by (simp add: tt_records.simps)

lemma tt_records_append:
  "tt_records dst (s @ t) =
     (case tt_records dst s of (e, d, r) \<Rightarrow>
        case e of None \<Rightarrow> tt_records d (r @ t) | Some _ \<Rightarrow> (e, d, []))"
proof (induction dst s rule: tt_records.induct)
  case (1 dst s)
  show ?case
  proof (cases "length s > 5 \<and> take 3 s = [0x17, 3, 3] \<and> 5 + unat (rd_be16 (sub 3 2 s)) \<le> length s")
    case True
    let ?n = "unat (rd_be16 (sub 3 2 s))"
    from True have "tt_records dst s = tt_records (dst @ sub 5 ?n s) (drop (5 + ?n) s)"
      "tt_records dst (s @ t) = tt_records (dst @ sub 5 ?n s) (drop (5 + ?n) s @ t)"
      by (simp_all add: tt_records.simps[of dst s] tt_records.simps[of dst "s @ t"] Let_def)
    with 1[of ?n] True show ?thesis by simp
  next
    case False
    then show ?thesis
      by (auto simp: tt_records.simps[of dst s] tt_records.simps[of dst "s @ t"] Let_def)
  qed
qed

lemma tt_records_prefix:
  "tt_records (pre @ dst) s = (case tt_records dst s of (e, d, r) \<Rightarrow> (e, pre @ d, r))"
proof (induction dst s rule: tt_records.induct)
  case (1 dst s)
  then show ?case by (simp add: tt_records.simps[of _ s] Let_def)
qed

lemma tt_records_rest: "tt_records dst src = (e, d, r) \<Longrightarrow> length r \<le> length src"
proof (induction dst src rule: tt_records.induct)
  case (1 dst src)
  from 1(2) show ?case
    by (simp add: tt_records.simps[of dst src] Let_def split: if_splits) (use 1(1) in fastforce)
qed

text \<open>What the records hold, and what is left of the input, is shorter than the input by a head for each.\<close>

lemma tt_records_length:
  "tt_records dst src = (e, d, r) \<Longrightarrow> d \<noteq> dst \<Longrightarrow> length d + length r + 5 \<le> length dst + length src"
proof (induction dst src rule: tt_records.induct)
  case (1 dst src)
  show ?case
  proof (cases "length src > 5 \<and> take 3 src = [0x17, 3, 3] \<and> 5 + unat (rd_be16 (sub 3 2 src)) \<le> length src")
    case True
    let ?n = "unat (rd_be16 (sub 3 2 src))"
    from True 1(2) have rec: "tt_records (dst @ sub 5 ?n src) (drop (5 + ?n) src) = (e, d, r)"
      by (simp add: tt_records.simps[of dst src] Let_def)
    show ?thesis
    proof (cases "d = dst @ sub 5 ?n src")
      case d: True
      from rec have "length r \<le> length src - (5 + ?n)"
        by (metis tt_records_rest length_drop)
      with d True show ?thesis by (auto simp: min_def)
    next
      case False
      from 1(1)[OF _ _ refl _ rec False] True show ?thesis by simp
    qed
  next
    case False
    with 1(2,3) show ?thesis by (auto simp: tt_records.simps[of dst src] Let_def split: if_splits)
  qed
qed
definition tt_decode :: "unit \<Rightarrow> bytes \<Rightarrow> bytes \<Rightarrow> (tls_error option \<times> unit \<times> bytes \<times> bytes) go" where
  "tt_decode p dst src = (case tt_records dst src of (e, d, r) \<Rightarrow> Ret (e, p, d, r))"

interpretation tt: stream_decoder tt_decode
proof
  fix p :: unit and dst s t pre :: bytes
  show "tt_decode p dst (s @ t) = go_bind (tt_decode p dst s)
      (\<lambda>(e, p', dst', r). case e of None \<Rightarrow> tt_decode p' dst' (r @ t) | Some _ \<Rightarrow> Ret (e, p', dst', []))"
    by (simp add: tt_decode_def tt_records_append split: prod.splits option.splits)
  show "tt_decode p (pre @ dst) s = go_bind (tt_decode p dst s) (\<lambda>(e, p', out, r). Ret (e, p', pre @ out, r))"
    by (simp add: tt_decode_def tt_records_prefix split: prod.splits)
qed (simp_all add: tt_decode_def split: prod.splits)

lemma tt_records_packData:
  assumes "length data < 65536" "data \<noteq> []"
  shows "tt_records dst (tt_packData [] data @ t) = tt_records (dst @ data) t"
proof -
  define hdr where "hdr = [0x17, 3, 3] @ be16 (of_nat (length data))"
  have l: "length hdr = 5" "take 3 hdr = [0x17, 3, 3]" "sub 3 2 hdr = be16 (of_nat (length data))"
    by (simp_all add: hdr_def)
  then have h: "take 3 (hdr @ data @ t) = [0x17, 3, 3]" "unat (rd_be16 (sub 3 2 (hdr @ data @ t))) = length data"
    using assms(1) by (simp_all add: unat_uint16_of_nat)
  have "drop (5 + length data) (hdr @ data @ t) = t" "sub 5 (length data) (hdr @ data @ t) = data"
    "length (hdr @ data @ t) > 5" "\<not> length (hdr @ data @ t) < 5 + length data"
    using l assms(2) by simp_all
  then have "tt_records dst (hdr @ data @ t) = tt_records (dst @ data) t"
    by (subst tt_records.simps) (simp only: h Let_def if_True if_False simp_thms)
  then show ?thesis by (simp add: tt_packData_def hdr_def)
qed

lemma tt_records_wrapped:
  assumes "\<not> length b < 65536"
  shows "tt_records [] (tt_packData [] b) \<noteq> (None, b, [])"
proof
  assume eq: "tt_records [] (tt_packData [] b) = (None, b, [])"
  define n where "n = unat (of_nat (length b) :: uint16)"
  have n: "n < 65536" using unsigned_less[of "of_nat (length b) :: uint16"] by (simp add: n_def)
  define hdr where "hdr = [0x17, 3, 3] @ be16 (of_nat (length b))"
  have h: "length hdr = 5" "take 3 hdr = [0x17, 3, 3]" "sub 3 2 hdr = be16 (of_nat (length b))"
    by (simp_all add: hdr_def)
  then have h': "take 3 (hdr @ b) = [0x17, 3, 3]" "unat (rd_be16 (sub 3 2 (hdr @ b))) = n"
    by (simp_all add: n_def)
  have "drop (5 + n) (hdr @ b) = drop n b" "sub 5 n (hdr @ b) = take n b"
    "length (hdr @ b) > 5" "\<not> length (hdr @ b) < 5 + n"
    using h assms n by (auto simp: min_def)
  then have "tt_records [] (hdr @ b) = tt_records ([] @ take n b) (drop n b)"
    by (subst tt_records.simps) (simp only: h' Let_def if_True if_False simp_thms)
  then have "tt_records [] (tt_packData [] b) = tt_records (take n b) (drop n b)"
    by (simp add: tt_packData_def hdr_def)
  with eq have rec: "tt_records (take n b) (drop n b) = (None, b, [])" by simp
  moreover have "b \<noteq> take n b" using assms n by (metis length_take min.absorb_iff1 linorder_not_le order.strict_trans2 nat_less_le)
  ultimately show False using tt_records_length[of "take n b" "drop n b" None b "[]"] assms n by simp
qed

lemma tt_pack_loop_records:
  "\<exists>w r'. tt_pack_loop buf b r = (buf @ w, r') \<and> (\<forall>dst t. tt_records dst (w @ t) = tt_records (dst @ b) t)"
proof (induction buf b r rule: tt_pack_loop.induct)
  case (1 buf b r)
  have pd: "tt_packData buf x = buf @ tt_packData [] x" for buf x by (simp add: tt_packData_def)
  show ?case
  proof (cases "length b > 2048")
    case True
    obtain k r1 where k: "Intn 4096 r = (k, r1)" by (cases "Intn 4096 r")
    define n where "n = (if length b < k + 100 then length b else k + 100)"
    have "k < 4096" using Intn_less'[OF k] by simp
    then have n: "length (take n b) < 65536" "take n b \<noteq> []" using True by (auto simp: n_def)
    from 1(1)[OF True k[symmetric] n_def] obtain w r' where
      "tt_pack_loop (tt_packData buf (take n b)) (drop n b) r1 = (tt_packData buf (take n b) @ w, r')"
      "\<forall>dst t. tt_records dst (w @ t) = tt_records (dst @ drop n b) t" by blast
    with True k n_def tt_records_packData[OF n] show ?thesis
      by (intro exI[of _ "tt_packData [] (take n b) @ w"] exI[of _ r'])
        (simp add: tt_pack_loop.simps[of buf b r] Let_def pd[of buf])
  next
    case False
    show ?thesis
    proof (cases "b = []")
      case False
      with \<open>\<not> length b > 2048\<close> tt_records_packData[of b] show ?thesis
        by (intro exI[of _ "tt_packData [] b"] exI[of _ r]) (simp add: tt_pack_loop.simps pd[of buf])
    qed (simp add: tt_pack_loop.simps)
  qed
qed

section \<open>The handshake\<close>

text \<open>Records that decode to \<open>data\<close>, whatever follows.\<close>

definition tt_carries :: "bytes \<Rightarrow> bytes \<Rightarrow> bool" where
  "tt_carries w data \<longleftrightarrow> (\<forall>dst t. tt_records dst (w @ t) = tt_records (dst @ data) t)"

lemma tt_carries_append: "tt_carries w x \<Longrightarrow> tt_carries v y \<Longrightarrow> tt_carries (w @ v) (x @ y)"
  by (simp add: tt_carries_def)

lemma tt_carries_nil: "tt_carries [] []"
  by (simp add: tt_carries_def)

lemma tt_carries_records: "tt_carries w x \<Longrightarrow> tt_records dst w = (None, dst @ x, [])"
  unfolding tt_carries_def by (metis append_Nil2 list.size(3) tt_records_short zero_le)

text \<open>A run: what the program has written and what has gone to the network, call by call.\<close>

datatype tt_call = TtWrite uint32 bytes | TtRead uint32 nat

inductive tt_step ::
  "tls12TicketConn \<times> rng \<times> bytes \<times> bytes list \<Rightarrow> tt_call \<Rightarrow> tls12TicketConn \<times> rng \<times> bytes \<times> bytes list \<Rightarrow> bool"
where
  tt_write: "tt_Write c now r None b = (res, c', w, r') \<Longrightarrow>
    tt_step (c, r, written, wire) (TtWrite now b) (c', r', written @ b, wire @ [w])"
| tt_read: "tt_Read c now r None m = Ret (res, c', w, r') \<Longrightarrow>
    tt_step (c, r, written, wire) (TtRead now m) (c', r', written, wire @ [w])"

inductive_cases tt_stepE: "tt_step s a s'"

fun tt_short :: "tt_call \<Rightarrow> bool" where
  "tt_short (TtWrite now b) = (length b < 65536)"
| "tt_short (TtRead now m) = True"

abbreviation tt_reach ::
  "obfs_Base \<times> bytes \<Rightarrow> net \<Rightarrow> rng \<Rightarrow> tls12TicketConn \<times> rng \<times> bytes \<times> bytes list \<Rightarrow> bool" where
  "tt_reach t net r \<equiv> reaches (\<lambda>s s'. \<exists>a. tt_short a \<and> tt_step s a s') (tt_StreamConn t net, r, [], [])"

text \<open>
  The packet that ends the handshake: a change of cipher, and 22 random bytes under the head of a
  finished message, with an HMAC of all that at the end.
\<close>

definition tt_finish_ok :: "obfs_Base \<Rightarrow> bytes \<Rightarrow> bytes \<Rightarrow> bool" where
  "tt_finish_ok b cid f \<longleftrightarrow> length f = 43 \<and> take 11 f = [0x14, 3, 3, 0, 1, 1, 0x16, 3, 3, 0, 0x20] \<and>
     drop 33 f = take 10 (HmacSHA1 (ob_Key b @ cid) (take 33 f))"

text \<open>
  The wire holds nothing, then one hello, then the finishing packet of 43 bytes and records of
  everything written; in between, the records are in the buffer.
\<close>

definition tt_inv :: "tls12TicketConn \<Rightarrow> bytes \<Rightarrow> bytes \<Rightarrow> bool" where
  "tt_inv c written wire \<longleftrightarrow>
     (handshakeStatus c = 0 \<and> wire = [] \<and> written = [] \<and> sendBuf c = []) \<or>
     (handshakeStatus c = 1 \<and> (\<exists>cc now r r'. tt_clientHello cc now r = (wire, r') \<and>
        tt_Base cc = tt_Base c \<and> tt_clientID cc = tt_clientID c) \<and> tt_carries (sendBuf c) written) \<or>
     (handshakeStatus c = 8 \<and> (\<exists>cc now r r' hello fin w. tt_clientHello cc now r = (hello, r') \<and>
        tt_Base cc = tt_Base c \<and> tt_clientID cc = tt_clientID c \<and>
        wire = hello @ fin @ w \<and> tt_finish_ok (tt_Base c) (tt_clientID c) fin \<and> tt_carries w written))"

lemma tt_inv_Write:
  assumes inv: "tt_inv c written wire" and w: "tt_Write c now r werr b = (res, c', w, r')" and short: "length b < 65536"
  shows "tt_inv c' (written @ b) (wire @ w)"
proof -
  have pack: "tt_carries (tt_packData [] b) b" if "b \<noteq> []"
    using tt_records_packData[OF short that] by (simp add: tt_carries_def)
  have pd: "tt_packData buf x = buf @ tt_packData [] x" for buf x by (simp add: tt_packData_def)
  consider "handshakeStatus c = 0" | "handshakeStatus c = 1" "b = []" | "handshakeStatus c = 1" "b \<noteq> []"
    | "handshakeStatus c = 8"
    using inv by (auto simp: tt_inv_def)
  then show ?thesis
  proof cases
    case 1
    let ?c = "if length b > 0 then c\<lparr>sendBuf := tt_packData (sendBuf c) b\<rparr> else c"
    obtain hello r1 where h: "tt_clientHello ?c now r = (hello, r1)" by (cases "tt_clientHello ?c now r")
    from 1 inv have c: "wire = []" "written = []" "sendBuf c = []" by (auto simp: tt_inv_def)
    have c': "c' = ?c\<lparr>handshakeStatus := 1\<rparr>" "w = hello" using w h 1 by (auto simp: tt_Write_def Let_def split: if_splits)
    have "tt_carries (sendBuf c') b" using c' c pack tt_carries_nil by (auto simp: pd[of "sendBuf c"])
    moreover have "tt_Base ?c = tt_Base c'" "tt_clientID ?c = tt_clientID c'" "handshakeStatus c' = 1"
      using c' by simp_all
    ultimately show ?thesis using h c c'(2) unfolding tt_inv_def by auto
  next
    case 2
    obtain x r1 where x: "rand_bytes 22 r = (x, r1)" by (cases "rand_bytes 22 r")
    let ?buf = "[0x14, 3, 3, 0, 1, 1, 0x16, 3, 3, 0, 0x20] @ x"
    let ?fin = "?buf @ take 10 (tt_hmacSHA1 c ?buf)"
    have c': "c' = c\<lparr>sendBuf := [], handshakeStatus := 8\<rparr>" "w = ?fin @ sendBuf c"
      using w x 2 by (auto simp: tt_Write_def AppendRandBytes_def)
    have fin: "tt_finish_ok (tt_Base c) (tt_clientID c) ?fin"
      using length_rand_bytes'[OF x] by (simp add: tt_hmacSHA1_def tt_finish_ok_def)
    from inv 2 obtain cc now r r' where h: "tt_clientHello cc now r = (wire, r')" "tt_Base cc = tt_Base c"
      "tt_clientID cc = tt_clientID c" "tt_carries (sendBuf c) written" by (auto simp: tt_inv_def)
    have "\<exists>hello fin v. tt_clientHello cc now r = (hello, r') \<and> wire @ w = hello @ fin @ v \<and>
        tt_finish_ok (tt_Base c) (tt_clientID c) fin \<and> tt_carries v (written @ b)"
      using h(1,4) fin 2(2) c'(2) by (intro exI[of _ wire] exI[of _ ?fin] exI[of _ "sendBuf c"]) simp
    then show ?thesis using h(2,3) c'(1) unfolding tt_inv_def by (intro disjI2) force
  next
    case 3
    have c': "c' = c\<lparr>sendBuf := sendBuf c @ tt_packData [] b\<rparr>" "w = []"
      using w 3 by (auto simp: tt_Write_def pd[of "sendBuf c"] Let_def)
    then show ?thesis using inv 3 pack tt_carries_append by (auto simp: tt_inv_def)
  next
    case 4
    from tt_pack_loop_records[of "[]" b r] obtain v r1 where v: "tt_pack_loop [] b r = (v, r1)" "tt_carries v b"
      by (auto simp: tt_carries_def)
    then have c': "c' = c" "w = v" using w 4 by (auto simp: tt_Write_def)
    from inv 4 obtain cc now r r' hello fin u where h: "tt_clientHello cc now r = (hello, r')"
      "tt_Base cc = tt_Base c" "tt_clientID cc = tt_clientID c"
      "wire = hello @ fin @ u" "tt_finish_ok (tt_Base c) (tt_clientID c) fin" "tt_carries u written"
      by (auto simp: tt_inv_def)
    have "wire @ w = hello @ fin @ (u @ v)" "tt_carries (u @ v) (written @ b)"
      using h(4,6) v(2) c'(2) tt_carries_append by auto
    then show ?thesis using h(1-3,5) 4 c'(1) unfolding tt_inv_def by blast
  qed
qed

lemma tt_Read_cases:
  assumes rd: "tt_Read c now r werr m = Ret (res, c', w, r')"
  obtains (quiet) "w = []" "handshakeStatus c' = handshakeStatus c" "sendBuf c' = sendBuf c"
      "tt_Base c' = tt_Base c" "tt_clientID c' = tt_clientID c"
    | (answer) net res' where "tt_Write (c\<lparr>tt_net := net\<rparr>) now r werr [] = (res', c', w, r')"
proof (cases "length (tt_decoded c) > 0")
  case True
  with rd quiet show ?thesis by (auto simp: tt_Read_def)
next
  case False
  with rd obtain x net where n: "net_read RelayBufferSize (tt_net c) = Ret (x, net)"
    by (auto simp: tt_Read_def go_bind_Ret_iff)
  let ?c = "c\<lparr>tt_net := net\<rparr>"
  obtain res2 c2 w2 r2 where wr: "tt_Write ?c now r werr [] = (res2, c2, w2, r2)" by (rule prod_cases4)
  have "(w = [] \<and> handshakeStatus c' = handshakeStatus c \<and> sendBuf c' = sendBuf c \<and>
      tt_Base c' = tt_Base c \<and> tt_clientID c' = tt_clientID c) \<or> (c' = c2 \<and> w = w2 \<and> r' = r2)"
  proof (cases x)
    case (Inl e)
    with rd False n show ?thesis by (auto simp: tt_Read_def Let_def)
  next
    case (Inr y)
    obtain err dst src where rec: "tt_records (tt_decoded c) (tt_underDecoded c @ y) = (err, dst, src)"
      by (metis prod.exhaust)
    show ?thesis
    proof (cases "handshakeStatus c = 8")
      case True
      with rd False n Inr rec show ?thesis by (cases err) (auto simp: tt_Read_def Let_def)
    next
      case no: False
      with rd False n Inr wr show ?thesis by (auto simp: tt_Read_def Let_def split: if_splits)
    qed
  qed
  then show ?thesis using quiet answer wr by auto
qed

lemma tt_inv_Read:
  assumes inv: "tt_inv c written wire" and rd: "tt_Read c now r werr m = Ret (res, c', w, r')"
  shows "tt_inv c' written (wire @ w)"
  using rd
proof (cases rule: tt_Read_cases)
  case quiet
  with inv show ?thesis by (simp add: tt_inv_def)
next
  case (answer net res')
  from inv have "tt_inv (c\<lparr>tt_net := net\<rparr>) written wire" by (simp add: tt_inv_def)
  from tt_inv_Write[OF this answer] show ?thesis by simp
qed

interpretation tt_run: machine "\<lambda>s s'. \<exists>a. tt_short a \<and> tt_step s a s'"
  "\<lambda>(c, r', written, wire). tt_inv c written (concat wire) \<and> tt_Base c = fst t \<and> tt_clientID c = snd t"
  "(tt_StreamConn t net, r, [], [])" for t net r
proof
  show "case (tt_StreamConn t net, r, [], []) of (c, r', written, wire) \<Rightarrow>
      tt_inv c written (concat wire) \<and> tt_Base c = fst t \<and> tt_clientID c = snd t"
    by (simp add: tt_inv_def tt_StreamConn_def)
next
  fix s s' assume "\<exists>a. tt_short a \<and> tt_step s a s'" and inv: "case s of (c, r', written, wire) \<Rightarrow>
      tt_inv c written (concat wire) \<and> tt_Base c = fst t \<and> tt_clientID c = snd t"
  then obtain a where a: "tt_short a" "tt_step s a s'" by blast
  have same: "tt_Base c' = tt_Base c \<and> tt_clientID c' = tt_clientID c"
    if "tt_Write c now r werr b = (res, c', w, r')" for c now r werr b res c' w r'
    using that by (auto simp: tt_Write_def Let_def split: if_splits prod.splits)
  have same': "tt_Base c' = tt_Base c \<and> tt_clientID c' = tt_clientID c"
    if "tt_Read c now r werr m = Ret (res, c', w, r')" for c now r werr m res c' w r'
    using that by (cases rule: tt_Read_cases) (use same in fastforce)+
  from a inv show "case s' of (c, r', written, wire) \<Rightarrow>
      tt_inv c written (concat wire) \<and> tt_Base c = fst t \<and> tt_clientID c = snd t"
    by (elim tt_stepE)
      (auto dest: same same' intro: tt_inv_Write tt_inv_Read simp: concat_append)
qed

text \<open>
  What a server checks of the hello: the three nested lengths, the versions, the session id, and the
  HMAC of time and random bytes at the place of the last ten of them.
\<close>

definition tt_hello_ok :: "obfs_Base \<Rightarrow> bytes \<Rightarrow> uint32 \<Rightarrow> bytes \<Rightarrow> bool" where
  "tt_hello_ok b cid now h \<longleftrightarrow>
     take 3 h = [0x16, 3, 1] \<and> unat (rd_be16 (sub 3 2 h)) = length h - 5 \<and>
     sub 5 2 h = [1, 0] \<and> unat (rd_be16 (sub 7 2 h)) = length h - 9 \<and>
     sub 9 2 h = [3, 3] \<and> sub 11 4 h = be32 now \<and>
     sub 33 10 h = take 10 (HmacSHA1 (ob_Key b @ cid) (sub 11 22 h)) \<and>
     sub 43 1 h = [0x20] \<and> sub 44 32 h = cid \<and>
     unat (rd_be16 (sub 108 2 h)) = length h - 110"

lemma split_at_length: "x \<in> set (split_at c s) \<Longrightarrow> length x \<le> length s"
proof (induction c s arbitrary: x rule: split_at.induct)
  case (2 c y s)
  show ?case
  proof (cases "y = c")
    case True
    with 2 show ?thesis by fastforce
  next
    case False
    with 2 show ?thesis by (cases "split_at c s") (fastforce+)
  qed
qed simp

lemma split_at_ne: "split_at c s \<noteq> []"
  by (induction c s rule: split_at.induct) (auto split: list.splits)

lemma tt_getHost_length:
  assumes "tt_getHost c r = (host, r')"
  shows "length host \<le> max (length (ob_Param (tt_Base c))) (length (Host (tt_Base c)))"
proof -
  define h1 where "h1 = (if length (ob_Param (tt_Base c)) = 0 then Host (tt_Base c) else ob_Param (tt_Base c))"
  define h2 where "h2 = (if length h1 > 0 \<and> last h1 \<ge> 48 \<and> last h1 \<le> 57 then [] else h1)"
  obtain i r1 where i: "Intn (length (split_at 44 h2)) r = (i, r1)" by (metis prod.exhaust)
  have "i < length (split_at 44 h2)" using Intn_less'[OF i] split_at_ne by simp
  moreover have "host = split_at 44 h2 ! i"
    using assms i unfolding tt_getHost_def Let_def h1_def[symmetric] h2_def[symmetric] by simp
  ultimately have "length host \<le> length h2" using split_at_length nth_mem by blast
  then show ?thesis by (auto simp: h2_def h1_def split: if_splits)
qed

lemma tt_clientHello_ok:
  assumes hello: "tt_clientHello c now r = (h, r')" and cid: "length (tt_clientID c) = 32"
    and short: "length (ob_Param (tt_Base c)) < 60000" "length (Host (tt_Base c)) < 60000"
  shows "tt_hello_ok (tt_Base c) (tt_clientID c) now h"
proof -
  obtain x r1 where x: "rand_bytes 18 r = (x, r1)" by (cases "rand_bytes 18 r")
  define mac where "mac = take 10 (HmacSHA1 (ob_Key (tt_Base c) @ tt_clientID c) (be32 now @ x))"
  obtain host r2 where host: "tt_getHost c r1 = (host, r2)" by (cases "tt_getHost c r1")
  have hl: "length host < 60000" using tt_getHost_length[OF host] short by simp
  obtain k r3 where k: "Intn 17 r2 = (k, r3)" by (cases "Intn 17 r2")
  have "k < 17" using Intn_less'[OF k] by simp
  obtain y r4 where y: "rand_bytes (16 * (k + 8)) r3 = (y, r4)" by (cases "rand_bytes (16 * (k + 8)) r3")
  define ext where "ext = tt_packSNIData [0xff, 0x01, 0x00, 0x01, 0x00] host @ [0, 0x17, 0, 0] @ [0, 0x23] @
    be16 (of_nat (16 * (k + 8))) @ y @ hello_extensions"
  have el: "length ext < 65400" using hl \<open>k < 17\<close> length_rand_bytes'[OF y]
    by (simp add: ext_def tt_packSNIData_def hello_extensions_def Let_def)
  define pre where "pre = [0x16, 3, 1] @ be16 (of_nat (length ext + 105)) @ [1, 0] @ be16 (of_nat (length ext + 101))"
  define body where "body = [3, 3] @ be32 now @ x @ mac"
  have lx: "length x = 18" using length_rand_bytes'[OF x] .
  have lm: "length mac = 10" by (simp add: mac_def)
  have data0: "tt_packAuthData c now r [3, 3] = (body, r1)"
    using x lx by (simp add: tt_packAuthData_def AppendRandBytes_def body_def mac_def tt_hmacSHA1_def)
  have lb: "length body = 34" using lx lm by (simp add: body_def)
  have ticket: "tt_packTicketBuf r2 z = (z @ [0, 0x23] @ be16 (of_nat (16 * (k + 8))) @ y, r4)" for z
    using k y by (simp add: tt_packTicketBuf_def AppendRandBytes_def Let_def)
  have ext': "(tt_packSNIData [0xff, 0x01, 0x00, 0x01, 0x00] host @ [0, 0x17, 0, 0]) @ [0, 0x23] @
    be16 (of_nat (16 * (k + 8))) @ y @ hello_extensions = ext" by (simp add: ext_def)
  have lc: "length cipher_suites = 30" by (simp add: cipher_suites_def)
  define mid where "mid = [0x20] @ tt_clientID c @ cipher_suites @ [1, 0] @ be16 (of_nat (length ext))"
  have h: "h = pre @ body @ mid @ ext"
    using hello cid lb lc
    unfolding tt_clientHello_def Let_def data0 host prod.case ticket append_assoc ext'[unfolded append_assoc]
    by (auto simp: pre_def mid_def add.commute)
  have lp: "length pre = 9" by (simp add: pre_def)
  have lmid: "length mid = 67" using cid lc by (simp add: mid_def)
  have lh: "length h = length ext + 110" using lp lb lmid by (simp add: h)
  have p: "take 3 h = [0x16, 3, 1]" "sub 3 2 h = be16 (of_nat (length ext + 105))" "sub 5 2 h = [1, 0]"
    "sub 7 2 h = be16 (of_nat (length ext + 101))"
    by (simp_all add: h pre_def)
  have b: "sub 9 2 h = [3, 3]" "sub 11 4 h = be32 now" "sub 33 10 h = mac" "sub 11 22 h = be32 now @ x"
    using lp lx lm by (simp_all add: h body_def)
  have m: "sub 43 1 h = [0x20]" "sub 44 32 h = tt_clientID c" "sub 108 2 h = be16 (of_nat (length ext))"
    using lp lb cid lc by (simp_all add: h mid_def)
  have u: "unat (of_nat (length ext + 105) :: uint16) = length ext + 105"
    "unat (of_nat (length ext + 101) :: uint16) = length ext + 101" "unat (of_nat (length ext) :: uint16) = length ext"
    using el by (simp_all only: unat_uint16_of_nat)
  show ?thesis unfolding tt_hello_ok_def p b m lh rd_be16_be16 u by (simp add: mac_def)
qed

section \<open>Reading after the handshake\<close>

definition tt_app_Read ::
  "uint32 \<Rightarrow> rng \<Rightarrow> tls12TicketConn \<Rightarrow> nat \<Rightarrow> ((tls_error + bytes) \<times> tls12TicketConn) go" where
  "tt_app_Read now r c m = go_bind (tt_Read c now r None m) (\<lambda>(res, c', _, _). Ret (res, c'))"

definition tt_pending :: "tls12TicketConn \<Rightarrow> bytes \<Rightarrow> bool" where
  "tt_pending c s \<longleftrightarrow> handshakeStatus c = 8 \<and>
     (\<exists>out. decodes_to tt_decode chunks_of (tt_net c) () (out @ tt_decoded c) (tt_underDecoded c) (out @ s))"

interpretation tls: byte_reader "tt_app_Read now r" tt_pending for now r
proof
  fix c s m assume p: "tt_pending c s"
  then obtain out where s: "handshakeStatus c = 8"
    "decodes_to tt_decode chunks_of (tt_net c) () (out @ tt_decoded c) (tt_underDecoded c) (out @ s)"
    by (auto simp: tt_pending_def)
  show "(tt_app_Read now r c m = Hang \<and> s = []) \<or>
    (\<exists>x t c'. tt_app_Read now r c m = Ret (Inr x, c') \<and> s = x @ t \<and> tt_pending c' t)"
  proof (cases "length (tt_decoded c) > 0")
    case True
    obtain rest where "out @ s = (out @ tt_decoded c) @ rest" using tt.decodes_to_prefix[OF s(2)] by blast
    then have rest: "s = take m (tt_decoded c) @ drop m (tt_decoded c) @ rest" by simp
    let ?c = "c\<lparr>tt_decoded := drop m (tt_decoded c)\<rparr>"
    have "tt_pending ?c (drop m (tt_decoded c) @ rest)"
      using s rest unfolding tt_pending_def by (intro conjI exI[of _ "out @ take m (tt_decoded c)"]) simp_all
    moreover have "tt_app_Read now r c m = Ret (Inr (take m (tt_decoded c)), ?c)"
      using True by (simp add: tt_app_Read_def tt_Read_def)
    ultimately show ?thesis using rest by blast
  next
    case False
    with tt.advance[OF net.byte_reader_axioms s(2), of RelayBufferSize] consider
      "net_read RelayBufferSize (tt_net c) = Hang" "out @ tt_decoded c = out @ s"
      | x net o1 r1 where "net_read RelayBufferSize (tt_net c) = Ret (Inr x, net)"
        "tt_decode () [] (tt_underDecoded c @ x) = Ret (None, (), o1, r1)"
        "decodes_to tt_decode chunks_of net () ((out @ tt_decoded c) @ o1) r1 (out @ s)" by auto
    then show ?thesis
    proof cases
      case 1
      with False show ?thesis by (simp add: tt_app_Read_def tt_Read_def)
    next
      case 2
      obtain rest where "out @ s = (out @ o1) @ rest" using False tt.decodes_to_prefix[OF 2(3)] by auto
      then have rest: "s = take m o1 @ drop m o1 @ rest" by simp
      let ?c = "c\<lparr>tt_net := net, tt_decoded := drop m o1, tt_underDecoded := r1\<rparr>"
      have "tt_records [] (tt_underDecoded c @ x) = (None, o1, r1)"
        using 2(2) by (auto simp: tt_decode_def split: prod.splits)
      then have "tt_app_Read now r c m = Ret (Inr (take m o1), ?c)"
        using False s(1) 2(1) by (simp add: tt_app_Read_def tt_Read_def)
      moreover have "tt_pending ?c (drop m o1 @ rest)"
        using s(1) False 2(3) rest unfolding tt_pending_def by (intro conjI exI[of _ "out @ take m o1"]) simp_all
      ultimately show ?thesis using rest by blast
    qed
  qed
qed

section \<open>Properties\<close>

text \<open>
  C12: Whatever the order of reads and writes on a \<open>tls1.2_ticket_auth\<close> connection (writes of less
  than 65536 bytes, a network that takes them), the wire is empty before the first write; then it is
  one hello whose three nested lengths, session id and HMAC are right, with everything written waiting
  as records; and once the server has answered it goes on with the finishing packet and records that
  decode to exactly what was written, in order.
\<close>

theorem ticket_auth_wire:
  assumes "tt_reach t net r (c, r', written, wire)" and "length (snd t) = 32"
    and "length (ob_Param (fst t)) < 60000" "length (Host (fst t)) < 60000"
  shows "(concat wire = [] \<and> written = []) \<or>
    (\<exists>now hello. tt_hello_ok (fst t) (snd t) now hello \<and>
      (if handshakeStatus c = 8
       then \<exists>fin w. concat wire = hello @ fin @ w \<and> tt_finish_ok (fst t) (snd t) fin \<and>
         tt_records [] w = (None, written, [])
       else concat wire = hello \<and> tt_records [] (sendBuf c) = (None, written, [])))"
proof -
  from tt_run.reachable[OF assms(1)] have inv: "tt_inv c written (concat wire)" and
    b: "tt_Base c = fst t" "tt_clientID c = snd t" by auto
  have hello: "tt_hello_ok (fst t) (snd t) now h"
    if "tt_clientHello cc now q = (h, q')" "tt_Base cc = tt_Base c" "tt_clientID cc = tt_clientID c" for cc now q h q'
    using tt_clientHello_ok[OF that(1)] that(2,3) b assms(2-4) by simp
  note recs = tt_carries_records[where dst = "[]", simplified]
  from inv consider "concat wire = []" "written = []"
    | cc now q q' where "handshakeStatus c = 1" "tt_clientHello cc now q = (concat wire, q')"
      "tt_Base cc = tt_Base c" "tt_clientID cc = tt_clientID c" "tt_carries (sendBuf c) written"
    | cc now q q' h fin w where "handshakeStatus c = 8" "tt_clientHello cc now q = (h, q')"
      "tt_Base cc = tt_Base c" "tt_clientID cc = tt_clientID c" "concat wire = h @ fin @ w"
      "tt_finish_ok (tt_Base c) (tt_clientID c) fin" "tt_carries w written"
    unfolding tt_inv_def by blast
  then show ?thesis
  proof cases
    case 2
    with hello[OF 2(2-4)] recs[OF 2(5)] show ?thesis by auto
  next
    case 3
    have "if handshakeStatus c = 8
       then \<exists>fin w. concat wire = h @ fin @ w \<and> tt_finish_ok (fst t) (snd t) fin \<and>
         tt_records [] w = (None, written, [])
       else concat wire = h \<and> tt_records [] (sendBuf c) = (None, written, [])"
      unfolding if_P[OF 3(1)] using 3(5) 3(6)[unfolded b] recs[OF 3(7)] by blast
    with hello[OF 3(2-4)] show ?thesis by blast
  qed simp
qed

theorem ticket_auth_wire_witness:
  "\<exists>c r' wire. tt_reach (\<lparr>Host = [104], Port = 443, ob_Key = [1], IVSize = 16, ob_Param = []\<rparr>, replicate 32 7) []
     \<lparr>draws = \<lambda>n. n, rpos = 0\<rparr> (c, r', [5, 6], wire) \<and> concat wire \<noteq> []"
proof -
  let ?t = "(\<lparr>Host = [104], Port = 443, ob_Key = [1], IVSize = 16, ob_Param = []\<rparr>, replicate 32 (7 :: byte))"
  let ?r = "\<lparr>draws = \<lambda>n. n, rpos = 0\<rparr>"
  obtain res c w r' where w: "tt_Write (tt_StreamConn ?t []) 0 ?r None [5, 6] = (res, c, w, r')" by (rule prod_cases4)
  have "tt_step (tt_StreamConn ?t [], ?r, [], []) (TtWrite 0 [5, 6]) (c, r', [] @ [5, 6], [] @ [w])"
    by (rule tt_step.tt_write[OF w])
  then have "\<exists>a. tt_short a \<and> tt_step (tt_StreamConn ?t [], ?r, [], []) a (c, r', [5, 6], [w])"
    by (intro exI[of _ "TtWrite 0 [5, 6]"]) simp
  then have reach: "tt_reach ?t [] ?r (c, r', [5, 6], [w])" by (rule reaches_next[OF reaches_refl])
  have "length (snd ?t) = 32" "length (ob_Param (fst ?t)) < 60000" "length (Host (fst ?t)) < 60000" by simp_all
  from ticket_auth_wire[OF reach this] have "concat [w] \<noteq> []"
    by (auto simp: tt_hello_ok_def split: if_splits)
  with reach show ?thesis by blast
qed

text \<open>
  After the handshake, what one end writes the other end reads: the records of any sequence of
  writes, of any length, cut in any way by the network, give a reader exactly the bytes written, in
  order, for any sequence of read sizes; it blocks only when it has them all.
\<close>

theorem ticket_auth_transparent:
  assumes status: "handshakeStatus e = 8" "handshakeStatus c = 8" "tt_decoded c = []" "tt_underDecoded c = []"
    and w1: "tt_Write e now r werr b1 = (res1, e1, f1, r1)" and w2: "tt_Write e1 now1 r1 werr b2 = (res2, e2, f2, r2)"
    and net: "chunks_of (tt_net c) (f1 @ f2)"
  shows "(\<exists>y rest c'. reads (tt_app_Read t q) c ms = Ret (y, None, c') \<and> b1 @ b2 = y @ rest) \<or>
    (reads (tt_app_Read t q) c ms = Hang \<and>
      (\<exists>ms1 ms2 c'. ms = ms1 @ ms2 \<and> reads (tt_app_Read t q) c ms1 = Ret (b1 @ b2, None, c')))"
proof -
  obtain v1 s1 where v1: "tt_pack_loop [] b1 r = (v1, s1)" "tt_carries v1 b1"
    using tt_pack_loop_records[of "[]" b1 r] by (auto simp: tt_carries_def)
  with w1 status have e: "e1 = e" "f1 = v1" "r1 = s1" by (auto simp: tt_Write_def)
  obtain v2 s2 where v2: "tt_pack_loop [] b2 s1 = (v2, s2)" "tt_carries v2 b2"
    using tt_pack_loop_records[of "[]" b2 s1] by (auto simp: tt_carries_def)
  with w2 status e have f2: "f2 = v2" by (auto simp: tt_Write_def)
  have carries: "tt_carries (f1 @ f2) (b1 @ b2)" using tt_carries_append[OF v1(2) v2(2)] e f2 by simp
  then have "tt_records [] (f1 @ f2) = (None, b1 @ b2, [])" using tt_carries_records by fastforce
  then have "tt_decode () [] (f1 @ f2) = Ret (None, (), b1 @ b2, [])" by (simp add: tt_decode_def)
  from tt.decodes_to_start[of chunks_of, OF net this] have "tt_pending c (b1 @ b2)"
    unfolding tt_pending_def using status by (intro conjI exI[of _ "[]"]) simp_all
  from tls.reads_deliver[OF this, of t q ms] show ?thesis by blast
qed

definition tt_example :: "net \<Rightarrow> tls12TicketConn" where
  "tt_example net = (tt_StreamConn (\<lparr>Host = [], Port = 443, ob_Key = [1], IVSize = 16, ob_Param = []\<rparr>,
     replicate 32 7) net)\<lparr>handshakeStatus := 8\<rparr>"

theorem ticket_auth_transparent_witness:
  "\<exists>c'. reads (tt_app_Read 0 \<lparr>draws = \<lambda>n. n, rpos = 0\<rparr>)
     (tt_example [Inr [0x17, 3, 3, 0], Inr [1, 9, 0x17, 3, 3, 0, 1, 8]]) [4, 4] = Ret ([9, 8], None, c')"
proof -
  let ?r = "\<lparr>draws = \<lambda>n. n, rpos = 0\<rparr>" let ?c = "tt_example [Inr [0x17, 3, 3, 0], Inr [1, 9, 0x17, 3, 3, 0, 1, 8]]"
  let ?e = "tt_example []"
  have e: "handshakeStatus ?e = 8" "handshakeStatus ?c = 8" "tt_decoded ?c = []" "tt_underDecoded ?c = []"
    by (simp_all add: tt_example_def tt_StreamConn_def)
  have w: "tt_Write ?e 0 ?r None [x] = (Inr 1, ?e, [0x17, 3, 3, 0, 1, x], ?r)" for x
    by (simp add: tt_Write_def e tt_pack_loop.simps tt_packData_def be16_def)
  have net: "chunks_of (tt_net ?c) ([0x17, 3, 3, 0, 1, 9] @ [0x17, 3, 3, 0, 1, 8])"
    by (simp add: tt_example_def tt_StreamConn_def chunks_of_Cons)
  from ticket_auth_transparent[OF e w w net, where ms = "[4, 4]" and t = 0 and q = ?r]
  show ?thesis
    by (simp add: tt_app_Read_def tt_Read_def tt_example_def tt_StreamConn_def RelayBufferSize_def
      tt_records.simps rd_be16_def)
qed

text \<open>
  The record of a first write, made before the handshake is over, is the only one that holds all
  of the data, and its length field has 16 bits: read back, it gives the data exactly when there are
  fewer than 65536 bytes; at 65536 the receiver sees an empty record and a bad magic number or lost
  data after it.
\<close>

theorem ticket_auth_first_write:
  assumes "handshakeStatus c = 0" "sendBuf c = []" "b \<noteq> []"
  shows "\<exists>c' w r'. tt_Write c now r None b = (Inr (length b), c', w, r') \<and> handshakeStatus c' = 1 \<and>
    (tt_records [] (sendBuf c') = (None, b, []) \<longleftrightarrow> length b < 65536)"
proof -
  let ?c = "c\<lparr>sendBuf := tt_packData [] b\<rparr>"
  obtain hello r1 where h: "tt_clientHello ?c now r = (hello, r1)" by (cases "tt_clientHello ?c now r")
  have w: "tt_Write c now r None b = (Inr (length b), ?c\<lparr>handshakeStatus := 1\<rparr>, hello, r1)"
    using assms h by (simp add: tt_Write_def)
  have "tt_records [] (tt_packData [] b) = (None, b, []) \<longleftrightarrow> length b < 65536"
  proof (cases "length b < 65536")
    case True
    from tt_records_packData[OF True assms(3), of "[]" "[]"] True show ?thesis by simp
  next
    case False
    then show ?thesis using tt_records_wrapped by blast
  qed
  with w show ?thesis by auto
qed

theorem ticket_auth_first_write_witness:
  "\<exists>c' w r'. tt_Write ((tt_example [])\<lparr>handshakeStatus := 0\<rparr>) 0 \<lparr>draws = \<lambda>n. n, rpos = 0\<rparr> None (replicate 65536 1) =
     (Inr 65536, c', w, r') \<and> tt_records [] (sendBuf c') \<noteq> (None, replicate 65536 1, [])"
proof -
  have "handshakeStatus ((tt_example [])\<lparr>handshakeStatus := 0\<rparr>) = 0"
    "sendBuf ((tt_example [])\<lparr>handshakeStatus := 0\<rparr>) = []" "replicate 65536 (1 :: byte) \<noteq> []"
    by (simp_all add: tt_example_def tt_StreamConn_def)
  from ticket_auth_first_write[OF this, of 0 "\<lparr>draws = \<lambda>n. n, rpos = 0\<rparr>"] show ?thesis
    by (simp only: length_replicate) force
qed

end
