(* ===== verification/Obfs.thy ===== *)
theory Obfs
  imports Obfs_HTTP Obfs_Random_Head Obfs_TLS_Ticket
begin

text \<open>
  The registry of disguises (\<^verbatim>\<open>obfs/obfs.go\<close>, \<^verbatim>\<open>plain.go\<close>, \<^verbatim>\<open>http_post.go\<close> and
  the \<^verbatim>\<open>init\<close> functions beside them) and the dispatch of the \<^verbatim>\<open>Obfs\<close> interface and of
  the connections it makes.
\<close>

datatype obfs =
  Obfs_plain | Obfs_http httpObfs | Obfs_random_head obfs_Base | Obfs_tls12_ticket "obfs_Base \<times> bytes"

definition newPlain :: "obfs_Base \<Rightarrow> obfs" where
  [simp]: "newPlain b = Obfs_plain"

definition newRandomHead :: "obfs_Base \<Rightarrow> obfs" where
  [simp]: "newRandomHead b = Obfs_random_head b"

text \<open>What the \<^verbatim>\<open>init\<close> function of each file registers.\<close>

definition init_plain :: "bytes \<times> nat \<times> (obfs_Base \<Rightarrow> rng \<Rightarrow> obfs \<times> rng)" where
  [simp]: "init_plain = (str ''plain'', 0, \<lambda>b r. (newPlain b, r))"

definition init_http_simple :: "bytes \<times> nat \<times> (obfs_Base \<Rightarrow> rng \<Rightarrow> obfs \<times> rng)" where
  [simp]: "init_http_simple = (str ''http_simple'', 0, \<lambda>b r. (Obfs_http (newHTTPSimple b), r))"

definition init_http_post :: "bytes \<times> nat \<times> (obfs_Base \<Rightarrow> rng \<Rightarrow> obfs \<times> rng)" where
  [simp]: "init_http_post = (str ''http_post'', 0, \<lambda>b r. (Obfs_http (newHTTPPost b), r))"

definition init_random_head :: "bytes \<times> nat \<times> (obfs_Base \<Rightarrow> rng \<Rightarrow> obfs \<times> rng)" where
  [simp]: "init_random_head = (str ''random_head'', 0, \<lambda>b r. (newRandomHead b, r))"

definition init_tls12_ticket :: "(bytes \<times> nat \<times> (obfs_Base \<Rightarrow> rng \<Rightarrow> obfs \<times> rng)) list" where
  [simp]: "init_tls12_ticket =
    [(str ''tls1.2_ticket_auth'', 5, \<lambda>b r. map_prod Obfs_tls12_ticket id (newTLS12Ticket b r)),
     (str ''tls1.2_ticket_fastauth'', 5, \<lambda>b r. map_prod Obfs_tls12_ticket id (newTLS12Ticket b r))]"

definition obfsList :: "(bytes \<times> nat \<times> (obfs_Base \<Rightarrow> rng \<Rightarrow> obfs \<times> rng)) list" where
  "obfsList = [init_plain, init_http_simple, init_http_post, init_random_head] @ init_tls12_ticket"

text \<open>The disguise, its overhead and the randomness left; an unknown name is an error.\<close>

definition PickObfs :: "bytes \<Rightarrow> obfs_Base \<Rightarrow> rng \<Rightarrow> (obfs \<times> nat \<times> rng) option" where
  "PickObfs name b r =
     (case map_of obfsList name of
        Some (overhead, new) \<Rightarrow> (case new b r of (x, r') \<Rightarrow> Some (x, overhead, r'))
      | None \<Rightarrow> None)"

datatype obfs_conn =
  Conn_plain net | Conn_http httpConn | Conn_random_head randomHeadConn | Conn_tls12_ticket tls12TicketConn

primrec obfs_StreamConn :: "obfs \<Rightarrow> net \<Rightarrow> obfs_conn" where
  "obfs_StreamConn Obfs_plain net = Conn_plain net"
| "obfs_StreamConn (Obfs_http h) net = Conn_http (http_StreamConn h net)"
| "obfs_StreamConn (Obfs_random_head b) net = Conn_random_head (rh_StreamConn net)"
| "obfs_StreamConn (Obfs_tls12_ticket t) net = Conn_tls12_ticket (tt_StreamConn t net)"

datatype obfs_error = ObfsNetError io_error | ObfsTLSError tls_error

text \<open>
  A call has the time, the randomness and the outcome of a network \<^verbatim>\<open>Write\<close> it may make as
  arguments, and gives what it sent and the randomness left beside its result.
\<close>

fun obfs_Read ::
  "obfs_conn \<Rightarrow> uint32 \<Rightarrow> rng \<Rightarrow> io_error option \<Rightarrow> nat \<Rightarrow>
     ((obfs_error + bytes) \<times> obfs_conn \<times> bytes \<times> rng) go" where
  "obfs_Read (Conn_plain net) now r werr m =
     go_bind (net_read m net) (\<lambda>(res, net'). Ret (map_sum ObfsNetError id res, Conn_plain net', [], r))"
| "obfs_Read (Conn_http c) now r werr m =
     go_bind (http_Read c m) (\<lambda>(res, c'). Ret (map_sum ObfsNetError id res, Conn_http c', [], r))"
| "obfs_Read (Conn_random_head c) now r werr m =
     go_bind (rh_Read c r werr m) (\<lambda>(res, c', w, r'). Ret (map_sum ObfsNetError id res, Conn_random_head c', w, r'))"
| "obfs_Read (Conn_tls12_ticket c) now r werr m =
     go_bind (tt_Read c now r werr m) (\<lambda>(res, c', w, r'). Ret (map_sum ObfsTLSError id res, Conn_tls12_ticket c', w, r'))"

fun obfs_Write ::
  "obfs_conn \<Rightarrow> uint32 \<Rightarrow> rng \<Rightarrow> io_error option \<Rightarrow> bytes \<Rightarrow>
     (nat \<times> io_error option) \<times> obfs_conn \<times> bytes \<times> rng" where
  "obfs_Write (Conn_plain net) now r werr b = ((length b, werr), Conn_plain net, b, r)"
| "obfs_Write (Conn_http c) now r werr b =
     (case http_Write c r werr b of (res, c', w, r') \<Rightarrow>
        ((case res of Inl e \<Rightarrow> (0, Some e) | Inr n \<Rightarrow> (n, None)), Conn_http c', w, r'))"
| "obfs_Write (Conn_random_head c) now r werr b =
     (case rh_Write c r werr b of (res, c', w, r') \<Rightarrow> (res, Conn_random_head c', w, r'))"
| "obfs_Write (Conn_tls12_ticket c) now r werr b =
     (case tt_Write c now r werr b of (res, c', w, r') \<Rightarrow>
        ((case res of Inl e \<Rightarrow> (0, Some e) | Inr n \<Rightarrow> (n, None)), Conn_tls12_ticket c', w, r'))"

section \<open>Reading through a disguise\<close>

text \<open>A connection whose handshake, if it has one, is over and which has \<open>s\<close> to deliver.\<close>

fun obfs_pending :: "obfs_conn \<Rightarrow> bytes \<Rightarrow> bool" where
  "obfs_pending (Conn_plain net) s = chunks_of net s"
| "obfs_pending (Conn_http c) s = http_pending c s"
| "obfs_pending (Conn_random_head c) s = (rawTransRecv c \<and> chunks_of (rh_net c) s)"
| "obfs_pending (Conn_tls12_ticket c) s = tt_pending c s"

definition obfs_app_Read :: "uint32 \<Rightarrow> rng \<Rightarrow> obfs_conn \<Rightarrow> nat \<Rightarrow> ((obfs_error + bytes) \<times> obfs_conn) go" where
  "obfs_app_Read now r c m = go_bind (obfs_Read c now r None m) (\<lambda>(res, c', _, _). Ret (res, c'))"

interpretation obfs: byte_reader "obfs_app_Read now r" obfs_pending for now r
proof
  fix c s m assume p: "obfs_pending c s"
  show "(obfs_app_Read now r c m = Hang \<and> s = []) \<or>
    (\<exists>x t c'. obfs_app_Read now r c m = Ret (Inr x, c') \<and> s = x @ t \<and> obfs_pending c' t)"
  proof (cases c)
    case (Conn_plain n)
    with p net.read_step[of n s m] show ?thesis by (force simp: obfs_app_Read_def)
  next
    case (Conn_http h)
    with p http.read_step[of h s m] show ?thesis by (force simp: obfs_app_Read_def)
  next
    case (Conn_random_head h)
    with p net.read_step[of "rh_net h" s m] show ?thesis by (force simp: obfs_app_Read_def rh_Read_def)
  next
    case (Conn_tls12_ticket h)
    with p tls.read_step[of h s now r m] show ?thesis
      by (cases "tt_Read h now r None m") (force simp: obfs_app_Read_def tt_app_Read_def)+
  qed
qed

section \<open>Both ends of a disguise\<close>

text \<open>
  Two ends of one disguise that are past their handshakes: the first passes on what it is given, the
  second is to deliver it and holds nothing yet. \<open>obfs_net\<close> is what the network brings an end.
\<close>

primrec obfs_net :: "obfs_conn \<Rightarrow> net" where
  "obfs_net (Conn_plain net) = net"
| "obfs_net (Conn_http c) = hc_net c"
| "obfs_net (Conn_random_head c) = rh_net c"
| "obfs_net (Conn_tls12_ticket c) = tt_net c"

fun obfs_ends :: "obfs_conn \<Rightarrow> obfs_conn \<Rightarrow> bool" where
  "obfs_ends (Conn_plain _) (Conn_plain _) = True"
| "obfs_ends (Conn_http a) (Conn_http b) = (hc_hasSentHeader a \<and> hc_hasRecvHeader b \<and> hc_buf b = None)"
| "obfs_ends (Conn_random_head a) (Conn_random_head b) = (rawTransSent a \<and> rawTransRecv b)"
| "obfs_ends (Conn_tls12_ticket a) (Conn_tls12_ticket b) =
     (handshakeStatus a = 8 \<and> handshakeStatus b = 8 \<and> tt_decoded b = [] \<and> tt_underDecoded b = [])"
| "obfs_ends _ _ = False"

text \<open>Writes one after the other: what they send.\<close>

fun obfs_write_all :: "obfs_conn \<Rightarrow> uint32 \<Rightarrow> rng \<Rightarrow> bytes list \<Rightarrow> bytes \<times> obfs_conn \<times> rng" where
  "obfs_write_all c now r [] = ([], c, r)"
| "obfs_write_all c now r (b # bs) =
     (case obfs_Write c now r None b of (_, c', w, r') \<Rightarrow>
        case obfs_write_all c' now r' bs of (ws, c'', r'') \<Rightarrow> (w @ ws, c'', r''))"

lemma obfs_write_all_raw:
  "fst (obfs_write_all (Conn_plain n) now r bs) = concat bs"
  "hc_hasSentHeader h \<Longrightarrow> fst (obfs_write_all (Conn_http h) now r bs) = concat bs"
  "rawTransSent g \<Longrightarrow> fst (obfs_write_all (Conn_random_head g) now r bs) = concat bs"
  by (induction bs arbitrary: r) (simp_all add: http_Write_def rh_Write_def split_beta)

lemma obfs_write_all_tls:
  "handshakeStatus a = 8 \<Longrightarrow> tt_carries (fst (obfs_write_all (Conn_tls12_ticket a) now r bs)) (concat bs)"
proof (induction bs arbitrary: r)
  case (Cons b bs)
  obtain v r1 where v: "tt_pack_loop [] b r = (v, r1)" "tt_carries v b"
    using tt_pack_loop_records[of "[]" b r] by (auto simp: tt_carries_def)
  obtain w c2 r2 where w: "obfs_write_all (Conn_tls12_ticket a) now r1 bs = (w, c2, r2)" by (rule prod_cases3)
  from Cons.IH[OF Cons.prems, of r1] w have "tt_carries w (concat bs)" by simp
  with Cons.prems v w show ?case by (simp add: tt_Write_def tt_carries_append)
qed (simp add: tt_carries_nil)

text \<open>However the network cuts what was sent, the other end is to deliver what was written.\<close>

lemma obfs_ends_pending:
  assumes ends: "obfs_ends a b" and net: "chunks_of (obfs_net b) (fst (obfs_write_all a now r ws))"
  shows "obfs_pending b (concat ws)"
proof -
  consider n m where "a = Conn_plain n" "b = Conn_plain m"
    | h g where "a = Conn_http h" "b = Conn_http g"
    | h g where "a = Conn_random_head h" "b = Conn_random_head g"
    | h g where "a = Conn_tls12_ticket h" "b = Conn_tls12_ticket g"
    using ends by (cases a; cases b) auto
  then show ?thesis
  proof cases
    case 4
    with ends have st: "handshakeStatus h = 8" "handshakeStatus g = 8" "tt_decoded g = []" "tt_underDecoded g = []"
      by simp_all
    from tt_carries_records[OF obfs_write_all_tls[OF st(1)]] have
      "tt_decode () [] (fst (obfs_write_all a now r ws)) = Ret (None, (), concat ws, [])"
      by (simp add: tt_decode_def 4)
    from tt.decodes_to_start[of chunks_of, OF net this] have "tt_pending g (concat ws)"
      unfolding tt_pending_def using st 4 by (intro conjI exI[of _ "[]"]) simp_all
    with 4 show ?thesis by simp
  qed (use ends net in \<open>auto simp: obfs_write_all_raw http_pending_def\<close>)
qed

section \<open>The handshake\<close>

text \<open>
  What a disguise takes for an answer: one with the end of a head, or with the two HMACs of the hello.
  \<open>obfs_open\<close>: both directions are open. \<open>obfs_brings\<close>: the payload of an answer \<open>x\<close> and the stream behind it.
\<close>

definition tt_answer_ok :: "obfs_Base \<times> bytes \<Rightarrow> bytes \<Rightarrow> bool" where
  "tt_answer_ok t x \<longleftrightarrow> (let n = length x; key = ob_Key (fst t) @ snd t in
     n \<ge> 76 \<and> sub 33 10 x = take 10 (HmacSHA1 key (sub 11 22 x)) \<and> drop (n - 10) x = take 10 (HmacSHA1 key (take (n - 10) x)))"

primrec obfs_answer_ok :: "obfs \<Rightarrow> bytes \<Rightarrow> bool" where
  "obfs_answer_ok Obfs_plain x = True"
| "obfs_answer_ok (Obfs_http h) x = (Index x (CRLF @ CRLF) \<noteq> None)"
| "obfs_answer_ok (Obfs_random_head b) x = True"
| "obfs_answer_ok (Obfs_tls12_ticket t) x = tt_answer_ok t x"

primrec obfs_open :: "obfs_conn \<Rightarrow> bool" where
  "obfs_open (Conn_plain net) = True"
| "obfs_open (Conn_http c) = (hc_hasSentHeader c \<and> hc_hasRecvHeader c)"
| "obfs_open (Conn_random_head c) = (rawTransSent c \<and> rawTransRecv c)"
| "obfs_open (Conn_tls12_ticket c) = (handshakeStatus c = 8)"

primrec obfs_brings :: "obfs \<Rightarrow> bytes \<Rightarrow> bytes \<Rightarrow> bytes \<Rightarrow> bool" where
  "obfs_brings Obfs_plain x s d = (d = x @ s)"
| "obfs_brings (Obfs_http h) x s d = (\<exists>pos. Index x (CRLF @ CRLF) = Some pos \<and> d = drop (pos + 4) x @ s)"
| "obfs_brings (Obfs_random_head b) x s d = (d = s)"
| "obfs_brings (Obfs_tls12_ticket t) x s d = (tt_records [] s = (None, d, []))"

lemma tls_first_Write:
  assumes "tt_Write (tt_StreamConn t net) now r None b = (res, c1, w1, r1)"
  shows "res = Inr (length b) \<and> handshakeStatus c1 = 1 \<and> tt_net c1 = net \<and> tt_Base c1 = fst t \<and> tt_clientID c1 = snd t \<and>
    tt_decoded c1 = [] \<and> tt_underDecoded c1 = []"
proof -
  define c where "c = (if length b > 0 then (tt_StreamConn t net)\<lparr>sendBuf := tt_packData (sendBuf (tt_StreamConn t net)) b\<rparr>
    else tt_StreamConn t net)"
  have c: "handshakeStatus c = 0" "tt_net c = net" "tt_Base c = fst t" "tt_clientID c = snd t" "tt_decoded c = []" "tt_underDecoded c = []"
    "handshakeStatus (tt_StreamConn t net) = 0"
    by (simp_all add: c_def tt_StreamConn_def)
  obtain hello r' where "tt_clientHello c now r = (hello, r')" by (cases "tt_clientHello c now r")
  with assms c show ?thesis unfolding tt_Write_def c_def[symmetric] Let_def by auto
qed

lemma tls_handshake:
  assumes w: "tt_Write (tt_StreamConn t (Inr x # net)) now r None b = (res, c1, w1, r1)"
    and x: "tt_answer_ok t x" "length x \<le> RelayBufferSize"
  shows "\<exists>c2 w2 r2. tt_Read c1 now r1 None m = Ret (Inr [], c2, w2, r2) \<and> handshakeStatus c2 = 8 \<and> tt_net c2 = net \<and>
    tt_decoded c2 = [] \<and> tt_underDecoded c2 = []"
proof -
  have c1: "handshakeStatus c1 = 1" "tt_net c1 = Inr x # net" "tt_Base c1 = fst t" "tt_clientID c1 = snd t"
    "tt_decoded c1 = []" "tt_underDecoded c1 = []"
    using tls_first_Write[OF w] by simp_all
  let ?c = "c1\<lparr>tt_net := net\<rparr>"
  have key: "take 10 (tt_hmacSHA1 ?c y) = take 10 (HmacSHA1 (ob_Key (fst t) @ snd t) y)" for y
    using c1 by (simp add: tt_hmacSHA1_def)
  have ok: "length x \<ge> 76" "sub 33 10 x = take 10 (tt_hmacSHA1 ?c (sub 11 22 x))"
    "drop (length x - 10) x = take 10 (tt_hmacSHA1 ?c (take (length x - 10) x))"
    using x(1) by (simp_all add: tt_answer_ok_def key Let_def)
  obtain res' c2 w2 r2 where f: "tt_Write ?c now r1 None [] = (res', c2, w2, r2)" by (rule prod_cases4)
  then have "handshakeStatus c2 = 8" "tt_net c2 = net" "tt_decoded c2 = []" "tt_underDecoded c2 = []"
    using c1 by (auto simp: tt_Write_def Let_def split: prod.splits)
  moreover have "tt_Read c1 now r1 None m = Ret (Inr [], c2, w2, r2)"
    using c1 x(2) ok f by (simp add: tt_Read_def Let_def)
  ultimately show ?thesis by blast
qed

section \<open>Properties\<close>

text \<open>
  C14: Through every disguise whose handshake is over, any sequence of reads delivers, without error or
  panic, exactly the bytes under the disguise in order, and blocks only when all are delivered.
\<close>

theorem obfs_transparent:
  assumes "obfs_pending c s"
  shows "(\<exists>x t c'. reads (obfs_app_Read now r) c ms = Ret (x, None, c') \<and> s = x @ t \<and> obfs_pending c' t) \<or>
    (reads (obfs_app_Read now r) c ms = Hang \<and>
      (\<exists>ms1 ms2 c'. ms = ms1 @ ms2 \<and> reads (obfs_app_Read now r) c ms1 = Ret (s, None, c')))"
  using obfs.reads_deliver[OF assms] .

theorem obfs_transparent_witness:
  "\<exists>c'. reads (obfs_app_Read 0 \<lparr>draws = \<lambda>n. n, rpos = 0\<rparr>) (Conn_plain [Inr [1, 2], Inr [3]]) [1, 4, 4] =
     Ret ([1, 2, 3], None, c') \<and> obfs_pending c' []"
proof -
  let ?c = "Conn_plain [Inr [1, 2], Inr [3]]"
  have "obfs_pending ?c [1, 2, 3]" by (simp add: chunks_of_Cons)
  from obfs_transparent[OF this, of 0 "\<lparr>draws = \<lambda>n. n, rpos = 0\<rparr>" "[1, 4, 4]"] show ?thesis
    by (auto simp: obfs_app_Read_def)
qed

text \<open>
  C13: One write and one read that brings an answer open every disguise: from a new connection, whatever is
  written first, the write takes all of it, the read does not fail, and then both directions are open and
  the reads to come deliver exactly the payload of the answer and of what follows it.
\<close>

theorem obfs_handshake:
  assumes w: "obfs_Write (obfs_StreamConn d (Inr x # net)) now r None b = (res, c1, w1, r1)"
    and x: "obfs_answer_ok d x" "length x \<le> RelayBufferSize" and net: "chunks_of net s" "obfs_brings d x s data"
  shows "res = (length b, None) \<and> (\<exists>y c2 w2 r2 t. obfs_Read c1 now r1 None m = Ret (Inr y, c2, w2, r2) \<and> obfs_open c2 \<and>
    data = y @ t \<and> obfs_pending c2 t)"
proof (cases d)
  case Obfs_plain
  have "chunks_of (Inr x # net) data" using net Obfs_plain by (simp add: chunks_of_Cons)
  moreover have "net_read m (Inr x # net) \<noteq> Hang" by simp
  ultimately obtain y t n where "net_read m (Inr x # net) = Ret (Inr y, n)" "data = y @ t" "chunks_of n t"
    using net.read_step[of "Inr x # net" data m] by blast
  with w Obfs_plain show ?thesis by (auto simp del: net_read.simps)
next
  case (Obfs_http h)
  obtain res1 c' w' r' where e: "http_Write (http_StreamConn h (Inr x # net)) r None b = (res1, c', w', r')" by (rule prod_cases4)
  then have c': "hc_hasSentHeader c'" "hc_net c' = Inr x # net" "hc_buf c' = None" "\<not> hc_hasRecvHeader c'" "res1 = Inr (length b)"
    by (auto simp: http_Write_def http_StreamConn_def Let_def split: prod.splits)
  have c1: "c1 = Conn_http c'" "res = (length b, None)" using w Obfs_http e c' by simp_all
  obtain pos where pos: "Index x (CRLF @ CRLF) = Some pos" "data = drop (pos + 4) x @ s" using net(2) Obfs_http by auto
  have "http_pending c' data" unfolding http_pending_def using c' pos x(2) net(1) by auto
  from http.read_step[OF this, of m] have r: "\<exists>y t c2. http_Read c' m = Ret (Inr y, c2) \<and> data = y @ t \<and> http_pending c2 t"
    using c' pos x(2) by (auto simp: http_Read_def Let_def)
  moreover have "hc_hasSentHeader c2 \<and> hc_hasRecvHeader c2" if "http_Read c' m = Ret (Inr y, c2)" for y c2
    using that c' pos x(2) by (auto simp: http_Read_def Let_def split: if_splits)
  ultimately show ?thesis using c1 by fastforce
next
  case (Obfs_random_head h)
  then show ?thesis using w x(2) net
    by (auto simp: rh_Write_def rh_StreamConn_def rh_Read_def Let_def split: prod.splits)
next
  case (Obfs_tls12_ticket t)
  obtain res1 c' w' r' where e: "tt_Write (tt_StreamConn t (Inr x # net)) now r None b = (res1, c', w', r')" by (rule prod_cases4)
  then have res1: "res1 = Inr (length b)" using tls_first_Write by blast
  have c1: "c1 = Conn_tls12_ticket c'" "r1 = r'" "res = (length b, None)" using w Obfs_tls12_ticket e res1 by simp_all
  have "tt_answer_ok t x" using x(1) Obfs_tls12_ticket by simp
  from tls_handshake[OF e this x(2), of m] obtain c2 w2 r2 where c2: "tt_Read c' now r' None m = Ret (Inr [], c2, w2, r2)"
    "handshakeStatus c2 = 8" "tt_net c2 = net" "tt_decoded c2 = []" "tt_underDecoded c2 = []" by blast
  have "tt_decode () [] s = Ret (None, (), data, [])" using net(2) Obfs_tls12_ticket by (simp add: tt_decode_def)
  from tt.decodes_to_start[of chunks_of, OF net(1) this] have "tt_pending c2 data"
    unfolding tt_pending_def using c2 by (intro conjI exI[of _ "[]"]) simp_all
  then show ?thesis using c1 c2 by simp
qed

theorem obfs_handshake_witness:
  "\<exists>c1 w1 r1 c2 w2 r2. obfs_Write (obfs_StreamConn (Obfs_random_head \<lparr>Host = [104], Port = 443, ob_Key = [1], IVSize = 16, ob_Param = []\<rparr>)
       [Inr [1, 2], Inr [3]]) 0 \<lparr>draws = \<lambda>n. n, rpos = 0\<rparr> None [7] = ((1, None), c1, w1, r1) \<and>
     obfs_Read c1 0 r1 None 4 = Ret (Inr [], c2, w2, r2) \<and> obfs_open c2 \<and> obfs_pending c2 [3]"
proof -
  let ?b = "\<lparr>Host = [104], Port = 443, ob_Key = [1], IVSize = 16, ob_Param = []\<rparr>" let ?r = "\<lparr>draws = \<lambda>n. n, rpos = 0\<rparr>"
  let ?c = "obfs_StreamConn (Obfs_random_head ?b) [Inr [1, 2], Inr [3]]"
  obtain res c1 w1 r1 where w: "obfs_Write ?c 0 ?r None [7] = (res, c1, w1, r1)" by (rule prod_cases4)
  have x: "obfs_answer_ok (Obfs_random_head ?b) [1, 2]" "length [1, 2 :: byte] \<le> RelayBufferSize" "chunks_of [Inr [3]] [3]"
    "obfs_brings (Obfs_random_head ?b) [1, 2] [3] [3]" by (simp_all add: RelayBufferSize_def chunks_of_Cons)
  from obfs_handshake[OF w x, of 4] obtain y c2 w2 r2 t where "res = (1, None)" and
    c2: "obfs_Read c1 0 r1 None 4 = Ret (Inr y, c2, w2, r2)" "obfs_open c2" "[3] = y @ t" "obfs_pending c2 t" by auto
  moreover have "y = []" using w c2(1)
    by (auto simp: rh_Write_def rh_StreamConn_def rh_Read_def RelayBufferSize_def Let_def split: prod.splits)
  ultimately show ?thesis using w by auto
qed

end
