(* ===== verification/Protocol_Base.thy ===== *)
theory Protocol_Base
  imports Crypto Go_Text
begin

text \<open>
  What the ShadowsocksR protocols share: \<^verbatim>\<open>protocol/base.go\<close> (connection identities and
  key derivation), the helpers of \<^verbatim>\<open>protocol/protocol.go\<close>, and the two loops their
  \<^verbatim>\<open>Decode\<close> and \<^verbatim>\<open>Encode\<close> methods are instances of. The interfaces
  \<open>frame_decoder\<close> and \<open>frame_pair\<close> state what one round of those loops promises; the lemmas
  about whole streams are proved from the promises once and hold of every protocol.
\<close>

section \<open>Errors\<close>

text \<open>The errors of \<^verbatim>\<open>protocol.go\<close>, and the one of \<^verbatim>\<open>rc4.NewCipher\<close>.\<close>

datatype protocol_error =
  errAuthSHA1V4CRC32Error | errAuthSHA1V4LengthError | errAuthSHA1V4Adler32Error |
  errAuthAES128MACError | errAuthAES128LengthError | errAuthAES128ChksumError |
  errAuthChainLengthError | errAuthChainChksumError | errRC4KeySize

section \<open>base.go\<close>

record Base =
  Key :: bytes
  Overhead :: nat
  Param :: bytes

record userData =
  userKey :: bytes
  userID :: bytes

record authData =
  clientID :: bytes
  connectionID :: uint32

definition new_authData :: authData where
  "new_authData = \<lparr>clientID = replicate 4 0, connectionID = 0\<rparr>"

text \<open>
  \<open>next\<close>: the identity for a new connection and the updated shared record. A counter that is
  exhausted (or was never set) is drawn anew together with the client id.
\<close>

definition authData_next :: "authData \<Rightarrow> rng \<Rightarrow> authData \<times> authData \<times> rng" where
  "authData_next a r =
     (let (a1, r1) =
        (if connectionID a > 0xff000000 \<or> connectionID a = 0
         then (case rand_bytes 4 r of (cid, r') \<Rightarrow>
                case Uint32 r' of (u, r'') \<Rightarrow>
                  (\<lparr>clientID = cid, connectionID = u AND 0xffffff\<rparr>, r''))
         else (a, r));
        a2 = a1\<lparr>connectionID := connectionID a1 + 1\<rparr>
      in (\<lparr>clientID = clientID a2, connectionID = connectionID a2\<rparr>, a2, r1))"

text \<open>\<open>now\<close> is \<^verbatim>\<open>uint32(time.Now().Unix())\<close>.\<close>

definition putAuthData :: "authData \<Rightarrow> uint32 \<Rightarrow> bytes \<Rightarrow> bytes" where
  "putAuthData a now buf = buf @ le32 now @ clientID a @ le32 (connectionID a)"

text \<open>The key derivation: digests of the previous digest and the password, concatenated.\<close>

function kdf_loop :: "bytes \<Rightarrow> nat \<Rightarrow> bytes \<Rightarrow> bytes \<Rightarrow> bytes" where
  "kdf_loop password keyLen b prev =
     (if length b < keyLen
      then let b' = b @ MD5Sum (prev @ password)
           in kdf_loop password keyLen b' (drop (length b' - 16) b')
      else b)"
  by pat_completeness auto
termination
  by (relation "measure (\<lambda>(p, n, b, prev). n - length b)") auto

declare kdf_loop.simps [simp del]

definition kdf :: "bytes \<Rightarrow> nat \<Rightarrow> bytes" where
  "kdf password keyLen = take keyLen (kdf_loop password keyLen [] [])"

lemma kdf_loop_length: "keyLen \<le> length (kdf_loop password keyLen b prev)"
proof (induction password keyLen b prev rule: kdf_loop.induct)
  case (1 password keyLen b prev)
  then show ?case
    by (cases "length b < keyLen") (simp_all add: kdf_loop.simps[of password keyLen b prev] Let_def)
qed

lemma length_kdf [simp, wire_length]: "length (kdf password keyLen) = keyLen"
  using kdf_loop_length by (simp add: kdf_def)

text \<open>
  \<open>putEncryptedData\<close>: sixteen bytes, written field by field into a pooled buffer whose stale
  contents are the argument \<open>junk\<close>, encrypted and appended. \<open>None\<close> is the error return.
\<close>

definition auth_block :: "bytes \<Rightarrow> authData \<Rightarrow> uint32 \<Rightarrow> nat \<times> nat \<Rightarrow> bytes" where
  "auth_block junk a now paddings =
     copy_at 14 (le16 (of_nat (snd paddings))) (copy_at 12 (le16 (of_nat (fst paddings)))
       (copy_at 8 (le32 (connectionID a)) (copy_at 4 (clientID a) (copy_at 0 (le32 now) junk))))"

definition putEncryptedData ::
  "authData \<Rightarrow> bytes \<Rightarrow> uint32 \<Rightarrow> bytes \<Rightarrow> nat \<times> nat \<Rightarrow> bytes \<Rightarrow> bytes option" where
  "putEncryptedData a b now ukey paddings salt =
     (let encrypt = auth_block (replicate 16 0) a now paddings;
          cipherKey = kdf (b64_encode ukey @ salt) 16
      in case aes_cbc_zero_iv cipherKey encrypt of None \<Rightarrow> None | Some c \<Rightarrow> Some (b @ c))"

lemma auth_block_no_junk:
  assumes "length junk = 16" "length (clientID a) = 4"
  shows "auth_block junk a now p = le32 now @ clientID a @ le32 (connectionID a) @
    le16 (of_nat (fst p)) @ le16 (of_nat (snd p))"
  using assms by (simp add: auth_block_def copy_at_def)

lemma putEncryptedData_Some:
  "\<exists>c. putEncryptedData a b now ukey p salt = Some (b @ c) \<and> length c = 16 \<and>
     (\<forall>b'. putEncryptedData a b' now ukey p salt = Some (b' @ c))"
  by (simp add: putEncryptedData_def aes_cbc_zero_iv_def Let_def length_aes128_block)

section \<open>Protocol parameters\<close>

text \<open>
  \<open>initUserData\<close> of the protocols: user id and key from the parameter \<^verbatim>\<open>uid:key\<close>, the key
  digested as the protocol has it; without them the connection's key and a random id.
\<close>

definition initUserData :: "(bytes \<Rightarrow> bytes) \<Rightarrow> Base \<Rightarrow> rng \<Rightarrow> userData \<times> rng" where
  "initUserData digest b r =
     (let zero = \<lparr>userKey = [], userID = replicate 4 0\<rparr>;
          u = (case split_at 58 (Param b) of
                 p0 # p1 # _ \<Rightarrow>
                   (case ParseUint32 p0 of
                      Some uid \<Rightarrow> \<lparr>userKey = digest p1, userID = le32 uid\<rparr>
                    | None \<Rightarrow> zero)
               | _ \<Rightarrow> zero)
      in if length (userKey u) = 0
         then (case rand_bytes 4 r of (uid, r') \<Rightarrow> (\<lparr>userKey = Key b, userID = uid\<rparr>, r'))
         else (u, r))"

lemma initUserData_id: "initUserData digest b r = (u, r') \<Longrightarrow> length (userID u) = 4"
  by (auto simp: initUserData_def Let_def length_rand_bytes'
      split: list.splits option.splits prod.splits if_splits)

section \<open>protocol.go\<close>

text \<open>The length of the address header at the front of the first data, by its type byte.\<close>

definition getHeadSize :: "bytes \<Rightarrow> nat \<Rightarrow> nat" where
  "getHeadSize b defaultValue =
     (if length b < 2 then defaultValue
      else let headType = b ! 0 AND 7 in
        if headType = 1 then 7
        else if headType = 4 then 19
        else if headType = 3 then 4 + unat (b ! 1)
        else defaultValue)"

definition getDataLength :: "bytes \<Rightarrow> rng \<Rightarrow> nat \<times> rng" where
  "getDataLength b r =
     (case Intn 32 r of (k, r') \<Rightarrow>
        let dataLength = getHeadSize b 30 + k
        in (if length b < dataLength then length b else dataLength, r'))"

lemma getDataLength_le: "getDataLength b r = (n, r') \<Longrightarrow> n \<le> length b"
  by (auto simp: getDataLength_def Let_def split: prod.splits if_splits)

lemma getHeadSize_bound: "getHeadSize b 30 \<le> 259"
proof -
  have "unat (x :: byte) \<le> 255" for x using unat_byte_less[of x] by linarith
  then show ?thesis by (auto simp: getHeadSize_def Let_def)
qed

lemma getDataLength_pos: "getDataLength b r = (n, r') \<Longrightarrow> b \<noteq> [] \<Longrightarrow> 0 < n"
  by (auto simp: getDataLength_def getHeadSize_def Let_def split: prod.splits if_splits)

lemma getDataLength_two: "getDataLength b r = (n, r') \<Longrightarrow> 2 \<le> length b \<Longrightarrow> 2 \<le> n"
  by (auto simp: getDataLength_def getHeadSize_def Let_def split: prod.splits if_splits)

text \<open>The first packet carries at most 290 bytes of data, and all of it when there is less.\<close>

lemma getDataLength_bound: "getDataLength b r = (n, r') \<Longrightarrow> n \<le> 290"
proof -
  assume g: "getDataLength b r = (n, r')"
  obtain k r1 where k: "Intn 32 r = (k, r1)" by (cases "Intn 32 r")
  then have "k < 32" by (rule Intn_less') simp
  with g k getHeadSize_bound[of b] show ?thesis
    by (auto simp: getDataLength_def Let_def split: if_splits)
qed

section \<open>The padding prefix\<close>

text \<open>
  The three stream protocols write padding as a length and random bytes. Its length on the wire,
  given the length \<open>n\<close> of the padding: one byte of prefix below 128, three from there on.
\<close>

definition padded :: "nat \<Rightarrow> nat" where
  "padded n = (if n < 128 then n + 1 else n + 3)"

text \<open>Where the parts of a frame are: length, check, padding, data and a tag of four bytes.\<close>

lemma frame_cut:
  assumes "length h = 2" "length c = 2" "length p = m" "length tag = 4"
    and "w = h @ c @ p @ data @ tag" "len = 8 + m + length data"
  shows "take 2 w = h" "sub 2 2 w = c" "length w = len" "take (len - 4) w = h @ c @ p @ data"
    "sub (len - 4) 4 w = tag" "slice (4 + m) (len - 4) w = Some data"
  using assms by (auto simp: slice_def)

section \<open>The loop of Decode\<close>

text \<open>
  One round of a \<^verbatim>\<open>Decode\<close> loop looks at the front of \<^verbatim>\<open>src\<close>. It waits for more input
  (\<^verbatim>\<open>break\<close>), fails with an error (after \<^verbatim>\<open>src.Reset()\<close>), panics, or emits a payload
  and the number of bytes it takes from the front.
\<close>

datatype 'st step =
  Wait 'st | Fail protocol_error 'st | Crash | Frame 'st bytes nat

text \<open>
  The loop itself, \<^verbatim>\<open>for src.Len() > 4\<close>. The result is the error if any, the state, and
  what \<^verbatim>\<open>dst\<close> and \<^verbatim>\<open>src\<close> hold afterwards. A round that took nothing would spin:
  the protocols never do, by \<open>frame_consumes\<close> below.
\<close>

function decode_loop ::
  "('st \<Rightarrow> bytes \<Rightarrow> 'st step) \<Rightarrow> 'st \<Rightarrow> bytes \<Rightarrow> bytes \<Rightarrow>
     (protocol_error option \<times> 'st \<times> bytes \<times> bytes) go" where
  "decode_loop body st dst src =
     (if length src > 4
      then (case body st src of
              Wait st' \<Rightarrow> Ret (None, st', dst, src)
            | Fail e st' \<Rightarrow> Ret (Some e, st', dst, [])
            | Crash \<Rightarrow> Panic
            | Frame st' out n \<Rightarrow>
                if n = 0 then Hang else decode_loop body st' (dst @ out) (drop n src))
      else Ret (None, st, dst, src))"
  by pat_completeness auto
termination
  by (relation "measure (\<lambda>(body, st, dst, src). length src)") auto

declare decode_loop.simps [simp del]

lemma decode_loop_short [simp]: "length src \<le> 4 \<Longrightarrow> decode_loop body st dst src = Ret (None, st, dst, src)"
  by (simp add: decode_loop.simps)

lemma decode_loop_Wait:
  "4 < length src \<Longrightarrow> body st src = Wait st' \<Longrightarrow> decode_loop body st dst src = Ret (None, st', dst, src)"
  by (simp add: decode_loop.simps)

lemma decode_loop_Fail:
  "4 < length src \<Longrightarrow> body st src = Fail e st' \<Longrightarrow> decode_loop body st dst src = Ret (Some e, st', dst, [])"
  by (simp add: decode_loop.simps)

lemma decode_loop_Crash:
  "4 < length src \<Longrightarrow> body st src = Crash \<Longrightarrow> decode_loop body st dst src = Panic"
  by (simp add: decode_loop.simps)

lemma decode_loop_Frame:
  "4 < length src \<Longrightarrow> body st src = Frame st' out n \<Longrightarrow> 0 < n \<Longrightarrow>
   decode_loop body st dst src = decode_loop body st' (dst @ out) (drop n src)"
  by (simp add: decode_loop.simps)

lemmas decode_loop_rules =
  decode_loop_Wait decode_loop_Fail decode_loop_Crash decode_loop_Frame

text \<open>A \<^verbatim>\<open>Decode\<close> method: raw transmission copies, otherwise the loop runs.\<close>

definition decode_with ::
  "('st \<Rightarrow> bool) \<Rightarrow> ('st \<Rightarrow> bytes \<Rightarrow> 'st step) \<Rightarrow> 'st \<Rightarrow> bytes \<Rightarrow> bytes \<Rightarrow>
     (protocol_error option \<times> 'st \<times> bytes \<times> bytes) go" where
  "decode_with raw body st dst src =
     (if raw st then Ret (None, st, dst @ src, []) else decode_loop body st dst src)"

text \<open>What is in \<^verbatim>\<open>dst\<close> already stays in front of what is decoded.\<close>

lemma decode_loop_prefix:
  "decode_loop body st (pre @ dst) s =
     go_bind (decode_loop body st dst s) (\<lambda>(e, st', out, r). Ret (e, st', pre @ out, r))"
proof (induction body st dst s rule: decode_loop.induct)
  case (1 body st dst s)
  show ?case
  proof (cases "4 < length s")
    case True
    show ?thesis
    proof (cases "body st s")
      case (Frame st' out n)
      with 1[OF True Frame] True show ?thesis by (simp add: decode_loop.simps[of body st _ s])
    qed (use True in \<open>simp_all add: decode_loop_rules\<close>)
  qed simp
qed

lemma decode_with_prefix:
  "decode_with raw body st (pre @ dst) s =
     go_bind (decode_with raw body st dst s) (\<lambda>(e, st', out, r). Ret (e, st', pre @ out, r))"
  by (simp add: decode_with_def decode_loop_prefix)

text \<open>
  What a round promises. It takes at least one byte and no more than there are; what it decides
  on the input at hand it also decides when more input follows; and a round that waits has
  changed nothing the retried round can see.
\<close>

locale frame_decoder =
  fixes body :: "'st \<Rightarrow> bytes \<Rightarrow> 'st step"
    and raw :: "'st \<Rightarrow> bool"
  assumes frame_consumes: "4 < length s \<Longrightarrow> body st s = Frame st' out n \<Longrightarrow> 0 < n \<and> n \<le> length s"
    and stable: "4 < length s \<Longrightarrow> (\<And>st'. body st s \<noteq> Wait st') \<Longrightarrow> body st (s @ t) = body st s"
    and wait_resume: "4 < length s \<Longrightarrow> body st s = Wait st' \<Longrightarrow> body st' (s @ t) = body st (s @ t)"
    and frame_raw: "4 < length s \<Longrightarrow> body st s = Frame st' out n \<Longrightarrow> raw st' = raw st"
    and wait_raw: "4 < length s \<Longrightarrow> body st s = Wait st' \<Longrightarrow> raw st' = raw st"
begin

lemmas loop_Wait = decode_loop_Wait[where body = body]
lemmas loop_Fail = decode_loop_Fail[where body = body]
lemmas loop_Crash = decode_loop_Crash[where body = body]
lemmas loop_Frame = decode_loop_Frame[where body = body]
lemmas loop_rules = loop_Wait loop_Fail loop_Crash loop_Frame

text \<open>Decoding a stream in two pieces is decoding it at once.\<close>

lemma decode_loop_append:
  "decode_loop body st dst (s @ t) =
     go_bind (decode_loop body st dst s)
       (\<lambda>(e, st', dst', r). case e of
          None \<Rightarrow> decode_loop body st' dst' (r @ t)
        | Some _ \<Rightarrow> Ret (e, st', dst', []))"
proof (induction "length s" arbitrary: s st dst rule: less_induct)
  case less
  show ?case
  proof (cases "4 < length s")
    case long: True
    then have long': "4 < length (s @ t)" by simp
    show ?thesis
    proof (cases "body st s")
      case (Wait st')
      from wait_resume[OF long Wait] long' have
        "decode_loop body st' dst (s @ t) = decode_loop body st dst (s @ t)"
        by (simp add: decode_loop.simps[of _ _ _ "s @ t"])
      with loop_Wait[OF long Wait] show ?thesis by simp
    next
      case (Fail e st')
      with stable[OF long, of st t] have "body st (s @ t) = Fail e st'" by simp
      from loop_Fail[OF long' this] loop_Fail[OF long Fail] show ?thesis by simp
    next
      case Crash
      with stable[OF long, of st t] have "body st (s @ t) = Crash" by simp
      from loop_Crash[OF long' this] loop_Crash[OF long Crash] show ?thesis by simp
    next
      case (Frame st' out n)
      with stable[OF long, of st t] have f: "body st (s @ t) = Frame st' out n" by simp
      from frame_consumes[OF long Frame] have n: "0 < n" "n \<le> length s" by auto
      from n long have "length (drop n s) < length s" by simp
      from less[OF this, of st' "dst @ out"] n
      show ?thesis
        unfolding loop_Frame[OF long Frame n(1)] loop_Frame[OF long' f n(1)] by simp
    qed
  qed simp
qed

text \<open>Induction along the rounds of the loop, for facts that hold of every way it can end.\<close>

lemma decode_loop_rounds [consumes 1, case_names Short Wait Fail Frame]:
  assumes run: "decode_loop body st dst s = Ret res"
    and short: "\<And>st dst s. length s \<le> 4 \<Longrightarrow> P st dst s (None, st, dst, s)"
    and wait: "\<And>st dst s st'. 4 < length s \<Longrightarrow> body st s = Wait st' \<Longrightarrow> P st dst s (None, st', dst, s)"
    and fail: "\<And>st dst s st' e. 4 < length s \<Longrightarrow> body st s = Fail e st' \<Longrightarrow> P st dst s (Some e, st', dst, [])"
    and frame: "\<And>st dst s st' out n res. 4 < length s \<Longrightarrow> body st s = Frame st' out n \<Longrightarrow>
       0 < n \<Longrightarrow> n \<le> length s \<Longrightarrow> P st' (dst @ out) (drop n s) res \<Longrightarrow> P st dst s res"
  shows "P st dst s res"
  using run
proof (induction "length s" arbitrary: s st dst rule: less_induct)
  case less
  show ?case
  proof (cases "4 < length s")
    case False
    with less.prems short show ?thesis by auto
  next
    case long: True
    show ?thesis
    proof (cases "body st s")
      case (Wait st')
      with less.prems long have "res = (None, st', dst, s)" by (simp add: loop_Wait)
      with wait[OF long Wait] show ?thesis by simp
    next
      case (Fail e st')
      with less.prems long have "res = (Some e, st', dst, [])" by (simp add: loop_Fail)
      with fail[OF long Fail] show ?thesis by simp
    next
      case Crash
      with less.prems long show ?thesis by (simp add: loop_Crash)
    next
      case (Frame st' out n)
      from frame_consumes[OF long Frame] have n: "0 < n" "n \<le> length s" by auto
      from less.prems have "decode_loop body st' (dst @ out) (drop n s) = Ret res"
        unfolding loop_Frame[OF long Frame n(1)] .
      with less.hyps[of "drop n s" st' "dst @ out"] n long
      have "P st' (dst @ out) (drop n s) res" by simp
      from frame[OF long Frame n this] show ?thesis .
    qed
  qed
qed

lemma decode_loop_returns: "decode_loop body st dst s \<noteq> Hang"
proof (induction "length s" arbitrary: s st dst rule: less_induct)
  case less
  show ?case
  proof (cases "4 < length s")
    case long: True
    show ?thesis
    proof (cases "body st s")
      case (Frame st' out n)
      from frame_consumes[OF long Frame] have n: "0 < n" "n \<le> length s" by auto
      from n long have "length (drop n s) < length s" by simp
      from less[OF this] show ?thesis unfolding loop_Frame[OF long Frame n(1)] .
    qed (use long in \<open>simp_all add: loop_rules\<close>)
  qed simp
qed

lemma decode_loop_raw:
  "decode_loop body st dst s = Ret (None, st', dst', r) \<Longrightarrow> raw st' = raw st"
proof -
  have "raw (fst (snd res)) = raw st" if "decode_loop body st dst s = Ret res" "fst res = None" for res
    using that by (induction rule: decode_loop_rounds) (auto simp: frame_raw wait_raw)
  then show "decode_loop body st dst s = Ret (None, st', dst', r) \<Longrightarrow> raw st' = raw st"
    by fastforce
qed

text \<open>The same of a whole \<^verbatim>\<open>Decode\<close>.\<close>

lemma decode_append:
  "decode_with raw body st dst (s @ t) =
     go_bind (decode_with raw body st dst s)
       (\<lambda>(e, st', dst', r). case e of
          None \<Rightarrow> decode_with raw body st' dst' (r @ t)
        | Some _ \<Rightarrow> Ret (e, st', dst', []))"
proof (cases "raw st")
  case False
  have "go_bind (decode_loop body st dst s)
       (\<lambda>(e, st', dst', r). case e of
          None \<Rightarrow> decode_with raw body st' dst' (r @ t) | Some _ \<Rightarrow> Ret (e, st', dst', [])) =
     go_bind (decode_loop body st dst s)
       (\<lambda>(e, st', dst', r). case e of
          None \<Rightarrow> decode_loop body st' dst' (r @ t) | Some _ \<Rightarrow> Ret (e, st', dst', []))"
    using False
    by (intro go_bind_cong) (auto simp: decode_with_def dest!: decode_loop_raw split: option.split)
  with False show ?thesis by (simp add: decode_with_def decode_loop_append)
qed (simp add: decode_with_def)

lemma decode_returns: "decode_with raw body st dst s \<noteq> Hang"
  by (simp add: decode_with_def decode_loop_returns)

end

section \<open>The loop of Encode\<close>

text \<open>
  \<^verbatim>\<open>for len(b) > limit { pack(b[:limit]); b = b[limit:] }\<close> and the rest. A pack function
  appends to the buffer, may change the data it is given in place, and may panic; the third result
  is what the caller's slice holds afterwards.
\<close>

function encode_loop ::
  "nat \<Rightarrow> ('s \<Rightarrow> bytes \<Rightarrow> bytes \<Rightarrow> ('s \<times> bytes \<times> bytes) go) \<Rightarrow> 's \<Rightarrow> bytes \<Rightarrow> bytes \<Rightarrow>
     ('s \<times> bytes \<times> bytes) go" where
  "encode_loop limit pack s buf b =
     (if 0 < limit \<and> limit < length b
      then go_bind (pack s buf (take limit b)) (\<lambda>(s', buf', x).
             go_bind (encode_loop limit pack s' buf' (drop limit b)) (\<lambda>(s'', buf'', y).
               Ret (s'', buf'', x @ y)))
      else if 0 < length b then pack s buf b
      else Ret (s, buf, b))"
  by pat_completeness auto
termination
  by (relation "measure (\<lambda>(limit, pack, s, buf, b). length b)") auto

declare encode_loop.simps [simp del]

lemma encode_loop_step:
  assumes "0 < limit" "limit < length b" "pack s buf (take limit b) = Ret (s1, buf1, x)"
    "encode_loop limit pack s1 buf1 (drop limit b) = Ret (s2, buf2, y)"
  shows "encode_loop limit pack s buf b = Ret (s2, buf2, x @ y)"
  using assms by (simp add: encode_loop.simps[of limit pack s buf b])

lemma encode_loop_last:
  "0 < length b \<Longrightarrow> length b \<le> limit \<Longrightarrow> encode_loop limit pack s buf b = pack s buf b"
  by (simp add: encode_loop.simps)

lemma encode_loop_nil [simp]: "encode_loop limit pack s buf [] = Ret (s, buf, [])"
  by (simp add: encode_loop.simps)

text \<open>What one packing keeps, the loop keeps; a packer that spares its data spares the slice.\<close>

lemma encode_loop_inv:
  assumes run: "encode_loop limit pack s buf b = Ret (s', buf', b')" and inv: "I s"
    and step: "\<And>s buf x s' buf' x'. I s \<Longrightarrow> pack s buf x = Ret (s', buf', x') \<Longrightarrow> I s' \<and> (keep \<longrightarrow> x' = x)"
  shows "I s' \<and> (keep \<longrightarrow> b' = b)"
  using run inv
proof (induction "length b" arbitrary: b s buf b' rule: less_induct)
  case less
  show ?case
  proof (cases "0 < limit \<and> limit < length b")
    case True
    with less.prems(1) obtain s1 buf1 x1 y2 where p: "pack s buf (take limit b) = Ret (s1, buf1, x1)"
      "encode_loop limit pack s1 buf1 (drop limit b) = Ret (s', buf', y2)" "b' = x1 @ y2"
      by (auto simp: encode_loop.simps[of limit pack s buf b] go_bind_Ret_iff)
    from step[OF less.prems(2) p(1)] have x: "I s1" "keep \<longrightarrow> x1 = take limit b" by auto
    from True have "0 < limit" "limit < length b" by auto
    then have "length (drop limit b) < length b" by simp
    from less.hyps[OF this p(2) x(1)] p(3) x show ?thesis by auto
  next
    case False
    with less.prems step show ?thesis
      by (auto simp: encode_loop.simps[of limit pack s buf b] split: if_splits)
  qed
qed

text \<open>The frames one call makes: one for each block of \<open>limit\<close> bytes.\<close>

definition nframes :: "nat \<Rightarrow> bytes \<Rightarrow> nat" where
  "nframes limit b = length (blocks_of limit b)"

lemma nframes_step: "0 < limit \<Longrightarrow> limit < length b \<Longrightarrow> nframes limit b = Suc (nframes limit (drop limit b))"
  by (auto simp: nframes_def blocks_of.simps[of limit b])

lemma nframes_last: "0 < length b \<Longrightarrow> length b \<le> limit \<Longrightarrow> nframes limit b = 1"
proof -
  assume b: "0 < length b" "length b \<le> limit"
  then have "0 < limit" by linarith
  with b have "blocks_of limit b = [b]"
    by (subst blocks_of.simps) (auto simp: blocks_of.simps[of limit "[]"])
  then show ?thesis by (simp add: nframes_def)
qed

lemma nframes_nil [simp]: "nframes limit [] = 0"
  by (simp add: nframes_def blocks_of.simps)

lemma nframes_le: "nframes limit b \<le> length b"
proof (induction limit b rule: blocks_of.induct)
  case (1 n xs)
  show ?case
  proof (cases "xs = [] \<or> n = 0")
    case False
    then have "length (blocks_of n (drop n xs)) \<le> length xs - n" using 1 by (simp add: nframes_def)
    moreover have "0 < length xs" "0 < n" using False by auto
    ultimately have "Suc (length (blocks_of n (drop n xs))) \<le> length xs" by linarith
    then show ?thesis using False by (simp add: nframes_def blocks_of.simps[of n xs])
  qed (auto simp: nframes_def blocks_of.simps)
qed

text \<open>
  A packer and a decoder in step: \<open>sync k\<close> says that they are, for at least \<open>k\<close> more frames.
  Packing at most \<open>limit\<close> bytes in step returns, and appends a frame the decoder takes back to
  exactly those bytes; then the two are in step again.
\<close>

locale frame_pair = frame_decoder body raw
  for body :: "'st \<Rightarrow> bytes \<Rightarrow> 'st step" and raw :: "'st \<Rightarrow> bool" +
  fixes pack :: "'s \<Rightarrow> bytes \<Rightarrow> bytes \<Rightarrow> ('s \<times> bytes \<times> bytes) go"
    and sync :: "nat \<Rightarrow> 's \<Rightarrow> 'st \<Rightarrow> bool"
    and limit :: nat
  assumes limit_pos: "0 < limit"
    and pack_frame: "sync (Suc k) s d \<Longrightarrow> 0 < length x \<Longrightarrow> length x \<le> limit \<Longrightarrow>
      \<exists>s' f x' d'. pack s buf x = Ret (s', buf @ f, x') \<and> 4 < length f \<and> sync k s' d' \<and>
        body d f = Frame d' x (length f)"
begin

lemma frame_taken:
  assumes "4 < length f" "body d f = Frame d' x (length f)"
  shows "decode_loop body d dst (f @ t) = decode_loop body d' (dst @ x) t"
proof -
  have "body d (f @ t) = Frame d' x (length f)" using stable[of f d t] assms by simp
  moreover have "4 < length (f @ t)" "0 < length f" using assms(1) by auto
  ultimately show ?thesis using loop_Frame[of "f @ t" d d' x "length f" dst] by simp
qed

text \<open>The loop of \<^verbatim>\<open>Encode\<close> returns; what it appends, the loop of \<^verbatim>\<open>Decode\<close> takes back.\<close>

lemma encode_decode:
  assumes "sync (nframes limit b + k) s d"
  shows "\<exists>s' f b' d'. encode_loop limit pack s buf b = Ret (s', buf @ f, b') \<and> sync k s' d' \<and>
    (\<forall>dst t. decode_loop body d dst (f @ t) = decode_loop body d' (dst @ b) t)"
  using assms
proof (induction "length b" arbitrary: b s d buf rule: less_induct)
  case less
  consider "b = []" | "0 < length b" "length b \<le> limit" | "limit < length b" by force
  then show ?case
  proof cases
    case 1
    with less.prems show ?thesis
      by (intro exI[of _ s] exI[of _ "[]"] exI[of _ "[]"] exI[of _ d]) simp
  next
    case 2
    with less.prems have sy: "sync (Suc k) s d" by (simp add: nframes_last)
    from pack_frame[OF sy 2, of buf] obtain s' f x' d' where
      "pack s buf b = Ret (s', buf @ f, x')" "4 < length f" "sync k s' d'"
      "body d f = Frame d' b (length f)" by blast
    then show ?thesis
      by (intro exI[of _ s'] exI[of _ f] exI[of _ x'] exI[of _ d']) (simp add: frame_taken encode_loop_last[OF 2])
  next
    case 3
    with less.prems limit_pos have sy: "sync (Suc (nframes limit (drop limit b) + k)) s d"
      by (simp add: nframes_step)
    have "0 < length (take limit b)" "length (take limit b) \<le> limit" using 3 limit_pos by auto
    from pack_frame[OF sy this, of buf] obtain s1 f1 x1 d1 where f1:
      "pack s buf (take limit b) = Ret (s1, buf @ f1, x1)"
      "4 < length f1" "sync (nframes limit (drop limit b) + k) s1 d1"
      "body d f1 = Frame d1 (take limit b) (length f1)" by blast
    from 3 limit_pos have "length (drop limit b) < length b" by simp
    from less.hyps[OF this f1(3), of "buf @ f1"] obtain s2 f2 y2 d2 where f2:
      "encode_loop limit pack s1 (buf @ f1) (drop limit b) = Ret (s2, (buf @ f1) @ f2, y2)" "sync k s2 d2"
      "\<forall>dst t. decode_loop body d1 dst (f2 @ t) = decode_loop body d2 (dst @ drop limit b) t"
      by blast
    have "decode_loop body d dst ((f1 @ f2) @ t) = decode_loop body d2 (dst @ b) t" for dst t
      using frame_taken[OF f1(2,4), of dst "f2 @ t"] f2(3) by simp
    with encode_loop_step[where pack = pack, OF limit_pos 3 f1(1) f2(1)] f2(2) show ?thesis
      by (intro exI[of _ s2] exI[of _ "f1 @ f2"] exI[of _ "x1 @ y2"] exI[of _ d2]) simp
  qed
qed

end

end
