(* ===== verification/Auth_SHA1_V4.thy ===== *)
theory Auth_SHA1_V4
  imports Protocol_Base
begin

text \<open>
  The protocol \<^verbatim>\<open>auth_sha1_v4\<close> (\<^verbatim>\<open>protocol/auth_sha1_v4.go\<close>). A connection opens
  with one authenticated packet and goes on in frames: big-endian length, half of its CRC-32,
  padding with a length prefix, data, Adler-32. \<open>s4_frame\<close> is one round of \<open>s4_Decode\<close> and
  \<open>s4_packData\<close> makes one frame; they are shown to provide the interfaces of
  \<open>Protocol_Base\<close>, from which the round trip of whole streams follows.
\<close>

section \<open>The connection\<close>

record authSHA1V4 =
  s4_Base :: Base
  s4_authData :: authData
  s4_iv :: bytes
  s4_hasSentHeader :: bool
  s4_rawTrans :: bool

definition newAuthSHA1V4 :: "Base \<Rightarrow> authSHA1V4" where
  "newAuthSHA1V4 b = \<lparr>s4_Base = b, s4_authData = new_authData, s4_iv = [],
     s4_hasSentHeader = False, s4_rawTrans = False\<rparr>"

text \<open>A connection's own state, and the factory whose counter has moved on.\<close>

definition s4_StreamConn ::
  "authSHA1V4 \<Rightarrow> bytes \<Rightarrow> rng \<Rightarrow> authSHA1V4 \<times> authSHA1V4 \<times> rng" where
  "s4_StreamConn a iv r =
     (case authData_next (s4_authData a) r of (own, shared, r') \<Rightarrow>
        (\<lparr>s4_Base = s4_Base a, s4_authData = own, s4_iv = iv,
          s4_hasSentHeader = False, s4_rawTrans = False\<rparr>,
         a\<lparr>s4_authData := shared\<rparr>, r'))"

definition s4_PacketConn :: "authSHA1V4 \<Rightarrow> authSHA1V4" where
  "s4_PacketConn a = a"

section \<open>Decode\<close>

text \<open>Where the data starts: past the padding and its prefix.\<close>

definition s4_pos :: "bytes \<Rightarrow> nat" where
  "s4_pos src =
     (let pos = unat (src ! 4)
      in if pos < 255 then pos + 4 else unat (rd_be16 (sub 5 2 src)) + 4)"

definition s4_frame :: "authSHA1V4 \<Rightarrow> bytes \<Rightarrow> authSHA1V4 step" where
  "s4_frame a src =
     (if (ucast (ChecksumIEEE (take 2 src) AND 0xffff) :: uint16) \<noteq> rd_le16 (sub 2 2 src)
      then Fail errAuthSHA1V4CRC32Error a
      else let len = unat (rd_be16 (take 2 src)) in
        if len \<ge> 8192 \<or> len < 7
        then Fail errAuthSHA1V4LengthError (a\<lparr>s4_rawTrans := True\<rparr>)
        else if len > length src then Wait a
        else if Adler32 (take (len - 4) src) \<noteq> rd_le32 (sub (len - 4) 4 src)
        then Fail errAuthSHA1V4Adler32Error (a\<lparr>s4_rawTrans := True\<rparr>)
        else case slice (s4_pos src) (len - 4) src of
            None \<Rightarrow> Crash | Some out \<Rightarrow> Frame a out len)"

definition s4_Decode ::
  "authSHA1V4 \<Rightarrow> bytes \<Rightarrow> bytes \<Rightarrow> (protocol_error option \<times> authSHA1V4 \<times> bytes \<times> bytes) go" where
  "s4_Decode = decode_with s4_rawTrans s4_frame"

definition s4_DecodePacket :: "bytes \<Rightarrow> bytes" where
  "s4_DecodePacket b = b"

section \<open>Encode\<close>

definition s4_getRandDataLength :: "nat \<Rightarrow> rng \<Rightarrow> nat \<times> rng" where
  "s4_getRandDataLength n r =
     (if n > 1200 then (0, r) else if n > 400 then Intn 256 r else Intn 512 r)"

definition s4_packRandData :: "bytes \<Rightarrow> nat \<Rightarrow> rng \<Rightarrow> bytes \<times> rng" where
  "s4_packRandData buf n r =
     (if n < 128 then AppendRandBytes (buf @ [of_nat (n + 1)]) n r
      else AppendRandBytes (buf @ [255] @ be16 (of_nat (n + 3))) n r)"

text \<open>
  \<open>packData\<close>. The offset of the checksum is computed as the code computes it, from the length
  of the buffer so far; it is the offset of the frame because four bytes of the frame are missing.
\<close>

definition s4_packData ::
  "authSHA1V4 \<times> rng \<Rightarrow> bytes \<Rightarrow> bytes \<Rightarrow> ((authSHA1V4 \<times> rng) \<times> bytes \<times> bytes) go" where
  "s4_packData = (\<lambda>(a, r) buf data.
     let dataLength = length data in
     case s4_getRandDataLength dataLength r of (randDataLength, r1) \<Rightarrow>
     let packed0 = 2 + 2 + 3 + randDataLength + dataLength + 4;
         packed = (if randDataLength < 128 then packed0 - 2 else packed0);
         buf1 = buf @ be16 (of_nat packed);
         buf2 = buf1 @ le16 (ucast (ChecksumIEEE (drop (length buf1 - 2) buf1) AND 0xffff))
     in case s4_packRandData buf2 randDataLength r1 of (buf3, r2) \<Rightarrow>
     let buf4 = buf3 @ data;
         buf5 = buf4 @ le32 (Adler32 (drop (length buf4 + 4 - packed) buf4))
     in Ret ((a, r2), buf5, data))"

definition s4_packAuthData ::
  "authSHA1V4 \<Rightarrow> uint32 \<Rightarrow> rng \<Rightarrow> bytes \<Rightarrow> bytes \<Rightarrow> bytes \<times> rng" where
  "s4_packAuthData a now r buf data =
     (let dataLength = length data in
      case s4_getRandDataLength (12 + dataLength) r of (randDataLength, r1) \<Rightarrow>
      let packed0 = 2 + 4 + 3 + randDataLength + 12 + dataLength + 10;
          packed = (if randDataLength < 128 then packed0 - 2 else packed0);
          salt = str ''auth_sha1_v4'';
          crcData = be16 (of_nat packed) @ salt @ Key (s4_Base a);
          key = s4_iv a @ Key (s4_Base a);
          buf1 = buf @ take 2 crcData;
          buf2 = buf1 @ le32 (ChecksumIEEE crcData)
      in case s4_packRandData buf2 randDataLength r1 of (buf3, r2) \<Rightarrow>
      let buf4 = putAuthData (s4_authData a) now buf3;
          buf5 = buf4 @ data;
          buf6 = buf5 @ take 10 (HmacSHA1 key (drop (length buf5 + 10 - packed) buf5))
      in (buf6, r2))"

text \<open>\<open>Encode\<close> never fails; the second result is what the caller's slice holds afterwards.\<close>

definition s4_Encode ::
  "authSHA1V4 \<Rightarrow> uint32 \<Rightarrow> rng \<Rightarrow> bytes \<Rightarrow> bytes \<Rightarrow> ((authSHA1V4 \<times> rng) \<times> bytes \<times> bytes) go" where
  "s4_Encode a now r buf b =
     (if s4_hasSentHeader a then encode_loop 8100 s4_packData (a, r) buf b
      else (case getDataLength b r of (dataLength, r1) \<Rightarrow>
        case s4_packAuthData a now r1 buf (take dataLength b) of (buf1, r2) \<Rightarrow>
        go_bind (encode_loop 8100 s4_packData (a\<lparr>s4_hasSentHeader := True\<rparr>, r2) buf1 (drop dataLength b))
          (\<lambda>(s, buf2, rest). Ret (s, buf2, take dataLength b @ rest))))"

definition s4_EncodePacket :: "bytes \<Rightarrow> bytes \<Rightarrow> bytes" where
  "s4_EncodePacket buf b = buf @ b"

section \<open>The decoder provides its interface\<close>

interpretation s4: frame_decoder s4_frame s4_rawTrans
proof
  fix st st' out n and s :: bytes
  assume "4 < length s" "s4_frame st s = Frame st' out n"
  then show "0 < n \<and> n \<le> length s" "s4_rawTrans st' = s4_rawTrans st"
    by (auto simp: s4_frame_def Let_def split: if_splits option.splits)
next
  fix st and s t :: bytes
  assume s: "4 < length s" and nw: "\<And>st'. s4_frame st s \<noteq> Wait st'"
  let ?len = "unat (rd_be16 (take 2 s))"
  show "s4_frame st (s @ t) = s4_frame st s"
  proof (cases "?len \<le> length s")
    case True
    with s show ?thesis
      by (auto simp: s4_frame_def s4_pos_def Let_def slice_append nth_append)
  next
    case False
    with nw[of st] have "(ucast (ChecksumIEEE (take 2 s) AND 0xffff) :: uint16) \<noteq> rd_le16 (sub 2 2 s) \<or>
      ?len \<ge> 8192 \<or> ?len < 7"
      by (cases "8192 \<le> ?len"; cases "?len < 7") (auto simp: s4_frame_def Let_def)
    with s show ?thesis by (auto simp: s4_frame_def Let_def)
  qed
next
  fix st st' and s t :: bytes
  assume "4 < length s" "s4_frame st s = Wait st'"
  then show "s4_frame st' (s @ t) = s4_frame st (s @ t)" "s4_rawTrans st' = s4_rawTrans st"
    by (auto simp: s4_frame_def Let_def split: if_splits option.splits)
qed

section \<open>One frame\<close>

lemma s4_getRandDataLength_less:
  "s4_getRandDataLength n r = (k, r') \<Longrightarrow> k < 512 \<and> (1200 < n \<longrightarrow> k = 0)"
  by (auto simp: s4_getRandDataLength_def dest!: Intn_less' split: if_splits)

text \<open>The padding field: its prefix and its random bytes.\<close>

definition s4_padding :: "nat \<Rightarrow> rng \<Rightarrow> bytes" where
  "s4_padding n r =
     (if n < 128 then [of_nat (n + 1)] else 255 # be16 (of_nat (n + 3))) @ fst (rand_bytes n r)"

lemma length_s4_padding: "length (s4_padding n r) = padded n"
  by (simp add: s4_padding_def padded_def)

lemma s4_packRandData_eq:
  "s4_packRandData buf n r = (buf @ s4_padding n r, snd (rand_bytes n r))"
  by (simp add: s4_packRandData_def AppendRandBytes_conv s4_padding_def)

text \<open>The shape of a frame, however much is already in the buffer.\<close>

definition s4_wire :: "bytes \<Rightarrow> bytes \<Rightarrow> bytes" where
  "s4_wire p data =
     (let hd = be16 (of_nat (8 + length p + length data));
          f = hd @ le16 (ucast (ChecksumIEEE hd AND 0xffff)) @ p @ data
      in f @ le32 (Adler32 f))"

lemma s4_packData_eq:
  obtains n r1 r2 where "n < 512" "1200 < length data \<longrightarrow> n = 0"
    "\<And>a buf. s4_packData (a, r) buf data = Ret ((a, r2), buf @ s4_wire (s4_padding n r1) data, data)"
proof -
  obtain n r1 where n: "s4_getRandDataLength (length data) r = (n, r1)"
    by (cases "s4_getRandDataLength (length data) r")
  have "s4_packData (a, r) buf data =
      Ret ((a, snd (rand_bytes n r1)), buf @ s4_wire (s4_padding n r1) data, data)" for a buf
    using n by (simp add: s4_packData_def Let_def s4_wire_def s4_packRandData_eq
        length_s4_padding padded_def add.assoc)
  with that[of n _ r1] s4_getRandDataLength_less[OF n] show thesis by blast
qed

lemma s4_pos_padding:
  assumes "n < 512" "length h = 4"
  shows "s4_pos (h @ s4_padding n r @ t) = 4 + padded n"
  using assms by (auto simp: s4_pos_def s4_padding_def padded_def Let_def nth_append
      unat_byte_of_nat unat_uint16_of_nat simp flip: of_nat_Suc of_nat_add)

lemma s4_wire_taken:
  assumes n: "n < 512" and len: "8 + padded n + length data < 8192"
  shows "s4_frame a (s4_wire (s4_padding n r) data) =
    Frame a data (length (s4_wire (s4_padding n r) data))"
proof -
  let ?p = "s4_padding n r"
  define hd where "hd = be16 (of_nat (8 + length ?p + length data))"
  define c where "c = le16 (ucast (ChecksumIEEE hd AND 0xffff))"
  define w where "w = s4_wire ?p data"
  have w: "w = hd @ c @ ?p @ data @ le32 (Adler32 (hd @ c @ ?p @ data))"
    by (simp add: w_def s4_wire_def Let_def hd_def c_def)
  have l: "length hd = 2" "length c = 2" by (simp_all add: hd_def c_def)
  have hd: "unat (rd_be16 hd) = 8 + padded n + length data"
    using len unat_uint16_of_nat[of "8 + padded n + length data"]
    by (simp add: hd_def length_s4_padding del: of_nat_add)
  let ?len = "8 + padded n + length data"
  note t = frame_cut[OF l length_s4_padding length_le32 w refl]
  have x: "s4_pos w = 4 + padded n"
    using l s4_pos_padding[OF n, of "hd @ c" r] by (simp add: w)
  have "7 \<le> ?len" by (simp add: padded_def)
  with len t hd show ?thesis
    unfolding w_def[symmetric] by (simp add: s4_frame_def Let_def x c_def)
qed

text \<open>A packer and a decoder are always in step: neither keeps state from frame to frame.\<close>

lemma s4_pack_frame:
  assumes "0 < length x" "length x \<le> 8100"
  obtains f r' where "\<And>a buf. s4_packData (a, r) buf x = Ret ((a, r'), buf @ f, x)" "4 < length f"
    "\<And>d. s4_frame d f = Frame d x (length f)"
proof -
  obtain n r1 r2 where n: "n < 512" "1200 < length x \<longrightarrow> n = 0"
    "\<And>a buf. s4_packData (a, r) buf x = Ret ((a, r2), buf @ s4_wire (s4_padding n r1) x, x)"
    by (rule s4_packData_eq) blast
  have "8 + padded n + length x < 8192" using n(1,2) assms(2) by (auto simp: padded_def)
  from s4_wire_taken[OF n(1) this, of _ r1] n(3) that
  show thesis by (simp add: s4_wire_def Let_def)
qed

interpretation s4p: frame_pair s4_frame s4_rawTrans s4_packData "\<lambda>_ s d. fst s = a0 \<and> d = d0" 8100
  for a0 d0
proof
  fix k :: nat and s :: "_ \<times> rng" and d and x buf :: bytes
  assume d: "fst s = a0 \<and> d = d0" and x: "0 < length x" "length x \<le> 8100"
  obtain r where s: "s = (a0, r)" using d by (cases s) simp
  obtain r' f where f: "\<And>a buf. s4_packData (a, r) buf x = Ret ((a, r'), buf @ f, x)" "4 < length f"
    "\<And>d. s4_frame d f = Frame d x (length f)" by (rule s4_pack_frame[OF x, of r]) (rule that)
  have "s4_packData s buf x = Ret ((a0, r'), buf @ f, x)" unfolding s by (rule f(1))
  with d f(2,3) show "\<exists>s' f x' d'. s4_packData s buf x = Ret (s', buf @ f, x') \<and> 4 < length f \<and>
      (fst s' = a0 \<and> d' = d0) \<and> s4_frame d f = Frame d' x (length f)"
    by (metis fst_conv)
qed simp

lemma s4_packData_keeps: "s4_packData s buf x = Ret (s', buf', x') \<Longrightarrow> x' = x"
proof -
  assume p: "s4_packData s buf x = Ret (s', buf', x')"
  obtain a r where s: "s = (a, r)" by (cases s)
  obtain n r1 r2 where "\<And>a buf. s4_packData (a, r) buf x = Ret ((a, r2), buf @ s4_wire (s4_padding n r1) x, x)"
    by (rule s4_packData_eq[of x r]) blast
  with p s show ?thesis by auto
qed

lemma s4_encode_loop:
  "\<exists>r' f. encode_loop 8100 s4_packData (a, r) buf b = Ret ((a, r'), buf @ f, b) \<and>
    (\<forall>d dst. s4_rawTrans d \<or> s4_Decode d dst f = Ret (None, d, dst @ b, []))"
proof -
  have *: "\<exists>r' f. encode_loop 8100 s4_packData (a, r) buf b = Ret ((a, r'), buf @ f, b) \<and>
      (\<forall>dst. decode_loop s4_frame d dst f = Ret (None, d, dst @ b, []))" for d
  proof -
    have "fst (a, r) = a \<and> d = d" by simp
    from s4p.encode_decode[OF this, where b = b and buf = buf] obtain s' f b' where f:
      "encode_loop 8100 s4_packData (a, r) buf b = Ret (s', buf @ f, b')" "fst s' = a"
      "\<forall>dst t. decode_loop s4_frame d dst (f @ t) = decode_loop s4_frame d (dst @ b) t" by blast
    have "True \<and> (True \<longrightarrow> b' = b)"
      by (rule encode_loop_inv[OF f(1), where I = "\<lambda>_. True"]) (use s4_packData_keeps in blast)+
    moreover have "decode_loop s4_frame d dst f = Ret (None, d, dst @ b, [])" for dst
      using f(3)[rule_format, of dst "[]"] by simp
    ultimately show ?thesis using f(1,2) by (cases s') auto
  qed
  obtain r' f where f: "encode_loop 8100 s4_packData (a, r) buf b = Ret ((a, r'), buf @ f, b)"
    using *[of undefined] by blast
  have "decode_loop s4_frame d dst f = Ret (None, d, dst @ b, [])" for d dst
    using *[of d] f by auto
  with f show ?thesis by (auto simp: s4_Decode_def decode_with_def)
qed

section \<open>The opening packet\<close>

text \<open>
  What a server does with the opening packet of a connection, as the wire format prescribes:
  check the declared length, the keyed CRC and the MAC, skip the padding, and read the time, the
  two identifiers and the data.
\<close>

definition s4_open :: "bytes \<Rightarrow> bytes \<Rightarrow> bytes \<Rightarrow> (uint32 \<times> bytes \<times> uint32 \<times> bytes) option" where
  "s4_open key iv h =
     (let len = unat (rd_be16 (take 2 h)); pos0 = unat (h ! 6);
          pos = (if pos0 < 255 then pos0 + 6 else unat (rd_be16 (sub 7 2 h)) + 6);
          body = sub pos (len - 10 - pos) h
      in if len \<noteq> length h \<or>
            sub 2 4 h \<noteq> le32 (ChecksumIEEE (take 2 h @ str ''auth_sha1_v4'' @ key)) \<or>
            drop (len - 10) h \<noteq> take 10 (HmacSHA1 (iv @ key) (take (len - 10) h))
         then None
         else Some (rd_le32 (take 4 body), sub 4 4 body, rd_le32 (sub 8 4 body), drop 12 body))"

lemma s4_pos_padding6:
  assumes "n < 512" "length h = 6"
  shows "(if unat ((h @ s4_padding n r @ t) ! 6) < 255 then unat ((h @ s4_padding n r @ t) ! 6) + 6
          else unat (rd_be16 (sub 7 2 (h @ s4_padding n r @ t))) + 6) = 6 + padded n"
  using assms by (auto simp: s4_padding_def padded_def nth_append
      unat_byte_of_nat unat_uint16_of_nat simp flip: of_nat_Suc of_nat_add)

definition s4_opening :: "authSHA1V4 \<Rightarrow> uint32 \<Rightarrow> bytes \<Rightarrow> bytes \<Rightarrow> bytes" where
  "s4_opening a now p data =
     (let hd = be16 (of_nat (28 + length p + length data));
          f = hd @ le32 (ChecksumIEEE (hd @ str ''auth_sha1_v4'' @ Key (s4_Base a))) @ p @
              putAuthData (s4_authData a) now [] @ data
      in f @ take 10 (HmacSHA1 (s4_iv a @ Key (s4_Base a)) f))"

lemma s4_packAuthData_eq:
  assumes "length (clientID (s4_authData a)) = 4"
  obtains n r1 r2 where "n < 512"
    "\<And>buf. s4_packAuthData a now r buf data = (buf @ s4_opening a now (s4_padding n r1) data, r2)"
proof -
  obtain n r1 where n: "s4_getRandDataLength (12 + length data) r = (n, r1)"
    by (cases "s4_getRandDataLength (12 + length data) r")
  have "s4_packAuthData a now r buf data =
      (buf @ s4_opening a now (s4_padding n r1) data, snd (rand_bytes n r1))" for buf
    using n assms by (simp add: s4_packAuthData_def Let_def s4_opening_def s4_packRandData_eq
        length_s4_padding padded_def putAuthData_def add.assoc)
  with that[of n r1] s4_getRandDataLength_less[OF n] show thesis by blast
qed

lemma s4_open_opening:
  assumes n: "n < 512" and data: "length data \<le> 290" and cid: "length (clientID (s4_authData a)) = 4"
  shows "s4_open (Key (s4_Base a)) (s4_iv a) (s4_opening a now (s4_padding n r) data) =
    Some (now, clientID (s4_authData a), connectionID (s4_authData a), data)"
proof -
  let ?p = "s4_padding n r" and ?k = "s4_iv a @ Key (s4_Base a)"
  define hd where "hd = be16 (of_nat (28 + length ?p + length data))"
  define c where "c = le32 (ChecksumIEEE (hd @ str ''auth_sha1_v4'' @ Key (s4_Base a)))"
  define body where "body = putAuthData (s4_authData a) now [] @ data"
  define f where "f = hd @ c @ ?p @ body"
  define h where "h = s4_opening a now ?p data"
  have h: "h = f @ take 10 (HmacSHA1 ?k f)"
    by (simp add: h_def s4_opening_def Let_def hd_def c_def f_def body_def)
  let ?len = "28 + padded n + length data"
  have l: "length hd = 2" "length c = 4" "length body = 12 + length data" "length f = ?len - 10"
    using cid by (auto simp: hd_def c_def body_def putAuthData_def f_def length_s4_padding)
  have "?len < 65536" using n data by (auto simp: padded_def)
  then have hd: "unat (rd_be16 hd) = ?len"
    using unat_uint16_of_nat[of ?len] by (simp add: hd_def length_s4_padding del: of_nat_add)
  have t: "take 2 h = hd" "sub 2 4 h = c" "length h = ?len" "take (?len - 10) h = f"
    "drop (?len - 10) h = take 10 (HmacSHA1 ?k f)"
    using l by (auto simp: h f_def)
  have b: "sub (6 + padded n) (?len - 10 - (6 + padded n)) h = body"
    using l by (simp add: h f_def length_s4_padding)
  have h': "h = (hd @ c) @ ?p @ (body @ take 10 (HmacSHA1 ?k f))" by (simp add: h f_def)
  have "length (hd @ c) = 6" using l by simp
  from s4_pos_padding6[OF n this, of r "body @ take 10 (HmacSHA1 ?k f)"]
  have pos: "(if unat (h ! 6) < 255 then unat (h ! 6) + 6
      else unat (rd_be16 (sub 7 2 h)) + 6) = 6 + padded n"
    unfolding h'[symmetric] .
  have r: "rd_le32 (take 4 body) = now" "sub 4 4 body = clientID (s4_authData a)"
    "rd_le32 (sub 8 4 body) = connectionID (s4_authData a)" "drop 12 body = data"
    using cid by (simp_all add: body_def putAuthData_def)
  show ?thesis
    unfolding s4_open_def Let_def h_def[symmetric] t(1) hd pos b
    using t r by (simp add: c_def)
qed

text \<open>\<open>Encode\<close> of an open connection, for the connection over it.\<close>

lemma s4_Encode_open:
  "s4_hasSentHeader e \<Longrightarrow> \<exists>f r'. s4_Encode e now r buf b = Ret ((e, r'), buf @ f, b) \<and>
    (\<forall>d dst. s4_rawTrans d \<or> s4_Decode d dst f = Ret (None, d, dst @ b, []))"
  using s4_encode_loop[of e r buf b] by (auto simp: s4_Encode_def)

section \<open>Properties\<close>

text \<open>
  C11: The first \<open>Encode\<close> of a connection appends an opening packet a server that knows the key and
  the IV accepts, recovering the time, the client and connection identifiers and a prefix of the
  data of at most 290 bytes, and then frames that decode to the rest of the data.
\<close>

theorem s4_first_Encode:
  assumes "\<not> s4_hasSentHeader e" and cid: "length (clientID (s4_authData e)) = 4"
  shows "\<exists>n h f r'. s4_Encode e now r buf b = Ret ((e\<lparr>s4_hasSentHeader := True\<rparr>, r'), buf @ h @ f, b) \<and>
    n \<le> 290 \<and> n \<le> length b \<and>
    s4_open (Key (s4_Base e)) (s4_iv e) h =
      Some (now, clientID (s4_authData e), connectionID (s4_authData e), take n b) \<and>
    (\<forall>d dst. s4_rawTrans d \<or> s4_Decode d dst f = Ret (None, d, dst @ drop n b, []))"
proof -
  obtain n r1 where n: "getDataLength b r = (n, r1)" by (cases "getDataLength b r")
  note bounds = getDataLength_le[OF n] getDataLength_bound[OF n]
  obtain m r2 r3 where m: "m < 512"
    "\<And>buf. s4_packAuthData e now r1 buf (take n b) = (buf @ s4_opening e now (s4_padding m r2) (take n b), r3)"
    by (rule s4_packAuthData_eq[OF cid, of now r1 "take n b"]) (rule that)
  let ?h = "s4_opening e now (s4_padding m r2) (take n b)"
  obtain r' f where l: "encode_loop 8100 s4_packData (e\<lparr>s4_hasSentHeader := True\<rparr>, r3) (buf @ ?h) (drop n b) =
      Ret ((e\<lparr>s4_hasSentHeader := True\<rparr>, r'), (buf @ ?h) @ f, drop n b)"
    "\<forall>d dst. s4_rawTrans d \<or> s4_Decode d dst f = Ret (None, d, dst @ drop n b, [])"
    using s4_encode_loop by blast
  from l(1) assms(1) n
  have "s4_Encode e now r buf b = Ret ((e\<lparr>s4_hasSentHeader := True\<rparr>, r'), buf @ ?h @ f, b)"
    by (simp add: s4_Encode_def m(2))
  moreover from s4_open_opening[OF m(1) _ cid, of "take n b" now r2] bounds
  have "s4_open (Key (s4_Base e)) (s4_iv e) ?h =
      Some (now, clientID (s4_authData e), connectionID (s4_authData e), take n b)" by simp
  ultimately show ?thesis using bounds l(2) by blast
qed

theorem s4_first_Encode_witness:
  "\<exists>s h f n. n \<le> 290 \<and> s4_open [1] [] h = Some (7, [0, 0, 0, 0], 0, take n [5, 6]) \<and>
     s4_Encode (newAuthSHA1V4 \<lparr>Key = [1], Overhead = 7, Param = []\<rparr>) 7
       \<lparr>draws = \<lambda>n. n, rpos = 0\<rparr> [] [5, 6] = Ret (s, h @ f, [5, 6])"
proof -
  let ?e = "newAuthSHA1V4 \<lparr>Key = [1], Overhead = 7, Param = []\<rparr>"
  have e: "\<not> s4_hasSentHeader ?e" "clientID (s4_authData ?e) = [0, 0, 0, 0]" "Key (s4_Base ?e) = [1]"
    "s4_iv ?e = []" "connectionID (s4_authData ?e) = 0"
    by (simp_all add: newAuthSHA1V4_def new_authData_def numeral_eq_Suc)
  then have "length (clientID (s4_authData ?e)) = 4" by simp
  from s4_first_Encode[OF e(1) this, of 7 "\<lparr>draws = \<lambda>n. n, rpos = 0\<rparr>" "[]" "[5, 6]"]
  obtain n h f s where "s4_Encode ?e 7 \<lparr>draws = \<lambda>n. n, rpos = 0\<rparr> [] [5, 6] =
      Ret (s, [] @ h @ f, [5, 6])" "n \<le> 290"
    "s4_open (Key (s4_Base ?e)) (s4_iv ?e) h =
      Some (7, clientID (s4_authData ?e), connectionID (s4_authData ?e), take n [5, 6])" by blast
  then show ?thesis unfolding e append_Nil by blast
qed

text \<open>
  C16: Nine bytes from the network make \<open>Decode\<close> panic on every connection that is not in raw
  transmission: the length and both checksums are right, and a padding prefix that points past
  the end of the frame is used as a slice bound without a check. Neither checksum is keyed, so
  the bytes need no knowledge of the password.
\<close>

theorem s4_Decode_panics:
  "\<exists>f. length f = 9 \<and> (\<forall>d dst rest. s4_rawTrans d \<or> s4_Decode d dst (f @ rest) = Panic)"
proof -
  define hd where "hd = be16 9"
  define c where "c = le16 (ucast (ChecksumIEEE hd AND 0xffff))"
  define f where "f = hd @ c @ [2] @ le32 (Adler32 (hd @ c @ [2]))"
  have l: "length hd = 2" "length c = 2" "length f = 9" by (simp_all add: hd_def c_def f_def)
  have hd: "unat (rd_be16 hd) = 9" by (simp add: hd_def)
  have t: "take 2 f = hd" "sub 2 2 f = c" "take 5 f = hd @ c @ [2]"
    "sub 5 4 f = le32 (Adler32 (hd @ c @ [2]))" "f ! 4 = 2"
    using l by (simp_all add: f_def nth_append)
  have "s4_frame d f = Crash" for d
    using t l hd by (simp add: s4_frame_def Let_def c_def s4_pos_def slice_def)
  with s4.stable[of f] l have "s4_frame d (f @ rest) = Crash" for d rest by simp
  then have "s4_rawTrans d \<or> s4_Decode d dst (f @ rest) = Panic" for d dst rest
    using l by (simp add: s4_Decode_def decode_with_def s4.loop_Crash)
  with l show ?thesis by blast
qed

end
