(* ===== verification/Auth_AES128.thy ===== *)
theory Auth_AES128
  imports Protocol_Base Complex_Main
begin

text \<open>
  The protocols \<^verbatim>\<open>auth_aes128_sha1\<close> and \<^verbatim>\<open>auth_aes128_md5\<close>
  (\<^verbatim>\<open>protocol/auth_aes128_sha1.go\<close>, \<^verbatim>\<open>protocol/auth_aes128_md5.go\<close>): one
  implementation over the record of functions \<open>authAES128Function\<close>. Frames are numbered, and both
  checks of a frame are MACs under the user key and the number; the encoder's \<open>packID\<close> and the
  decoder's \<open>recvID\<close> have to agree, which is what \<open>aes_sync\<close> states.
\<close>

section \<open>The connection\<close>

record authAES128Function =
  salt :: bytes
  hmac :: "bytes \<Rightarrow> bytes \<Rightarrow> bytes"
  hashDigest :: "bytes \<Rightarrow> bytes"

record authAES128 =
  ae_Base :: Base
  ae_authData :: authData
  ae_fn :: authAES128Function
  ae_userData :: userData
  ae_iv :: bytes
  ae_hasSentHeader :: bool
  ae_rawTrans :: bool
  packID :: uint32
  recvID :: uint32

definition aes128_sha1 :: authAES128Function where
  "aes128_sha1 = \<lparr>salt = str ''auth_aes128_sha1'', hmac = HmacSHA1, hashDigest = SHA1Sum\<rparr>"

definition aes128_md5 :: authAES128Function where
  "aes128_md5 = \<lparr>salt = str ''auth_aes128_md5'', hmac = HmacMD5, hashDigest = MD5Sum\<rparr>"

text \<open>User id and key, the key digested with the function of the record.\<close>

definition ae_initUserData :: "authAES128Function \<Rightarrow> Base \<Rightarrow> rng \<Rightarrow> userData \<times> rng" where
  [simp]: "ae_initUserData fn b r = initUserData (hashDigest fn) b r"

definition new_authAES128 :: "authAES128Function \<Rightarrow> Base \<Rightarrow> rng \<Rightarrow> authAES128 \<times> rng" where
  "new_authAES128 fn b r =
     (case ae_initUserData fn b r of (u, r') \<Rightarrow>
        (\<lparr>ae_Base = b, ae_authData = new_authData, ae_fn = fn, ae_userData = u, ae_iv = [],
          ae_hasSentHeader = False, ae_rawTrans = False, packID = 0, recvID = 0\<rparr>, r'))"

definition newAuthAES128SHA1 :: "Base \<Rightarrow> rng \<Rightarrow> authAES128 \<times> rng" where
  "newAuthAES128SHA1 = new_authAES128 aes128_sha1"

definition newAuthAES128MD5 :: "Base \<Rightarrow> rng \<Rightarrow> authAES128 \<times> rng" where
  "newAuthAES128MD5 = new_authAES128 aes128_md5"

definition ae_StreamConn ::
  "authAES128 \<Rightarrow> bytes \<Rightarrow> rng \<Rightarrow> authAES128 \<times> authAES128 \<times> rng" where
  "ae_StreamConn a iv r =
     (case authData_next (ae_authData a) r of (own, shared, r') \<Rightarrow>
        (\<lparr>ae_Base = ae_Base a, ae_authData = own, ae_fn = ae_fn a, ae_userData = ae_userData a,
          ae_iv = iv, ae_hasSentHeader = False, ae_rawTrans = False, packID = 1, recvID = 1\<rparr>,
         a\<lparr>ae_authData := shared\<rparr>, r'))"

text \<open>A packet connection has no connection identity: its \<^verbatim>\<open>authData\<close> is nil and unused.\<close>

definition ae_PacketConn :: "authAES128 \<Rightarrow> authAES128" where
  "ae_PacketConn a =
     \<lparr>ae_Base = ae_Base a, ae_authData = new_authData, ae_fn = ae_fn a, ae_userData = ae_userData a,
      ae_iv = [], ae_hasSentHeader = False, ae_rawTrans = False, packID = 0, recvID = 0\<rparr>"

abbreviation ae_hmac :: "authAES128 \<Rightarrow> bytes \<Rightarrow> bytes \<Rightarrow> bytes" where
  "ae_hmac a \<equiv> hmac (ae_fn a)"

abbreviation ae_userKey :: "authAES128 \<Rightarrow> bytes" where
  "ae_userKey a \<equiv> userKey (ae_userData a)"

text \<open>The two functions the program instantiates the record with.\<close>

definition aes_functions :: "authAES128Function set" where
  "aes_functions = {aes128_sha1, aes128_md5}"

lemma length_hmac: "fn \<in> aes_functions \<Longrightarrow> 16 \<le> length (hmac fn k m)"
  by (auto simp: aes_functions_def aes128_sha1_def aes128_md5_def)

lemma length_take_hmac: "fn \<in> aes_functions \<Longrightarrow> n \<le> 16 \<Longrightarrow> length (take n (hmac fn k m)) = n"
  using length_hmac[of fn k m] by simp

section \<open>Decode\<close>

definition ae_pos :: "bytes \<Rightarrow> nat" where
  "ae_pos src =
     (let pos = unat (src ! 4)
      in if pos < 255 then pos + 4 else unat (rd_le16 (sub 5 2 src)) + 4)"

definition ae_frame :: "authAES128 \<Rightarrow> bytes \<Rightarrow> authAES128 step" where
  "ae_frame a src =
     (let macKey = ae_userKey a @ le32 (recvID a) in
      if take 2 (ae_hmac a macKey (take 2 src)) \<noteq> sub 2 2 src
      then Fail errAuthAES128MACError a
      else let len = unat (rd_le16 (take 2 src)) in
        if len \<ge> 8192 \<or> len < 7
        then Fail errAuthAES128LengthError (a\<lparr>ae_rawTrans := True\<rparr>)
        else if len > length src then Wait a
        else if take 4 (ae_hmac a macKey (take (len - 4) src)) \<noteq> sub (len - 4) 4 src
        then Fail errAuthAES128ChksumError (a\<lparr>ae_rawTrans := True\<rparr>)
        else let a' = a\<lparr>recvID := recvID a + 1\<rparr>
             in case slice (ae_pos src) (len - 4) src of
                  None \<Rightarrow> Crash | Some out \<Rightarrow> Frame a' out len)"

definition ae_Decode ::
  "authAES128 \<Rightarrow> bytes \<Rightarrow> bytes \<Rightarrow> (protocol_error option \<times> authAES128 \<times> bytes \<times> bytes) go" where
  "ae_Decode = decode_with ae_rawTrans ae_frame"

section \<open>Encode\<close>

text \<open>
  \<open>rand.Float64\<close> is a multiple of \<open>2 ^ -53\<close> below 1. The products that follow are taken over the
  reals; \<open>float64\<close> rounds them, which can move the truncated result by one but not up to \<open>max\<close>.
\<close>

definition Float64 :: "rng \<Rightarrow> real \<times> rng" where
  "Float64 r = (case draw r of (x, r') \<Rightarrow> (real (x mod 2 ^ 53) / 2 ^ 53, r'))"

definition trapezoidRandom :: "nat \<Rightarrow> real \<Rightarrow> rng \<Rightarrow> nat \<times> rng" where
  "trapezoidRandom mx d r =
     (case Float64 r of (base, r') \<Rightarrow>
        let base' = (if d - 0 > 1 / 1000000
                     then let a = 1 - d in (sqrt (a * a + 4 * d * base) - a) / (2 * d)
                     else base)
        in (nat \<lfloor>base' * real mx\<rfloor>, r'))"

definition ae_randForData :: "authAES128 \<Rightarrow> nat \<Rightarrow> nat \<Rightarrow> rng \<Rightarrow> nat \<times> rng" where
  "ae_randForData a dataLength fullDataLength r =
     (if int fullDataLength \<ge> 32 * 1024 - int (Overhead (ae_Base a)) then (0, r)
      else let revLength = 1460 - int dataLength - 9 in
        if revLength = 0 then (0, r)
        else if revLength < 0
        then (if revLength > -1460 then trapezoidRandom (nat (revLength + 1460)) (-3 / 10) r
              else Intn 32 r)
        else if dataLength > 900 then Intn (nat revLength) r
        else trapezoidRandom (nat revLength) (-3 / 10) r)"

definition ae_randForAuth :: "nat \<Rightarrow> rng \<Rightarrow> nat \<times> rng" where
  "ae_randForAuth n r = (if n > 400 then Intn 512 r else Intn 1024 r)"

definition ae_packRandData :: "bytes \<Rightarrow> nat \<Rightarrow> rng \<Rightarrow> bytes \<times> rng" where
  "ae_packRandData buf n r =
     (if n < 128 then AppendRandBytes (buf @ [of_nat (n + 1)]) n r
      else AppendRandBytes (buf @ [255] @ le16 (of_nat (n + 3))) n r)"

definition ae_packData ::
  "nat \<Rightarrow> authAES128 \<times> rng \<Rightarrow> bytes \<Rightarrow> bytes \<Rightarrow> ((authAES128 \<times> rng) \<times> bytes \<times> bytes) go" where
  "ae_packData fullDataLength = (\<lambda>(a, r) buf data.
     let dataLength = length data in
     case ae_randForData a dataLength fullDataLength r of (randDataLength, r1) \<Rightarrow>
     let packed0 = 2 + 2 + 3 + randDataLength + dataLength + 4;
         packed = (if randDataLength < 128 then packed0 - 2 else packed0);
         macKey = ae_userKey a @ le32 (packID a);
         a' = a\<lparr>packID := packID a + 1\<rparr>;
         buf1 = buf @ le16 (of_nat packed);
         buf2 = buf1 @ take 2 (ae_hmac a macKey (drop (length buf1 - 2) buf1))
     in case ae_packRandData buf2 randDataLength r1 of (buf3, r2) \<Rightarrow>
     let buf4 = buf3 @ data;
         buf5 = buf4 @ take 4 (ae_hmac a macKey (drop (length buf4 + 4 - packed) buf4))
     in Ret ((a', r2), buf5, data))"

text \<open>
  \<open>packAuthData\<close> does nothing for no data. Its MACs cover the buffer from its beginning, so the
  packet is sound only at the front of a buffer, which is where \<^verbatim>\<open>Conn.Write\<close> puts it.
\<close>

definition ae_packAuthData ::
  "authAES128 \<Rightarrow> uint32 \<Rightarrow> rng \<Rightarrow> bytes \<Rightarrow> bytes \<Rightarrow> bytes \<times> rng" where
  "ae_packAuthData a now r buf data =
     (if length data = 0 then (buf, r)
      else
        let dataLength = length data in
        case ae_randForAuth dataLength r of (randDataLength, r1) \<Rightarrow>
        let packed = 7 + 4 + 16 + 4 + randDataLength + dataLength + 4;
            macKey = ae_iv a @ Key (ae_Base a)
        in case Intn 256 r1 of (x, r2) \<Rightarrow>
        let buf1 = buf @ [of_nat x];
            buf2 = buf1 @ take 6 (ae_hmac a macKey buf1);
            buf3 = buf2 @ userID (ae_userData a)
        in case putEncryptedData (ae_authData a) buf3 now (ae_userKey a) (packed, randDataLength)
                  (salt (ae_fn a)) of
             None \<Rightarrow> ([], r2)
           | Some buf4 \<Rightarrow>
               let buf5 = buf4 @ take 4 (ae_hmac a macKey (drop 7 buf4))
               in case AppendRandBytes buf5 randDataLength r2 of (buf6, r3) \<Rightarrow>
               let buf7 = buf6 @ data
               in (buf7 @ take 4 (ae_hmac a (ae_userKey a) buf7), r3))"

definition ae_Encode ::
  "authAES128 \<Rightarrow> uint32 \<Rightarrow> rng \<Rightarrow> bytes \<Rightarrow> bytes \<Rightarrow> ((authAES128 \<times> rng) \<times> bytes \<times> bytes) go" where
  "ae_Encode a now r buf b =
     (let fullDataLength = length b in
      if ae_hasSentHeader a then encode_loop 8100 (ae_packData fullDataLength) (a, r) buf b
      else (case getDataLength b r of (dataLength, r1) \<Rightarrow>
        case ae_packAuthData a now r1 buf (take dataLength b) of (buf1, r2) \<Rightarrow>
        go_bind (encode_loop 8100 (ae_packData fullDataLength) (a\<lparr>ae_hasSentHeader := True\<rparr>, r2)
                   buf1 (drop dataLength b))
          (\<lambda>(s, buf2, rest). Ret (s, buf2, take dataLength b @ rest))))"

section \<open>Packets\<close>

definition ae_DecodePacket :: "authAES128 \<Rightarrow> bytes \<Rightarrow> protocol_error + bytes" where
  "ae_DecodePacket a b =
     (if length b < 4 then Inl errAuthAES128LengthError
      else if take 4 (ae_hmac a (Key (ae_Base a)) (take (length b - 4) b)) \<noteq> drop (length b - 4) b
      then Inl errAuthAES128ChksumError
      else Inr (take (length b - 4) b))"

definition ae_EncodePacket :: "authAES128 \<Rightarrow> bytes \<Rightarrow> bytes \<Rightarrow> bytes" where
  "ae_EncodePacket a buf b =
     (let buf2 = buf @ b @ userID (ae_userData a)
      in buf2 @ take 4 (ae_hmac a (ae_userKey a) buf2))"

section \<open>The decoder provides its interface\<close>

interpretation ae: frame_decoder ae_frame ae_rawTrans
proof
  fix st st' out n and s :: bytes
  assume "4 < length s" "ae_frame st s = Frame st' out n"
  then show "0 < n \<and> n \<le> length s" "ae_rawTrans st' = ae_rawTrans st"
    by (auto simp: ae_frame_def Let_def split: if_splits option.splits)
next
  fix st and s t :: bytes
  assume s: "4 < length s" and nw: "\<And>st'. ae_frame st s \<noteq> Wait st'"
  let ?len = "unat (rd_le16 (take 2 s))"
  show "ae_frame st (s @ t) = ae_frame st s"
  proof (cases "?len \<le> length s")
    case True
    with s show ?thesis
      by (auto simp: ae_frame_def ae_pos_def Let_def slice_append nth_append)
  next
    case False
    with nw[of st] have "take 2 (ae_hmac st (ae_userKey st @ le32 (recvID st)) (take 2 s)) \<noteq> sub 2 2 s \<or>
      ?len \<ge> 8192 \<or> ?len < 7"
      by (cases "8192 \<le> ?len"; cases "?len < 7") (auto simp: ae_frame_def Let_def)
    with s show ?thesis by (auto simp: ae_frame_def Let_def)
  qed
next
  fix st st' and s t :: bytes
  assume "4 < length s" "ae_frame st s = Wait st'"
  then show "ae_frame st' (s @ t) = ae_frame st (s @ t)" "ae_rawTrans st' = ae_rawTrans st"
    by (auto simp: ae_frame_def Let_def split: if_splits option.splits)
qed

section \<open>One frame\<close>

lemma Float64_range: "Float64 r = (x, r') \<Longrightarrow> 0 \<le> x \<and> x < 1"
proof -
  assume "Float64 r = (x, r')"
  then have x: "x = real (fst (draw r) mod 2 ^ 53) / 2 ^ 53" by (auto simp: Float64_def draw_def)
  have "fst (draw r) mod 2 ^ 53 < (2 ^ 53 :: nat)" by simp
  then have "real (fst (draw r) mod 2 ^ 53) < 2 ^ 53" by (simp only: of_nat_less_numeral_power_cancel_iff)
  with x show ?thesis by simp
qed

text \<open>At the slope the code passes, the skewed branch is never taken and the draw is below \<open>max\<close>.\<close>

lemma trapezoidRandom_less:
  assumes t: "trapezoidRandom mx (- (3 / 10)) r = (k, r')" and mx: "0 < mx"
  shows "k < mx"
proof -
  obtain x r1 where x: "Float64 r = (x, r1)" by (cases "Float64 r")
  with t have k: "k = nat \<lfloor>x * real mx\<rfloor>" by (simp add: trapezoidRandom_def)
  from Float64_range[OF x] mx have "0 \<le> x * real mx" "x * real mx < real mx" by auto
  then show ?thesis unfolding k by linarith
qed

lemma ae_randForData_bound:
  assumes g: "ae_randForData a n full r = (k, r')" and n: "n \<le> 8100"
  shows "n + k < 8160"
proof -
  consider "k = 0" | "1451 < n" "n < 2911" "k < 2911 - n" | "2911 \<le> n" "k < 32"
    | "n < 1451" "k < 1451 - n"
  proof (cases "int full \<ge> 32 * 1024 - int (Overhead (ae_Base a)) \<or> n = 1451")
    case True
    with g have "k = 0" by (auto simp: ae_randForData_def Let_def split: if_splits)
    with that(1) show ?thesis by blast
  next
    case False
    then have f: "\<not> int full \<ge> 32 * 1024 - int (Overhead (ae_Base a))" "n \<noteq> 1451" by auto
    show ?thesis
    proof (cases "n < 1451")
      case True
      then have rev: "1460 - int n - 9 = int (1451 - n)" by simp
      have nz: "nat (int (1451 - n)) = 1451 - n" "int (1451 - n) \<noteq> 0" "\<not> int (1451 - n) < 0"
        using True by auto
      from g f nz have "Intn (1451 - n) r = (k, r') \<or> trapezoidRandom (1451 - n) (- (3 / 10)) r = (k, r')"
        unfolding ae_randForData_def Let_def rev by (auto split: if_splits)
      then have "k < 1451 - n" using True by (auto dest: Intn_less' trapezoidRandom_less)
      with that(4) True show ?thesis by blast
    next
      case False
      then have big: "1451 < n" using f by simp
      show ?thesis
      proof (cases "n < 2911")
        case True
        then have rev: "1460 - int n - 9 + 1460 = int (2911 - n)" by simp
        have nn: "nat (2911 - int n) = 2911 - n" using True by linarith
        have "trapezoidRandom (2911 - n) (- (3 / 10)) r = (k, r')"
          using g f True big rev by (simp add: ae_randForData_def Let_def nn)
        then have "k < 2911 - n" using trapezoidRandom_less True by simp
        with that(2) True big show ?thesis by blast
      next
        case False
        with g f have "Intn 32 r = (k, r')" by (simp add: ae_randForData_def Let_def)
        with that(3) False show ?thesis by (simp add: Intn_less')
      qed
    qed
  qed
  then show ?thesis using n by cases auto
qed

definition ae_padding :: "nat \<Rightarrow> rng \<Rightarrow> bytes" where
  "ae_padding n r =
     (if n < 128 then [of_nat (n + 1)] else 255 # le16 (of_nat (n + 3))) @ fst (rand_bytes n r)"

lemma length_ae_padding: "length (ae_padding n r) = padded n"
  by (simp add: ae_padding_def padded_def)

lemma ae_packRandData_eq:
  "ae_packRandData buf n r = (buf @ ae_padding n r, snd (rand_bytes n r))"
  by (simp add: ae_packRandData_def AppendRandBytes_conv ae_padding_def)

lemma ae_pos_padding:
  assumes "n < 8192" "length h = 4"
  shows "ae_pos (h @ ae_padding n r @ t) = 4 + padded n"
  using assms by (auto simp: ae_pos_def ae_padding_def padded_def Let_def nth_append
      unat_byte_of_nat unat_uint16_of_nat simp flip: of_nat_Suc of_nat_add)

text \<open>A frame on the wire, under a MAC function and the numbered key.\<close>

definition ae_wire :: "(bytes \<Rightarrow> bytes) \<Rightarrow> bytes \<Rightarrow> bytes \<Rightarrow> bytes" where
  "ae_wire mac p data =
     (let h = le16 (of_nat (8 + length p + length data));
          f = h @ take 2 (mac h) @ p @ data
      in f @ take 4 (mac f))"

lemma ae_packData_eq:
  assumes fn: "ae_fn a \<in> aes_functions" and data: "length data \<le> 8100"
  obtains n r1 r2 where "8 + padded n + length data < 8192"
    "\<And>buf. ae_packData full (a, r) buf data = Ret ((a\<lparr>packID := packID a + 1\<rparr>, r2),
       buf @ ae_wire (ae_hmac a (ae_userKey a @ le32 (packID a))) (ae_padding n r1) data, data)"
proof -
  obtain n r1 where n: "ae_randForData a (length data) full r = (n, r1)"
    by (cases "ae_randForData a (length data) full r")
  have m: "min (length (ae_hmac a k m)) 2 = 2" for k m using length_hmac[OF fn, of k m] by simp
  have "ae_packData full (a, r) buf data = Ret ((a\<lparr>packID := packID a + 1\<rparr>, snd (rand_bytes n r1)),
      buf @ ae_wire (ae_hmac a (ae_userKey a @ le32 (packID a))) (ae_padding n r1) data, data)" for buf
    using n by (simp add: ae_packData_def Let_def ae_wire_def ae_packRandData_eq m
        length_ae_padding padded_def add.assoc)
  with that[of n _ r1] ae_randForData_bound[OF n data] show thesis by (simp add: padded_def)
qed

lemma ae_wire_taken:
  assumes fn: "ae_fn a \<in> aes_functions" and len: "8 + padded n + length data < 8192"
  shows "ae_frame a (ae_wire (ae_hmac a (ae_userKey a @ le32 (recvID a))) (ae_padding n r) data) =
    Frame (a\<lparr>recvID := recvID a + 1\<rparr>) data
      (length (ae_wire (ae_hmac a (ae_userKey a @ le32 (recvID a))) (ae_padding n r) data))"
proof -
  let ?p = "ae_padding n r" and ?mac = "ae_hmac a (ae_userKey a @ le32 (recvID a))"
  define h where "h = le16 (of_nat (8 + length ?p + length data))"
  define c where "c = take 2 (?mac h)"
  define tag where "tag = take 4 (?mac (h @ c @ ?p @ data))"
  define w where "w = ae_wire ?mac ?p data"
  have w: "w = h @ c @ ?p @ data @ tag"
    by (simp add: w_def ae_wire_def Let_def h_def c_def tag_def)
  have l: "length h = 2" "length c = 2" "length tag = 4"
    unfolding c_def tag_def by (simp_all add: h_def length_take_hmac[OF fn] del: length_take)
  let ?len = "8 + padded n + length data"
  have hd: "unat (rd_le16 h) = ?len"
    using len unat_uint16_of_nat[of ?len] by (simp add: h_def length_ae_padding del: of_nat_add)
  note t = frame_cut[OF l(1,2) length_ae_padding l(3) w refl]
  have n: "n < 8192" using len by (simp add: padded_def split: if_splits)
  have x: "ae_pos w = 4 + padded n"
    using l ae_pos_padding[OF n, of "h @ c" r] by (simp add: w)
  have "7 \<le> ?len" by (simp add: padded_def)
  with len t hd show ?thesis
    unfolding w_def[symmetric] by (simp add: ae_frame_def Let_def x c_def tag_def)
qed

section \<open>Packer and decoder in step\<close>

definition aes_sync :: "authAES128 \<Rightarrow> authAES128 \<Rightarrow> bool" where
  "aes_sync e d \<longleftrightarrow> ae_fn e \<in> aes_functions \<and> ae_fn d = ae_fn e \<and> ae_userData d = ae_userData e \<and>
     recvID d = packID e \<and> \<not> ae_rawTrans d"

lemma ae_pack_frame:
  assumes s: "aes_sync e d" and x: "length x \<le> 8100"
  obtains f r' where "\<And>buf. ae_packData full (e, r) buf x = Ret ((e\<lparr>packID := packID e + 1\<rparr>, r'), buf @ f, x)"
    "4 < length f" "ae_frame d f = Frame (d\<lparr>recvID := recvID d + 1\<rparr>) x (length f)"
proof -
  from s have fn: "ae_fn e \<in> aes_functions" "ae_fn d \<in> aes_functions" by (auto simp: aes_sync_def)
  obtain n r1 r2 where n: "8 + padded n + length x < 8192"
    "\<And>buf. ae_packData full (e, r) buf x = Ret ((e\<lparr>packID := packID e + 1\<rparr>, r2),
       buf @ ae_wire (ae_hmac e (ae_userKey e @ le32 (packID e))) (ae_padding n r1) x, x)"
    by (rule ae_packData_eq[OF fn(1) x, of full r]) (rule that)
  have "4 < length (ae_wire (ae_hmac e (ae_userKey e @ le32 (packID e))) (ae_padding n r1) x)"
    by (simp add: ae_wire_def Let_def length_ae_padding padded_def length_take_hmac[OF fn(1)] del: length_take)
  with that[OF n(2)] ae_wire_taken[OF fn(2) n(1), of r1] s show thesis by (simp add: aes_sync_def)
qed

interpretation aep: frame_pair ae_frame ae_rawTrans "ae_packData full"
  "\<lambda>k s d. aes_sync (fst s) d \<and> fst s\<lparr>packID := 0\<rparr> = a0" 8100 for full a0
proof
  fix k :: nat and s :: "_ \<times> rng" and d and x buf :: bytes
  assume sy: "aes_sync (fst s) d \<and> fst s\<lparr>packID := 0\<rparr> = a0" and x: "0 < length x" "length x \<le> 8100"
  obtain e r where s: "s = (e, r)" by (cases s)
  with sy have sy': "aes_sync e d" by simp
  obtain r' f where f: "\<And>buf. ae_packData full (e, r) buf x = Ret ((e\<lparr>packID := packID e + 1\<rparr>, r'), buf @ f, x)"
    "4 < length f" "ae_frame d f = Frame (d\<lparr>recvID := recvID d + 1\<rparr>) x (length f)"
    by (rule ae_pack_frame[OF sy' x(2), of full r]) (rule that)
  have p: "ae_packData full s buf x = Ret ((e\<lparr>packID := packID e + 1\<rparr>, r'), buf @ f, x)"
    unfolding s by (rule f(1))
  from sy' have "aes_sync (e\<lparr>packID := packID e + 1\<rparr>) (d\<lparr>recvID := recvID d + 1\<rparr>)"
    by (simp add: aes_sync_def)
  moreover from sy s have "e\<lparr>packID := packID e + 1\<rparr>\<lparr>packID := 0\<rparr> = a0" by simp
  ultimately show "\<exists>s' f x' d'. ae_packData full s buf x = Ret (s', buf @ f, x') \<and> 4 < length f \<and>
      (aes_sync (fst s') d' \<and> fst s'\<lparr>packID := 0\<rparr> = a0) \<and> ae_frame d f = Frame d' x (length f)"
    using p f(2,3) by (metis fst_conv)
qed simp

lemma ae_packData_state:
  "\<exists>r' f. ae_packData full s buf x = Ret ((fst s\<lparr>packID := packID (fst s) + 1\<rparr>, r'), f, x)"
  by (cases s) (simp add: ae_packData_def split_beta Let_def)

lemma ae_encode_loop:
  assumes "aes_sync e d"
  shows "\<exists>e' r' f d'. encode_loop 8100 (ae_packData full) (e, r) buf b = Ret ((e', r'), buf @ f, b) \<and>
    aes_sync e' d' \<and> e'\<lparr>packID := 0\<rparr> = e\<lparr>packID := 0\<rparr> \<and>
    (\<forall>dst. ae_Decode d dst f = Ret (None, d', dst @ b, []))"
proof -
  have "aes_sync (fst (e, r)) d \<and> fst (e, r)\<lparr>packID := 0\<rparr> = e\<lparr>packID := 0\<rparr>" using assms by simp
  from aep.encode_decode[OF this, where b = b and buf = buf and full = full] obtain s' f b' d' where f:
    "encode_loop 8100 (ae_packData full) (e, r) buf b = Ret (s', buf @ f, b')"
    "aes_sync (fst s') d'" "fst s'\<lparr>packID := 0\<rparr> = e\<lparr>packID := 0\<rparr>"
    "\<forall>dst t. decode_loop ae_frame d dst (f @ t) = decode_loop ae_frame d' (dst @ b) t" by blast
  have "x' = x" if "ae_packData full s buf x = Ret (s', buf', x')" for s buf x s' buf' x'
    using ae_packData_state[of full s buf x] that by auto
  then have "True \<and> (True \<longrightarrow> b' = b)"
    by (intro encode_loop_inv[OF f(1), where I = "\<lambda>_. True"]) blast+
  moreover have "ae_Decode d dst f = Ret (None, d', dst @ b, [])" for dst
    using f(4)[rule_format, of dst "[]"] assms by (simp add: ae_Decode_def decode_with_def aes_sync_def)
  ultimately show ?thesis using f(1-3) by (cases s') auto
qed

section \<open>The opening packet\<close>

text \<open>
  What a server checks and reads of the opening packet, as the wire format prescribes: the MAC of
  the head and of the encrypted block under IV and key, and the MAC of the whole under the user
  key. The encrypted block is compared with the block for the given identity, time and lengths;
  the server has it by decryption.
\<close>

definition ae_open :: "authAES128 \<Rightarrow> uint32 \<Rightarrow> nat \<Rightarrow> bytes \<Rightarrow> bytes option" where
  "ae_open a now randDataLength h =
     (let macKey = ae_iv a @ Key (ae_Base a);
          block = putEncryptedData (ae_authData a) [] now (ae_userKey a) (length h, randDataLength) (salt (ae_fn a))
      in if length h < 35 + randDataLength \<or>
            sub 1 6 h \<noteq> take 6 (ae_hmac a macKey (take 1 h)) \<or>
            sub 7 4 h \<noteq> userID (ae_userData a) \<or>
            block \<noteq> Some (sub 11 16 h) \<or>
            sub 27 4 h \<noteq> take 4 (ae_hmac a macKey (sub 7 20 h)) \<or>
            drop (length h - 4) h \<noteq> take 4 (ae_hmac a (ae_userKey a) (take (length h - 4) h))
         then None
         else Some (drop (31 + randDataLength) (take (length h - 4) h)))"

text \<open>A conversation partner whose id is four bytes, as every way of making one has it.\<close>

definition ae_wf :: "authAES128 \<Rightarrow> bool" where
  "ae_wf a \<longleftrightarrow> ae_fn a \<in> aes_functions \<and> length (userID (ae_userData a)) = 4"

lemma new_authAES128_wf: "fn \<in> aes_functions \<Longrightarrow> new_authAES128 fn b r = (a, r') \<Longrightarrow> ae_wf a"
  by (auto simp: new_authAES128_def ae_wf_def dest: initUserData_id split: prod.splits)

lemma ae_StreamConn_wf: "ae_wf a \<Longrightarrow> ae_StreamConn a iv r = (p, a', r') \<Longrightarrow> ae_wf p \<and> ae_wf a'"
  by (auto simp: ae_StreamConn_def ae_wf_def split: prod.splits)

lemma ae_packAuthData_eq:
  assumes wf: "ae_wf a" and data: "data \<noteq> []"
  obtains n h r' where "ae_packAuthData a now r [] data = (h, r')" "ae_open a now n h = Some data"
proof -
  let ?mk = "ae_iv a @ Key (ae_Base a)"
  from wf have fn: "ae_fn a \<in> aes_functions" and uid: "length (userID (ae_userData a)) = 4"
    by (auto simp: ae_wf_def)
  note take_len = length_take_hmac[OF fn]
  obtain n r1 where n: "ae_randForAuth (length data) r = (n, r1)" by (cases "ae_randForAuth (length data) r")
  obtain x r2 where x: "Intn 256 r1 = (x, r2)" by (cases "Intn 256 r1")
  obtain p r3 where p: "rand_bytes n r2 = (p, r3)" by (cases "rand_bytes n r2")
  let ?len = "35 + n + length data"
  define m6 where "m6 = take 6 (ae_hmac a ?mk [of_nat x])"
  define uidb where "uidb = userID (ae_userData a)"
  obtain c where c: "length c = 16"
    "\<And>b. putEncryptedData (ae_authData a) b now (ae_userKey a) (?len, n) (salt (ae_fn a)) = Some (b @ c)"
    using putEncryptedData_Some by blast
  define m4 where "m4 = take 4 (ae_hmac a ?mk (uidb @ c))"
  define f where "f = [of_nat x] @ m6 @ uidb @ c @ m4 @ p @ data"
  define tag where "tag = take 4 (ae_hmac a (ae_userKey a) f)"
  have l: "length m6 = 6" "length uidb = 4" "length m4 = 4" "length p = n" "length tag = 4"
    using uid length_rand_bytes'[OF p]
    by (simp_all add: m6_def uidb_def m4_def tag_def take_len del: length_take)
  have e: "7 + 4 + 16 + 4 + n + length data + 4 = ?len" by simp
  have "ae_packAuthData a now r [] data = (f @ tag, r3)"
    using data l(1,2) unfolding ae_packAuthData_def Let_def n x prod.case e
    by (simp add: c(2) uidb_def[symmetric] m6_def[symmetric] AppendRandBytes_def p f_def m4_def tag_def)
  moreover have "ae_open a now n (f @ tag) = Some data"
  proof -
    define w where "w = f @ tag"
    have lf: "length f = ?len - 4" using l c(1) by (simp add: f_def)
    then have "length w = ?len" "drop (?len - 4) w = tag" "take (?len - 4) w = f"
      using l by (simp_all add: w_def)
    moreover have "take 1 w = [of_nat x]" "sub 1 6 w = m6" "sub 7 4 w = uidb" "sub 11 16 w = c"
      "sub 27 4 w = m4" "sub 7 20 w = uidb @ c" "drop (31 + n) f = data"
      using l c(1) by (simp_all add: w_def f_def drop_Cons')
    ultimately show ?thesis
      unfolding w_def[symmetric] ae_open_def Let_def
      by (simp add: c(2) m6_def m4_def tag_def uidb_def)
  qed
  ultimately show thesis by (rule that)
qed

text \<open>\<open>Encode\<close> of an open connection, for the connection over it.\<close>

lemma ae_Encode_open:
  assumes "ae_hasSentHeader e" and sync: "aes_sync e d"
  shows "\<exists>f e' r' d'. ae_Encode e now r buf b = Ret ((e', r'), buf @ f, b) \<and> aes_sync e' d' \<and>
    ae_hasSentHeader e' \<and> (\<forall>dst. ae_Decode d dst f = Ret (None, d', dst @ b, []))"
proof -
  from ae_encode_loop[OF sync, of "length b" r buf b] obtain e' r' f d' where
    l: "encode_loop 8100 (ae_packData (length b)) (e, r) buf b = Ret ((e', r'), buf @ f, b)"
    "aes_sync e' d'" "e'\<lparr>packID := 0\<rparr> = e\<lparr>packID := 0\<rparr>"
    "\<forall>dst. ae_Decode d dst f = Ret (None, d', dst @ b, [])" by blast
  from l(3) assms(1) have "ae_hasSentHeader e'" by (auto dest: arg_cong[where f = ae_hasSentHeader])
  with l assms(1) show ?thesis by (auto simp: ae_Encode_def Let_def)
qed

section \<open>Properties\<close>

definition ae_example :: authAES128 where
  "ae_example = \<lparr>ae_Base = \<lparr>Key = [1], Overhead = 9, Param = []\<rparr>, ae_authData = new_authData,
     ae_fn = aes128_sha1, ae_userData = \<lparr>userKey = [1], userID = [0, 0, 0, 7]\<rparr>, ae_iv = [],
     ae_hasSentHeader = False, ae_rawTrans = False, packID = 1, recvID = 1\<rparr>"

text \<open>
  C10: The first \<open>Encode\<close> of some data puts an opening packet at the front of the buffer that passes
  every check of a server with the same keys and yields a non-empty prefix of the data, and then
  frames that a peer in step decodes to the rest.
\<close>

theorem ae_first_Encode:
  assumes "\<not> ae_hasSentHeader e" "ae_wf e" and sync: "aes_sync e d" and b: "b \<noteq> []"
  shows "\<exists>n m h f e' r' d'. ae_Encode e now r [] b = Ret ((e', r'), h @ f, b) \<and>
    ae_open e now m h = Some (take n b) \<and> 0 < n \<and> n \<le> 290 \<and> aes_sync e' d' \<and>
    ae_hasSentHeader e' \<and> (\<forall>dst. ae_Decode d dst f = Ret (None, d', dst @ drop n b, []))"
proof -
  obtain n r1 where n: "getDataLength b r = (n, r1)" by (cases "getDataLength b r")
  note pos = getDataLength_pos[OF n b]
  with b have ne: "take n b \<noteq> []" by simp
  obtain m h r2 where h: "ae_packAuthData e now r1 [] (take n b) = (h, r2)" "ae_open e now m h = Some (take n b)"
    by (rule ae_packAuthData_eq[OF assms(2) ne, of now r1]) (rule that)
  let ?e = "e\<lparr>ae_hasSentHeader := True\<rparr>"
  have "aes_sync ?e d" using sync by (simp add: aes_sync_def)
  from ae_encode_loop[OF this, of "length b" r2 h "drop n b"] obtain e' r' f d' where
    l: "encode_loop 8100 (ae_packData (length b)) (?e, r2) h (drop n b) = Ret ((e', r'), h @ f, drop n b)"
    "aes_sync e' d'" "e'\<lparr>packID := 0\<rparr> = ?e\<lparr>packID := 0\<rparr>"
    "\<forall>dst. ae_Decode d dst f = Ret (None, d', dst @ drop n b, [])" by blast
  from l(3) have "ae_hasSentHeader e'" by (auto dest: arg_cong[where f = ae_hasSentHeader])
  moreover from l(1) n h(1) assms(1) have "ae_Encode e now r [] b = Ret ((e', r'), h @ f, b)"
    by (simp add: ae_Encode_def Let_def)
  ultimately show ?thesis using h(2) l(2,4) pos getDataLength_bound[OF n] by blast
qed

theorem ae_first_Encode_witness:
  "\<exists>s n m h f. ae_open ae_example 7 m h = Some (take n [5, 6]) \<and> 0 < n \<and>
     ae_Encode ae_example 7 \<lparr>draws = \<lambda>n. n, rpos = 0\<rparr> [] [5, 6] = Ret (s, h @ f, [5, 6])"
proof -
  have "\<not> ae_hasSentHeader ae_example" "ae_wf ae_example" "aes_sync ae_example ae_example"
    by (simp_all add: ae_example_def aes_sync_def ae_wf_def aes_functions_def)
  from ae_first_Encode[OF this, of "[5, 6]" 7 "\<lparr>draws = \<lambda>n. n, rpos = 0\<rparr>"]
  show ?thesis by blast
qed

text \<open>
  An empty first \<open>Encode\<close> writes nothing and still marks the opening packet as sent; the next
  call on the connection then starts with an ordinary frame, so no opening packet is ever sent.
\<close>

theorem ae_empty_first_Encode:
  "\<exists>r'. ae_Encode e now r [] [] = Ret ((e\<lparr>ae_hasSentHeader := True\<rparr>, r'), [], []) \<and>
     ae_Encode (e\<lparr>ae_hasSentHeader := True\<rparr>) now r' [] b =
       encode_loop 8100 (ae_packData (length b)) (e\<lparr>ae_hasSentHeader := True\<rparr>, r') [] b"
  by (cases "getDataLength [] r")
    (auto simp: ae_Encode_def ae_packAuthData_def)

text \<open>
  \<open>DecodePacket\<close> accepts exactly the packets that end in the four-byte MAC under the
  connection's key and returns what precedes it; a packet too short for a MAC is a length error,
  any other packet a checksum error. When both ends use the key itself (no \<^verbatim>\<open>uid:key\<close>
  parameter), a packet made by \<open>EncodePacket\<close> decodes to its payload followed by the user id.
\<close>

theorem ae_DecodePacket_correct:
  assumes "ae_fn a \<in> aes_functions"
  shows "(ae_DecodePacket a p = Inr b \<longleftrightarrow> p = b @ take 4 (ae_hmac a (Key (ae_Base a)) b)) \<and>
    (ae_DecodePacket a p = Inl errAuthAES128LengthError \<longleftrightarrow> length p < 4) \<and>
    (ae_userKey a' = Key (ae_Base a) \<and> ae_fn a' = ae_fn a \<longrightarrow>
      ae_DecodePacket a (ae_EncodePacket a' [] b) = Inr (b @ userID (ae_userData a')))"
proof -
  have tag: "length (take 4 (ae_hmac a k m)) = 4" for k m
    using length_take_hmac[OF assms] by simp
  have ok: "ae_DecodePacket a (x @ take 4 (ae_hmac a (Key (ae_Base a)) x)) = Inr x" for x
    using tag[of "Key (ae_Base a)" x] by (simp add: ae_DecodePacket_def)
  have "ae_DecodePacket a p = Inr b \<longleftrightarrow> p = b @ take 4 (ae_hmac a (Key (ae_Base a)) b)"
  proof
    assume "ae_DecodePacket a p = Inr b"
    then have "b = take (length p - 4) p" "take 4 (ae_hmac a (Key (ae_Base a)) b) = drop (length p - 4) p"
      by (auto simp: ae_DecodePacket_def split: if_splits)
    then show "p = b @ take 4 (ae_hmac a (Key (ae_Base a)) b)" by simp
  qed (use ok in simp)
  moreover have "ae_DecodePacket a p = Inl errAuthAES128LengthError \<longleftrightarrow> length p < 4"
    by (auto simp: ae_DecodePacket_def)
  moreover have "ae_userKey a' = Key (ae_Base a) \<and> ae_fn a' = ae_fn a \<longrightarrow>
      ae_DecodePacket a (ae_EncodePacket a' [] b) = Inr (b @ userID (ae_userData a'))"
    using ok[of "b @ userID (ae_userData a')"] by (simp add: ae_EncodePacket_def Let_def)
  ultimately show ?thesis by blast
qed

theorem ae_DecodePacket_correct_witness:
  "ae_DecodePacket ae_example [1, 2, 3] = Inl errAuthAES128LengthError \<and>
   ae_DecodePacket ae_example (ae_EncodePacket ae_example [] [8, 9]) = Inr ([8, 9] @ [0, 0, 0, 7])"
proof -
  have "ae_fn ae_example \<in> aes_functions" by (simp add: ae_example_def aes_functions_def)
  from ae_DecodePacket_correct[OF this, of "[1, 2, 3]" "[]" ae_example] ae_DecodePacket_correct[OF this, of "[]" "[8, 9]" ae_example]
  show ?thesis by (simp add: ae_example_def)
qed

end
