(* ===== verification/XorShift.thy ===== *)
theory XorShift
  imports Prelude
begin

text \<open>
  \<^verbatim>\<open>tools/random.go\<close>: the xorshift128+ generator from which both ends of an
  \<^verbatim>\<open>auth_chain\<close> connection derive the same padding lengths. Its state is two 64-bit words;
  the seeding functions panic where the code indexes out of range, and
  \<open>InitFromBinAndLength\<close> writes into the slice it is given.
\<close>

record XorShift128Plus =
  xs_0 :: uint64
  xs_1 :: uint64

definition zero_xorshift :: XorShift128Plus where
  "zero_xorshift = \<lparr>xs_0 = 0, xs_1 = 0\<rparr>"

definition Next :: "XorShift128Plus \<Rightarrow> uint64 \<times> XorShift128Plus" where
  "Next r =
     (let x = xs_0 r; y = xs_1 r;
          x1 = x XOR push_bit 23 x;
          x2 = x1 XOR (y XOR drop_bit 17 x1 XOR drop_bit 26 y)
      in (x2 + y, \<lparr>xs_0 = y, xs_1 = x2\<rparr>))"

fun discard :: "nat \<Rightarrow> XorShift128Plus \<Rightarrow> XorShift128Plus" where
  "discard 0 r = r"
| "discard (Suc n) r = discard n (snd (Next r))"

text \<open>Seeding: the two little-endian words at the front of a slice, or a panic.\<close>

definition seed_words :: "bytes \<Rightarrow> XorShift128Plus go" where
  "seed_words full =
     (case (slice 0 8 full, slice 8 16 full) of
        (Some a, Some b) \<Rightarrow> Ret \<lparr>xs_0 = rd_le64 a, xs_1 = rd_le64 b\<rparr>
      | _ \<Rightarrow> Panic)"

text \<open>
  \<open>InitFromBin\<close>: for a short \<open>bin\<close> the code pads a copy of it, but into a new variable
  that shadows \<^verbatim>\<open>full\<close>; the \<^verbatim>\<open>full\<close> that is read afterwards is still nil.
\<close>

definition InitFromBin :: "bytes \<Rightarrow> XorShift128Plus go" where
  "InitFromBin bin =
     (let full = [] in
      let full = (if length bin < 16
                  then (let shadow = bin @ replicate (16 - length bin) 0 in full)
                  else bin)
      in seed_words full)"

text \<open>
  \<open>InitFromBinAndLength\<close>: the padded copy is again discarded, and \<^verbatim>\<open>full\<close> is
  \<^verbatim>\<open>bin\<close> itself, whose first two bytes the length overwrites. The result is the generator and
  what \<^verbatim>\<open>bin\<close> holds afterwards.
\<close>

definition InitFromBinAndLength :: "bytes \<Rightarrow> nat \<Rightarrow> (XorShift128Plus \<times> bytes) go" where
  "InitFromBinAndLength bin len =
     (let full = bin in
      if length full < 2 then Panic
      else let full = copy_at 0 (le16 (of_nat len)) full in
           go_bind (seed_words full) (\<lambda>r. Ret (discard 4 r, full)))"

section \<open>The seeding functions\<close>

lemma seed_words_Ret_iff: "(\<exists>r. seed_words b = Ret r) \<longleftrightarrow> 16 \<le> length b"
  by (auto simp: seed_words_def slice_def)

lemma seed_words_long:
  "16 \<le> length b \<Longrightarrow> seed_words b = Ret \<lparr>xs_0 = rd_le64 (take 8 b), xs_1 = rd_le64 (sub 8 8 b)\<rparr>"
  by (simp add: seed_words_def slice_def)

lemma seed_words_no_hang [simp]: "seed_words b \<noteq> Hang"
  by (auto simp: seed_words_def split: option.split prod.split)

lemma InitFromBin_long: "16 \<le> length bin \<Longrightarrow> InitFromBin bin = seed_words bin"
  by (simp add: InitFromBin_def Let_def)

lemma InitFromBin_short: "length bin < 16 \<Longrightarrow> InitFromBin bin = Panic"
  by (simp add: InitFromBin_def Let_def seed_words_def slice_def)

text \<open>Writing the length twice is writing it once: a retried frame seeds the same generator.\<close>

lemma overwrite_front:
  "2 \<le> length b \<Longrightarrow> copy_at 0 (le16 w) (copy_at 0 (le16 v) b) = copy_at 0 (le16 w) b"
  by (simp add: copy_at_def)

lemma InitFromBinAndLength_long:
  assumes "16 \<le> length bin"
  obtains r where "InitFromBinAndLength bin len = Ret (r, copy_at 0 (le16 (of_nat len)) bin)"
proof -
  have "16 \<le> length (copy_at 0 (le16 (of_nat len)) bin)" using assms by simp
  then obtain r where "seed_words (copy_at 0 (le16 (of_nat len)) bin) = Ret r"
    using seed_words_long by blast
  with assms that show thesis by (simp add: InitFromBinAndLength_def)
qed

lemma InitFromBinAndLength_again:
  "16 \<le> length bin \<Longrightarrow>
   InitFromBinAndLength (copy_at 0 (le16 (of_nat len)) bin) len = InitFromBinAndLength bin len"
  by (simp add: InitFromBinAndLength_def overwrite_front)

section \<open>The step is injective\<close>

text \<open>A word that equals its own shift is zero, so the two xor-shifts lose nothing.\<close>

lemma drop_bit_fixed_zero:
  fixes d :: "'a::len word"
  assumes d: "d = drop_bit k d" and k: "0 < k"
  shows "d = 0"
proof (rule bit_word_eqI)
  fix n assume "n < LENGTH('a)"
  have step: "bit d m = bit d (m + k)" for m
    by (subst d) (simp add: bit_drop_bit_eq add.commute)
  have "bit d m = bit d (m + i * k)" for m i
    by (induction i) (simp_all add: step[of "m + _ * k"] algebra_simps)
  from this[of n "LENGTH('a)"] k have "bit d n = bit d (n + LENGTH('a) * k)" by simp
  moreover have "LENGTH('a) \<le> n + LENGTH('a) * k" using k by (simp add: trans_le_add2)
  then have "\<not> bit d (n + LENGTH('a) * k)" using bit_imp_le_length[of d] by fastforce
  ultimately show "bit d n = bit (0 :: 'a word) n" by simp
qed

lemma push_bit_fixed_zero:
  fixes d :: "'a::len word"
  assumes d: "d = push_bit k d" and k: "0 < k"
  shows "d = 0"
proof (rule bit_word_eqI)
  have "\<not> bit d n" for n
  proof (induction n rule: less_induct)
    case (less n)
    have "bit d n = bit (push_bit k d) n" using d by simp
    also have "\<dots> \<longleftrightarrow> k \<le> n \<and> n < LENGTH('a) \<and> bit d (n - k)"
      by (auto simp: bit_push_bit_iff dest: bit_imp_le_length)
    finally show ?case using less[of "n - k"] k by (cases "k \<le> n") auto
  qed
  then show "bit d n = bit (0 :: 'a word) n" for n by simp
qed

lemma xor_eq_iff: "(a :: 'a::len word) XOR b = 0 \<longleftrightarrow> a = b"
  by (metis xor.left_neutral xor.right_neutral xor_self_eq xor.assoc)

lemma xor_right_cancel: "a XOR c = b XOR c \<Longrightarrow> a = (b :: 'a::len word)"
  by (drule arg_cong[where f = "\<lambda>x. x XOR c"]) (simp add: xor.assoc)

lemma xor_shift_right_inj:
  assumes "(x :: 'a::len word) XOR drop_bit k x = y XOR drop_bit k y" and "0 < k"
  shows "x = y"
proof -
  let ?d = "x XOR y"
  have "?d XOR drop_bit k ?d = (x XOR drop_bit k x) XOR (y XOR drop_bit k y)"
    by (simp only: drop_bit_xor ac_simps)
  also have "\<dots> = 0" by (simp add: assms(1))
  finally have "?d = drop_bit k ?d" by (simp only: xor_eq_iff)
  then have "?d = 0" using assms(2) by (rule drop_bit_fixed_zero)
  then show ?thesis by (simp add: xor_eq_iff)
qed

lemma xor_shift_left_inj:
  assumes "(x :: 'a::len word) XOR push_bit k x = y XOR push_bit k y" and "0 < k"
  shows "x = y"
proof -
  let ?d = "x XOR y"
  have "?d XOR push_bit k ?d = (x XOR push_bit k x) XOR (y XOR push_bit k y)"
    by (simp only: push_bit_xor ac_simps)
  also have "\<dots> = 0" by (simp add: assms(1))
  finally have "?d = push_bit k ?d" by (simp only: xor_eq_iff)
  then have "?d = 0" using assms(2) by (rule push_bit_fixed_zero)
  then show ?thesis by (simp add: xor_eq_iff)
qed

text \<open>
  The generator's step is injective: states that differ keep differing, so no seed entropy is
  lost by discarding draws, and a state other than all-zero never decays to the all-zero state,
  from which every further draw would be zero.
\<close>

theorem Next_injective:
  "(snd (Next r) = snd (Next r')) = (r = r') \<and>
   (snd (Next r) = zero_xorshift) = (r = zero_xorshift)"
proof -
  have inj: "r = r'" if eq: "snd (Next r) = snd (Next r')" for r r'
  proof -
    define a b a' b' where "a = xs_0 r" and "b = xs_1 r" and "a' = xs_0 r'" and "b' = xs_1 r'"
    note parts = a_def b_def a'_def b'_def
    define x x' where "x = a XOR push_bit 23 a" and "x' = a' XOR push_bit 23 a'"
    have n: "snd (Next r) = \<lparr>xs_0 = b, xs_1 = x XOR (b XOR drop_bit 17 x XOR drop_bit 26 b)\<rparr>"
      by (simp only: Next_def Let_def x_def parts snd_conv)
    have n': "snd (Next r') = \<lparr>xs_0 = b', xs_1 = x' XOR (b' XOR drop_bit 17 x' XOR drop_bit 26 b')\<rparr>"
      by (simp only: Next_def Let_def x'_def parts snd_conv)
    from eq n n' have b: "b = b'" by simp
    from eq n n' b have "x XOR (b XOR drop_bit 17 x XOR drop_bit 26 b) =
        x' XOR (b XOR drop_bit 17 x' XOR drop_bit 26 b)" by simp
    then have "(x XOR drop_bit 17 x) XOR (b XOR drop_bit 26 b) =
        (x' XOR drop_bit 17 x') XOR (b XOR drop_bit 26 b)"
      by (simp only: ac_simps)
    then have "x XOR drop_bit 17 x = x' XOR drop_bit 17 x'" by (rule xor_right_cancel)
    then have "x = x'" by (rule xor_shift_right_inj) simp
    then have "a = a'" unfolding x_def x'_def by (rule xor_shift_left_inj) simp
    with b show ?thesis by (simp add: parts)
  qed
  have zero: "snd (Next zero_xorshift) = zero_xorshift"
    by (simp add: Next_def zero_xorshift_def)
  show ?thesis using inj[of r r'] inj[of r zero_xorshift] zero by auto
qed

text \<open>
  \<open>InitFromBin\<close> returns exactly for inputs of at least 16 bytes: a shorter input, which the
  code means to pad with zeros, panics, because the padded copy is bound to a new variable that
  shadows the one read afterwards. On the inputs it accepts it reads the first 16 bytes.
\<close>

theorem InitFromBin_domain:
  "(InitFromBin bin = Panic) = (length bin < 16) \<and> InitFromBin bin \<noteq> Hang \<and>
   (InitFromBin (bin @ rest) = InitFromBin bin) = (16 \<le> length bin \<or> length (bin @ rest) < 16)"
proof (cases "16 \<le> length bin")
  case True
  then show ?thesis by (simp add: InitFromBin_long seed_words_long)
next
  case False
  then show ?thesis
    by (cases "length (bin @ rest) < 16")
      (simp_all add: InitFromBin_short InitFromBin_long seed_words_long)
qed

end
