(* ===== verification/Auth_Chain.thy ===== *)
theory Auth_Chain
  imports Protocol_Base XorShift
begin

text \<open>
  The protocols \<^verbatim>\<open>auth_chain_a\<close> and \<^verbatim>\<open>auth_chain_b\<close>
  (\<^verbatim>\<open>protocol/auth_chain_a.go\<close>, \<^verbatim>\<open>protocol/auth_chain_b.go\<close>). Both are one record:
  they differ in the method that draws the padding length, the code's field \<open>randDataLength\<close>.
  Each frame is sized by a generator both ends seed from the MAC of the previous frame, and
  its data is RC4 under a key derived from the opening packet, so that an end that loses step
  cannot even find the next frame. \<open>rand_length\<close> states what the chain needs of the method.
\<close>

section \<open>Padding lengths\<close>

text \<open>
  The method values the field can hold: \<open>authChainA.getRandLength\<close>, or
  \<open>authChainB.getRandLength\<close> with the two size lists of the receiver it is bound to.
\<close>

datatype randDataLengthMethod = RandLengthA | RandLengthB "nat list" "nat list"

text \<open>One draw below a constant, for the four bands of length.\<close>

definition band_draw :: "nat \<Rightarrow> XorShift128Plus \<Rightarrow> nat \<times> XorShift128Plus" where
  "band_draw len random =
     (case Next random of (x, random') \<Rightarrow>
        (if len > 1300 then unat (x mod 31)
         else if len > 900 then unat (x mod 127)
         else if len > 400 then unat (x mod 521)
         else unat (x mod 1021), random'))"

text \<open>A method returns the length and the state of the generator, and writes to the hash.\<close>

definition chain_a_getRandLength ::
  "nat \<Rightarrow> bytes \<Rightarrow> XorShift128Plus \<Rightarrow> (nat \<times> bytes \<times> XorShift128Plus) go" where
  "chain_a_getRandLength len lastHash random =
     (if len > 1440 then Ret (0, lastHash, random)
      else go_bind (InitFromBinAndLength lastHash len) (\<lambda>(random, lastHash).
        case band_draw len random of (n, random) \<Rightarrow> Ret (n, lastHash, random)))"

text \<open>\<^verbatim>\<open>sort.Search\<close>: binary search for the first index at which \<open>f\<close> holds.\<close>

function search_loop :: "(nat \<Rightarrow> bool) \<Rightarrow> nat \<Rightarrow> nat \<Rightarrow> nat" where
  "search_loop f i j =
     (if i < j then let h = (i + j) div 2 in
        if \<not> f h then search_loop f (h + 1) j else search_loop f i h
      else i)"
  by pat_completeness auto
termination
  by (relation "measure (\<lambda>(f, i, j). j - i)") auto

declare search_loop.simps [simp del]

definition sort_Search :: "nat \<Rightarrow> (nat \<Rightarrow> bool) \<Rightarrow> nat" where
  "sort_Search n f = search_loop f 0 n"

text \<open>
  \<open>authChainB.getRandLength\<close>. An empty list is a division by zero, hence a panic. The differences
  \<^verbatim>\<open>list[finalPos] - length - Overhead\<close> are natural numbers: on sorted lists they do not go
  below zero, see \<open>search_at_least\<close>.
\<close>

definition chain_b_getRandLength ::
  "nat list \<Rightarrow> nat list \<Rightarrow> nat \<Rightarrow> nat \<Rightarrow> bytes \<Rightarrow> XorShift128Plus \<Rightarrow>
     (nat \<times> bytes \<times> XorShift128Plus) go" where
  "chain_b_getRandLength dataSizeList dataSizeList2 overhead len lastHash random =
     (if len \<ge> 1440 then Ret (0, lastHash, random)
      else go_bind (InitFromBinAndLength lastHash len) (\<lambda>(random, lastHash).
        let n = length dataSizeList;
            pos = sort_Search n (\<lambda>i. dataSizeList ! i \<ge> len + overhead)
        in if n = 0 then Panic else
        case Next random of (x, random) \<Rightarrow>
        let finalPos = pos + unat x mod n
        in if finalPos < n then Ret (dataSizeList ! finalPos - len - overhead, lastHash, random)
        else
        let n2 = length dataSizeList2;
            pos2 = sort_Search n2 (\<lambda>i. dataSizeList2 ! i \<ge> len + overhead)
        in if n2 = 0 then Panic else
        case Next random of (x2, random) \<Rightarrow>
        let finalPos2 = pos2 + unat x2 mod n2
        in if finalPos2 < n2 then Ret (dataSizeList2 ! finalPos2 - len - overhead, lastHash, random)
        else if finalPos2 < pos2 + n2 - 1 then Ret (0, lastHash, random)
        else case band_draw len random of (k, random) \<Rightarrow> Ret (k, lastHash, random)))"

primrec run_randDataLength ::
  "nat \<Rightarrow> randDataLengthMethod \<Rightarrow> nat \<Rightarrow> bytes \<Rightarrow> XorShift128Plus \<Rightarrow>
     (nat \<times> bytes \<times> XorShift128Plus) go" where
  "run_randDataLength overhead RandLengthA = chain_a_getRandLength"
| "run_randDataLength overhead (RandLengthB l1 l2) = chain_b_getRandLength l1 l2 overhead"

text \<open>Where in the padding the data starts: \<^verbatim>\<open>int64(x % 8589934609) % int64(length)\<close>.\<close>

definition getRandStartPos :: "nat \<Rightarrow> XorShift128Plus \<Rightarrow> nat \<times> XorShift128Plus" where
  "getRandStartPos len random =
     (if len = 0 then (0, random)
      else (case Next random of (x, random') \<Rightarrow> (unat (x mod 8589934609) mod len, random')))"

definition udpGetRandLength :: "bytes \<Rightarrow> (nat \<times> XorShift128Plus) go" where
  "udpGetRandLength lastHash =
     go_bind (InitFromBin lastHash) (\<lambda>random.
       case Next random of (x, random') \<Rightarrow> Ret (unat (x mod 127), random'))"

section \<open>The connection\<close>

record authChainA =
  ch_Base :: Base
  ch_authData :: authData
  ch_userData :: userData
  ch_iv :: bytes
  ch_salt :: bytes
  ch_hasSentHeader :: bool
  ch_rawTrans :: bool
  lastClientHash :: bytes
  lastServerHash :: bytes
  encrypter :: "rc4 option"
  decrypter :: "rc4 option"
  randomClient :: XorShift128Plus
  randomServer :: XorShift128Plus
  randDataLength :: "randDataLengthMethod option"
  ch_packID :: uint32
  ch_recvID :: uint32

abbreviation ch_userKey :: "authChainA \<Rightarrow> bytes" where
  "ch_userKey a \<equiv> userKey (ch_userData a)"

definition zero_authChainA :: "Base \<Rightarrow> userData \<Rightarrow> bytes \<Rightarrow> authChainA" where
  "zero_authChainA b u s =
     \<lparr>ch_Base = b, ch_authData = new_authData, ch_userData = u, ch_iv = [], ch_salt = s,
      ch_hasSentHeader = False, ch_rawTrans = False, lastClientHash = [], lastServerHash = [],
      encrypter = None, decrypter = None, randomClient = zero_xorshift, randomServer = zero_xorshift,
      randDataLength = None, ch_packID = 0, ch_recvID = 0\<rparr>"

text \<open>The constructors; the user key is the parameter's text itself, not a digest of it.\<close>

definition newAuthChainA :: "Base \<Rightarrow> rng \<Rightarrow> authChainA \<times> rng" where
  "newAuthChainA b r =
     (case initUserData id b r of (u, r') \<Rightarrow> (zero_authChainA b u (str ''auth_chain_a''), r'))"

definition newAuthChainB :: "Base \<Rightarrow> rng \<Rightarrow> authChainA \<times> rng" where
  "newAuthChainB b r =
     (case initUserData id b r of (u, r') \<Rightarrow> (zero_authChainA b u (str ''auth_chain_b''), r'))"

definition chain_a_StreamConn ::
  "authChainA \<Rightarrow> bytes \<Rightarrow> rng \<Rightarrow> authChainA \<times> authChainA \<times> rng" where
  "chain_a_StreamConn a iv r =
     (case authData_next (ch_authData a) r of (own, shared, r') \<Rightarrow>
        ((zero_authChainA (ch_Base a) (ch_userData a) (ch_salt a))
           \<lparr>ch_authData := own, ch_iv := iv, randDataLength := Some RandLengthA,
            ch_packID := 1, ch_recvID := 1\<rparr>,
         a\<lparr>ch_authData := shared\<rparr>, r'))"

definition ch_PacketConn :: "authChainA \<Rightarrow> authChainA" where
  "ch_PacketConn a = zero_authChainA (ch_Base a) (ch_userData a) (ch_salt a)"

text \<open>\<open>initDataSize\<close>: the size lists are drawn from a generator seeded with the key.\<close>

fun draw_sizes :: "nat \<Rightarrow> XorShift128Plus \<Rightarrow> nat list \<times> XorShift128Plus" where
  "draw_sizes 0 r = ([], r)"
| "draw_sizes (Suc n) r =
     (case Next r of (x, r1) \<Rightarrow>
        case draw_sizes n r1 of (xs, r2) \<Rightarrow> (unat (x mod 2340 mod 2040 mod 1440) # xs, r2))"

definition initDataSize :: "bytes \<Rightarrow> (nat list \<times> nat list \<times> XorShift128Plus) go" where
  "initDataSize key =
     go_bind (InitFromBin key) (\<lambda>r.
       case Next r of (x, r1) \<Rightarrow>
       case draw_sizes (unat (x mod 8 + 4)) r1 of (l1, r2) \<Rightarrow>
       case Next r2 of (y, r3) \<Rightarrow>
       case draw_sizes (unat (y mod 16 + 8)) r3 of (l2, r4) \<Rightarrow> Ret (sort l1, sort l2, r4))"

definition chain_b_StreamConn ::
  "authChainA \<Rightarrow> bytes \<Rightarrow> rng \<Rightarrow> (authChainA \<times> authChainA \<times> rng) go" where
  "chain_b_StreamConn a iv r =
     (case authData_next (ch_authData a) r of (own, shared, r') \<Rightarrow>
        go_bind (initDataSize (Key (ch_Base a))) (\<lambda>(l1, l2, x).
          Ret ((zero_authChainA (ch_Base a) (ch_userData a) (ch_salt a))
                 \<lparr>ch_authData := own, ch_iv := iv, randDataLength := Some (RandLengthB l1 l2),
                  randomServer := x, ch_packID := 1, ch_recvID := 1\<rparr>,
               a\<lparr>ch_authData := shared\<rparr>, r')))"

section \<open>Decode\<close>

text \<open>
  One round, in two parts. The second works on a frame whose lengths are known. A nil hash, method
  or cipher is a panic, as is a first frame too short for the two bytes it is to drop. (The
  methods return or panic; \<open>Hang\<close> does not occur.)
\<close>

definition chain_body :: "authChainA \<Rightarrow> nat \<Rightarrow> nat \<Rightarrow> bytes \<Rightarrow> authChainA step" where
  "chain_body a dataLength n src =
     (let macKey = ch_userKey a @ le32 (ch_recvID a); len = dataLength + n in
      if len \<ge> 4096 then Fail errAuthChainLengthError (a\<lparr>ch_rawTrans := True\<rparr>)
      else if 4 + len > length src then Wait a
      else let serverHash = HmacMD5 macKey (take (len + 2) src) in
        if take 2 serverHash \<noteq> sub (len + 2) 2 src
        then Fail errAuthChainChksumError (a\<lparr>ch_rawTrans := True\<rparr>)
        else case (if 0 < dataLength \<and> 0 < n
                   then (case getRandStartPos n (randomServer a) of (k, random) \<Rightarrow> (2 + k, random))
                   else (2, randomServer a)) of (pos, random) \<Rightarrow>
          (case (slice pos (pos + dataLength) src, decrypter a) of
             (Some wanted, Some c) \<Rightarrow>
               (case XORKeyStream c wanted of (plain, c') \<Rightarrow>
                  let a' = a\<lparr>lastServerHash := serverHash, randomServer := random,
                             decrypter := Some c', ch_recvID := ch_recvID a + 1\<rparr>
                  in if ch_recvID a = 1
                     then (case slice 2 dataLength plain of
                             None \<Rightarrow> Crash | Some out \<Rightarrow> Frame a' out (len + 4))
                     else Frame a' plain (len + 4))
           | _ \<Rightarrow> Crash))"

definition chain_frame :: "authChainA \<Rightarrow> bytes \<Rightarrow> authChainA step" where
  "chain_frame a src =
     (case (slice 14 16 (lastServerHash a), randDataLength a) of
        (Some h, Some m) \<Rightarrow>
          let dataLength = unat (rd_le16 (take 2 src) XOR rd_le16 h) in
          (case run_randDataLength (Overhead (ch_Base a)) m dataLength (lastServerHash a) (randomServer a) of
             Ret (n, hash, random) \<Rightarrow>
               chain_body (a\<lparr>lastServerHash := hash, randomServer := random\<rparr>) dataLength n src
           | _ \<Rightarrow> Crash)
      | _ \<Rightarrow> Crash)"

definition chain_Decode ::
  "authChainA \<Rightarrow> bytes \<Rightarrow> bytes \<Rightarrow> (protocol_error option \<times> authChainA \<times> bytes \<times> bytes) go" where
  "chain_Decode = decode_with ch_rawTrans chain_frame"

section \<open>Encode\<close>

text \<open>\<open>putMixedRandDataAndData\<close>: the padding around the data, split where both ends agree to.\<close>

definition putMixedRandDataAndData ::
  "authChainA \<Rightarrow> rng \<Rightarrow> bytes \<Rightarrow> bytes \<Rightarrow> (authChainA \<times> rng \<times> bytes) go" where
  "putMixedRandDataAndData a r buf data =
     (case randDataLength a of None \<Rightarrow> Panic
      | Some m \<Rightarrow>
        go_bind (run_randDataLength (Overhead (ch_Base a)) m (length data) (lastClientHash a) (randomClient a))
          (\<lambda>(n, hash, random).
             let a1 = a\<lparr>lastClientHash := hash, randomClient := random\<rparr> in
             if length data = 0
             then (case AppendRandBytes buf n r of (buf1, r1) \<Rightarrow> Ret (a1, r1, buf1))
             else if 0 < n
             then (case getRandStartPos n random of (startPos, random) \<Rightarrow>
                   case AppendRandBytes buf startPos r of (buf1, r1) \<Rightarrow>
                   case AppendRandBytes (buf1 @ data) (n - startPos) r1 of (buf2, r2) \<Rightarrow>
                     Ret (a1\<lparr>randomClient := random\<rparr>, r2, buf2))
             else Ret (a1, r, buf @ data)))"

text \<open>\<open>packData\<close> encrypts the data where it stands: the third result is the caller's slice.\<close>

definition chain_packData ::
  "authChainA \<times> rng \<Rightarrow> bytes \<Rightarrow> bytes \<Rightarrow> ((authChainA \<times> rng) \<times> bytes \<times> bytes) go" where
  "chain_packData = (\<lambda>(a, r) buf data.
     case (encrypter a, slice 14 16 (lastClientHash a)) of
       (Some c, Some h) \<Rightarrow>
         (case XORKeyStream c data of (enc, c') \<Rightarrow>
            let macKey = ch_userKey a @ le32 (ch_packID a);
                a1 = a\<lparr>encrypter := Some c', ch_packID := ch_packID a + 1\<rparr>;
                len = of_nat (length enc) XOR rd_le16 h;
                originalLength = length buf
            in go_bind (putMixedRandDataAndData a1 r (buf @ le16 len) enc) (\<lambda>(a2, r2, buf2).
                 let hash = HmacMD5 macKey (drop originalLength buf2)
                 in Ret ((a2\<lparr>lastClientHash := hash\<rparr>, r2), buf2 @ take 2 hash, enc)))
     | _ \<Rightarrow> Panic)"

definition initRC4Cipher :: "authChainA \<Rightarrow> authChainA" where
  "initRC4Cipher a =
     (let key = kdf (b64_encode (ch_userKey a) @ b64_encode (lastClientHash a)) 16
      in a\<lparr>encrypter := rc4_NewCipher key, decrypter := rc4_NewCipher key\<rparr>)"

definition chain_packAuthData ::
  "authChainA \<Rightarrow> uint32 \<Rightarrow> rng \<Rightarrow> bytes \<Rightarrow> bytes \<Rightarrow> ((authChainA \<times> rng) \<times> bytes \<times> bytes) go" where
  "chain_packAuthData a now r buf data =
     (let macKey = ch_iv a @ Key (ch_Base a) in
      case AppendRandBytes buf 4 r of (buf1, r1) \<Rightarrow>
      let a1 = initRC4Cipher (a\<lparr>lastClientHash := HmacMD5 macKey buf1\<rparr>);
          buf2 = buf1 @ take 8 (lastClientHash a1);
          buf3 = buf2 @ le32 (rd_le32 (userID (ch_userData a)) XOR rd_le32 (sub 8 4 (lastClientHash a1)))
      in case putEncryptedData (ch_authData a) buf3 now (ch_userKey a) (Overhead (ch_Base a), 0) (ch_salt a) of
           None \<Rightarrow> Ret ((a1, r1), [], data)
         | Some buf4 \<Rightarrow>
             let a2 = a1\<lparr>lastServerHash := HmacMD5 (ch_userKey a) (drop 12 buf4)\<rparr>
             in chain_packData (a2, r1) (buf4 @ take 4 (lastServerHash a2)) data)"

definition chain_Encode ::
  "authChainA \<Rightarrow> uint32 \<Rightarrow> rng \<Rightarrow> bytes \<Rightarrow> bytes \<Rightarrow> ((authChainA \<times> rng) \<times> bytes \<times> bytes) go" where
  "chain_Encode a now r buf b =
     (if ch_hasSentHeader a then encode_loop 2800 chain_packData (a, r) buf b
      else (case getDataLength b r of (dataLength, r1) \<Rightarrow>
        go_bind (chain_packAuthData a now r1 buf (take dataLength b)) (\<lambda>((a1, r2), buf1, x).
        go_bind (encode_loop 2800 chain_packData (a1\<lparr>ch_hasSentHeader := True\<rparr>, r2) buf1 (drop dataLength b))
          (\<lambda>(s, buf2, rest). Ret (s, buf2, x @ rest)))))"

section \<open>Packets\<close>

definition packet_cipher :: "authChainA \<Rightarrow> bytes \<Rightarrow> rc4 option" where
  "packet_cipher a md5Data =
     rc4_NewCipher (kdf (b64_encode (ch_userKey a) @ b64_encode md5Data) 16)"

text \<open>
  \<open>DecodePacket\<close>: the last byte is a MAC, the seven before it seed padding length and key. The
  length is not checked against the packet: a slice bound below zero is a panic. (The generator
  a packet leaves in the record is seeded anew before its next use, and is left out.)
\<close>

definition chain_DecodePacket :: "authChainA \<Rightarrow> bytes \<Rightarrow> (protocol_error + bytes) go" where
  "chain_DecodePacket a b =
     (if length b < 9 then Ret (Inl errAuthChainLengthError)
      else if take 1 (HmacMD5 (ch_userKey a) (take (length b - 1) b)) \<noteq> drop (length b - 1) b
      then Ret (Inl errAuthChainChksumError)
      else let md5Data = HmacMD5 (Key (ch_Base a)) (sub (length b - 8) 7 b) in
        go_bind (udpGetRandLength md5Data) (\<lambda>(n, random).
          case packet_cipher a md5Data of None \<Rightarrow> Ret (Inl errRC4KeySize)
          | Some c \<Rightarrow>
              if length b < 8 + n then Panic
              else Ret (Inr (fst (XORKeyStream c (take (length b - 8 - n) b))))))"

text \<open>\<open>EncodePacket\<close>; the second result is the caller's slice, encrypted in place.\<close>

definition chain_EncodePacket ::
  "authChainA \<Rightarrow> rng \<Rightarrow> bytes \<Rightarrow> bytes \<Rightarrow> (protocol_error + bytes \<times> bytes \<times> rng) go" where
  "chain_EncodePacket a r buf b =
     (case rand_bytes 3 r of (authData, r1) \<Rightarrow>
        let md5Data = HmacMD5 (Key (ch_Base a)) authData in
        go_bind (udpGetRandLength md5Data) (\<lambda>(n, random).
          case packet_cipher a md5Data of None \<Rightarrow> Ret (Inl errRC4KeySize)
          | Some c \<Rightarrow>
              let enc = fst (XORKeyStream c b) in
              case AppendRandBytes (buf @ enc) n r1 of (buf1, r2) \<Rightarrow>
              let buf2 = buf1 @ authData @
                    le32 (rd_le32 (userID (ch_userData a)) XOR rd_le32 (take 4 md5Data))
              in Ret (Inr (buf2 @ take 1 (HmacMD5 (ch_userKey a) buf2), enc, r2))))"

section \<open>What the chain needs of a method\<close>

text \<open>
  Asking again, from what the first answer left, gives the same answer (a round that waits is
  retried); only the first two bytes of the hash are written; and two ends that hold the same hash
  get the same length whatever their generators held, and the same generator if there is padding
  to place.
\<close>

locale rand_length =
  fixes f :: "nat \<Rightarrow> bytes \<Rightarrow> XorShift128Plus \<Rightarrow> (nat \<times> bytes \<times> XorShift128Plus) go"
  assumes again: "f len h r = Ret (n, h', r') \<Longrightarrow> f len h' r' = Ret (n, h', r')"
    and tail: "f len h r = Ret (n, h', r') \<Longrightarrow> length h' = length h \<and> drop 2 h' = drop 2 h"
    and agree: "f len h r = Ret (n, h', r1) \<Longrightarrow> \<exists>r2. f len h s = Ret (n, h', r2) \<and> (0 < n \<longrightarrow> r2 = r1)"
begin

lemma same_mask: "f len h r = Ret (n, h', r') \<Longrightarrow> slice 14 16 h' = slice 14 16 h"
proof -
  assume "f len h r = Ret (n, h', r')"
  from tail[OF this] have "length h' = length h" "drop 12 (drop 2 h') = drop 12 (drop 2 h)" by auto
  then show ?thesis by (simp add: slice_def)
qed

text \<open>Both ends place the data at the same offset, within the padding.\<close>

lemma same_start:
  assumes "f len h r = Ret (n, h', r1)" "0 < n"
  obtains k r2 where "getRandStartPos n r1 = (k, r2)" "k < n"
    "\<And>s. \<exists>s1. f len h s = Ret (n, h', s1) \<and> getRandStartPos n s1 = (k, r2)"
proof -
  obtain k r2 where k: "getRandStartPos n r1 = (k, r2)" by (cases "getRandStartPos n r1")
  then have "k < n" using assms(2) by (auto simp: getRandStartPos_def split: prod.splits if_splits)
  moreover have "\<exists>s1. f len h s = Ret (n, h', s1) \<and> getRandStartPos n s1 = (k, r2)" for s
    using agree[OF assms(1), of s] assms(2) k by auto
  ultimately show thesis using k that by blast
qed

end

text \<open>
  A method that is ready for use: on the digest of a frame it returns, and no frame of at most
  2800 bytes of data is as long as the 4096 bytes at which \<open>Decode\<close> gives up.
\<close>

locale rand_length_bounded = rand_length +
  assumes returns: "16 \<le> length h \<Longrightarrow> \<exists>n h' r'. f len h r = Ret (n, h', r')"
    and bounded: "len \<le> 2800 \<Longrightarrow> f len h r = Ret (n, h', r') \<Longrightarrow> len + n < 4096"

lemma InitFromBinAndLength_RetD:
  assumes "InitFromBinAndLength bin len = Ret (r, b)"
  shows "16 \<le> length bin" "length b = length bin" "drop 2 b = drop 2 bin"
    "InitFromBinAndLength b len = Ret (r, b)"
proof -
  show l: "16 \<le> length bin"
  proof (rule ccontr)
    assume short: "\<not> 16 \<le> length bin"
    from assms have two: "\<not> length bin < 2" by (auto simp: InitFromBinAndLength_def)
    with assms have "\<exists>r. seed_words (copy_at 0 (le16 (of_nat len)) bin) = Ret r"
      by (auto simp: InitFromBinAndLength_def Let_def go_bind_Ret_iff)
    then show False using short two by (simp add: seed_words_Ret_iff)
  qed
  from InitFromBinAndLength_long[OF l, of len] obtain r'
    where "InitFromBinAndLength bin len = Ret (r', copy_at 0 (le16 (of_nat len)) bin)" .
  with assms have b: "b = copy_at 0 (le16 (of_nat len)) bin" by simp
  then show "length b = length bin" using l by simp
  show "drop 2 b = drop 2 bin" using l by (simp add: b copy_at_def numeral_2_eq_2)
  show "InitFromBinAndLength b len = Ret (r, b)"
    using InitFromBinAndLength_again[OF l, of len] assms by (simp add: b)
qed

lemma band_draw_bound: "band_draw len r = (n, r') \<Longrightarrow> n \<le> 1020 \<and> (900 < len \<longrightarrow> n \<le> 126) \<and> (1300 < len \<longrightarrow> n \<le> 30)"
proof -
  have m: "unat (x mod 31) < 31" "unat (x mod 127) < 127" "unat (x mod 521) < 521" "unat (x mod 1021) < 1021"
    for x :: uint64
    by (simp_all add: unat_mod_distrib)
  obtain x r1 where x: "Next r = (x, r1)" by (cases "Next r")
  assume "band_draw len r = (n, r')"
  with x m[of x] show ?thesis by (auto simp: band_draw_def split: if_splits)
qed

section \<open>The two methods provide it\<close>

lemma chain_a_laws:
  assumes f: "chain_a_getRandLength len h r = Ret (n, h', r')"
  shows "chain_a_getRandLength len h' r' = Ret (n, h', r') \<and>
    (length h' = length h \<and> drop 2 h' = drop 2 h) \<and>
    (\<exists>r2. chain_a_getRandLength len h s = Ret (n, h', r2) \<and> (0 < n \<longrightarrow> r2 = r'))"
proof (cases "1440 < len")
  case False
  with f obtain r1 h1 where i: "InitFromBinAndLength h len = Ret (r1, h1)"
    by (auto simp: chain_a_getRandLength_def go_bind_Ret_iff)
  with f False have "h' = h1" by (auto simp: chain_a_getRandLength_def split: prod.splits)
  with f False i InitFromBinAndLength_RetD[OF i] show ?thesis
    by (auto simp: chain_a_getRandLength_def)
qed (use f in \<open>simp add: chain_a_getRandLength_def\<close>)

interpretation A: rand_length_bounded chain_a_getRandLength
proof
  fix len n r r' h h' assume f: "chain_a_getRandLength len h r = Ret (n, h', r')"
  from chain_a_laws[OF f] show "chain_a_getRandLength len h' r' = Ret (n, h', r')"
    "length h' = length h \<and> drop 2 h' = drop 2 h"
    "\<exists>r2. chain_a_getRandLength len h s = Ret (n, h', r2) \<and> (0 < n \<longrightarrow> r2 = r')" for s
    by blast+
  assume len: "len \<le> 2800"
  show "len + n < 4096"
  proof (cases "1440 < len")
    case False
    with f obtain r1 h1 where i: "InitFromBinAndLength h len = Ret (r1, h1)"
      by (auto simp: chain_a_getRandLength_def go_bind_Ret_iff)
    obtain k r2 where k: "band_draw len r1 = (k, r2)" by (cases "band_draw len r1")
    with f i False have "n = k" by (simp add: chain_a_getRandLength_def)
    with band_draw_bound[OF k] False show ?thesis by linarith
  qed (use f len in \<open>simp add: chain_a_getRandLength_def\<close>)
next
  fix len r and h :: bytes assume "16 \<le> length h"
  from InitFromBinAndLength_long[OF this, of len] obtain r1 where
    "InitFromBinAndLength h len = Ret (r1, copy_at 0 (le16 (of_nat len)) h)" .
  then show "\<exists>n h' r'. chain_a_getRandLength len h r = Ret (n, h', r')"
    by (auto simp: chain_a_getRandLength_def split: prod.splits)
qed

lemma chain_b_laws:
  assumes f: "chain_b_getRandLength l1 l2 overhead len h r = Ret (n, h', r')"
  shows "chain_b_getRandLength l1 l2 overhead len h' r' = Ret (n, h', r') \<and>
    (length h' = length h \<and> drop 2 h' = drop 2 h) \<and>
    (\<exists>r2. chain_b_getRandLength l1 l2 overhead len h s = Ret (n, h', r2) \<and> (0 < n \<longrightarrow> r2 = r'))"
proof (cases "1440 \<le> len")
  case False
  with f obtain r1 h1 where i: "InitFromBinAndLength h len = Ret (r1, h1)"
    by (auto simp: chain_b_getRandLength_def go_bind_Ret_iff)
  have g: "chain_b_getRandLength l1 l2 overhead len h s = Ret (n, h', r')" for s
    using f False by (simp add: chain_b_getRandLength_def)
  have "h' = h1"
    using f False i by (auto simp: chain_b_getRandLength_def Let_def split: if_splits prod.splits)
  moreover have "chain_b_getRandLength l1 l2 overhead len h1 s = chain_b_getRandLength l1 l2 overhead len h s" for s
    using False i InitFromBinAndLength_RetD(4)[OF i] by (simp add: chain_b_getRandLength_def)
  ultimately show ?thesis using g InitFromBinAndLength_RetD(2,3)[OF i] by simp
qed (use f in \<open>simp add: chain_b_getRandLength_def\<close>)

interpretation B: rand_length "chain_b_getRandLength l1 l2 overhead" for l1 l2 overhead
  by unfold_locales (use chain_b_laws in blast)+

interpretation run: rand_length "run_randDataLength overhead m" for overhead m
  by (cases m) (simp_all add: A.rand_length_axioms B.rand_length_axioms)

section \<open>Binary search\<close>

definition splits_at :: "(nat \<Rightarrow> bool) \<Rightarrow> nat \<Rightarrow> nat \<Rightarrow> bool" where
  "splits_at f n p \<longleftrightarrow> p \<le> n \<and> (\<forall>k < p. \<not> f k) \<and> (\<forall>k. p \<le> k \<and> k < n \<longrightarrow> f k)"

lemma search_loop_splits:
  assumes split: "splits_at f n p"
  shows "i \<le> p \<Longrightarrow> p \<le> j \<Longrightarrow> j \<le> n \<Longrightarrow> search_loop f i j = p"
proof (induction "j - i" arbitrary: i j rule: less_induct)
  case less
  show ?case
  proof (cases "i < j")
    case False
    with less.prems have "p = i" by simp
    with False show ?thesis by (simp add: search_loop.simps)
  next
    case True
    define h where "h = (i + j) div 2"
    from True have h: "i \<le> h" "h < j" by (auto simp: h_def)
    show ?thesis
    proof (cases "f h")
      case fh: True
      then have "p \<le> h" using split by (auto simp: splits_at_def not_less[symmetric])
      moreover have "search_loop f i j = search_loop f i h"
        using True fh by (simp add: search_loop.simps[of f i j] h_def Let_def)
      ultimately show ?thesis using less.hyps[of h i] less.prems h by simp
    next
      case fh: False
      then have "h < p" using split h less.prems(3) by (auto simp: splits_at_def not_le[symmetric])
      moreover have "search_loop f i j = search_loop f (h + 1) j"
        using True fh by (simp add: search_loop.simps[of f i j] h_def Let_def)
      ultimately show ?thesis using less.hyps[of j "h + 1"] less.prems h by simp
    qed
  qed
qed

text \<open>On a sorted list the search gives the number of smaller entries.\<close>

lemma sorted_splits:
  fixes v :: nat
  assumes "sorted xs"
  shows "splits_at (\<lambda>i. xs ! i \<ge> v) (length xs) (length (takeWhile (\<lambda>x. x < v) xs))"
proof -
  let ?p = "length (takeWhile (\<lambda>x. x < v) xs)"
  have "v \<le> xs ! k" if "?p \<le> k" "k < length xs" for k
  proof -
    from that have "\<not> xs ! ?p < v" using nth_length_takeWhile[of "\<lambda>x. x < v" xs] by simp
    with sorted_nth_mono[OF assms that] show ?thesis by simp
  qed
  moreover have "\<not> v \<le> xs ! k" if "k < ?p" for k
    using nth_mem[OF that] takeWhile_nth[OF that] set_takeWhileD by fastforce
  ultimately show ?thesis by (simp add: splits_at_def length_takeWhile_le)
qed

lemma sort_Search_sorted:
  fixes v :: nat
  assumes "sorted xs"
  shows "sort_Search (length xs) (\<lambda>i. xs ! i \<ge> v) = length (takeWhile (\<lambda>x. x < v) xs)"
  unfolding sort_Search_def
  by (rule search_loop_splits[OF sorted_splits[OF assms]]) (simp_all add: length_takeWhile_le)

lemma search_at_least:
  fixes v :: nat
  assumes "sorted xs" "sort_Search (length xs) (\<lambda>i. xs ! i \<ge> v) \<le> k" "k < length xs"
  shows "v \<le> xs ! k"
  using sorted_splits[OF assms(1), of v] assms(2,3) unfolding sort_Search_sorted[OF assms(1)]
  by (simp add: splits_at_def)

section \<open>The size lists of auth_chain_b\<close>

text \<open>What \<open>initDataSize\<close> establishes: sorted lists that are not empty, of sizes below 1440.\<close>

definition sizes_ok :: "nat list \<Rightarrow> bool" where
  "sizes_ok l \<longleftrightarrow> l \<noteq> [] \<and> sorted l \<and> (\<forall>x \<in> set l. x < 1440)"

lemma draw_sizes_ok: "draw_sizes n r = (xs, r') \<Longrightarrow> length xs = n \<and> (\<forall>x \<in> set xs. x < 1440)"
proof (induction n arbitrary: r xs r')
  case (Suc n)
  obtain x r1 where x: "Next r = (x, r1)" by (cases "Next r")
  obtain ys r2 where ys: "draw_sizes n r1 = (ys, r2)" by (cases "draw_sizes n r1")
  have "unat (x mod 2340 mod 2040 mod 1440) < 1440" by (simp add: unat_mod_distrib)
  with Suc.prems Suc.IH[OF ys] x ys show ?case by auto
qed simp

lemma initDataSize_ok: "initDataSize key = Ret (l1, l2, r) \<Longrightarrow> sizes_ok l1 \<and> sizes_ok l2"
proof -
  assume i: "initDataSize key = Ret (l1, l2, r)"
  then obtain r0 where r0: "InitFromBin key = Ret r0" by (auto simp: initDataSize_def go_bind_Ret_iff)
  obtain x r1 where x: "Next r0 = (x, r1)" by (cases "Next r0")
  obtain k1 r2 where k1: "draw_sizes (unat (x mod 8 + 4)) r1 = (k1, r2)" by (metis prod.exhaust)
  obtain y r3 where y: "Next r2 = (y, r3)" by (cases "Next r2")
  obtain k2 r4 where k2: "draw_sizes (unat (y mod 16 + 8)) r3 = (k2, r4)" by (metis prod.exhaust)
  have "unat (x mod 8) < 8" "unat (y mod 16) < 16" by (simp_all add: unat_mod_distrib)
  then have "unat (x mod 8 + 4) = unat (x mod 8) + 4" "unat (y mod 16 + 8) = unat (y mod 16) + 8"
    by (auto simp: unat_word_ariths(1))
  with draw_sizes_ok[OF k1] draw_sizes_ok[OF k2] have "k1 \<noteq> []" "k2 \<noteq> []" by auto
  moreover from i r0 x k1 y k2 have "l1 = sort k1" "l2 = sort k2" by (auto simp: initDataSize_def)
  ultimately show ?thesis using draw_sizes_ok[OF k1] draw_sizes_ok[OF k2]
    by (auto simp: sizes_ok_def simp flip: length_0_conv)
qed

text \<open>With them the method is ready for use; the entry it takes is no smaller than the data.\<close>

lemma chain_b_range:
  assumes ok: "sizes_ok l1" "sizes_ok l2"
    and f: "chain_b_getRandLength l1 l2 overhead len h r = Ret (n, h', r')"
  shows "1440 \<le> len \<and> n = 0 \<or> len < 1440 \<and> (n \<le> 1020 \<or> len + overhead + n < 1440)"
proof (cases "1440 \<le> len")
  case False
  have take: "len + overhead + (l ! i - len - overhead) < 1440"
    if "sizes_ok l" "sort_Search (length l) (\<lambda>i. l ! i \<ge> len + overhead) \<le> i" "i < length l" for l i
  proof -
    from that(1) search_at_least[OF _ that(2,3)]
    have "len + overhead \<le> l ! i" by (simp add: sizes_ok_def)
    moreover have "l ! i < 1440" using that by (auto simp: sizes_ok_def)
    ultimately show ?thesis by linarith
  qed
  from f False obtain r1 h1 where i: "InitFromBinAndLength h len = Ret (r1, h1)"
    by (auto simp: chain_b_getRandLength_def go_bind_Ret_iff)
  obtain x r2 where x: "Next r1 = (x, r2)" by (cases "Next r1")
  obtain y r3 where y: "Next r2 = (y, r3)" by (cases "Next r2")
  obtain k r4 where k: "band_draw len r3 = (k, r4)" by (cases "band_draw len r3")
  have ne: "l1 \<noteq> []" "l2 \<noteq> []" using ok by (auto simp: sizes_ok_def)
  with f False i x y k have "n = 0 \<or> n = k \<or> (\<exists>l \<in> {l1, l2}. \<exists>i < length l.
      sort_Search (length l) (\<lambda>i. l ! i \<ge> len + overhead) \<le> i \<and> n = l ! i - len - overhead)"
    by (auto simp: chain_b_getRandLength_def Let_def split: if_splits)
  with take ok band_draw_bound[OF k] False show ?thesis by auto
qed (use f in \<open>simp add: chain_b_getRandLength_def\<close>)

lemma chain_b_bounded:
  assumes ok: "sizes_ok l1" "sizes_ok l2"
  shows "rand_length_bounded (chain_b_getRandLength l1 l2 overhead)"
proof
  fix len n h h' r r' assume "len \<le> 2800" "chain_b_getRandLength l1 l2 overhead len h r = Ret (n, h', r')"
  with chain_b_range[OF ok this(2)] show "len + n < 4096" by auto
next
  fix len r and h :: bytes assume "16 \<le> length h"
  from InitFromBinAndLength_long[OF this, of len] obtain r1 where i:
    "InitFromBinAndLength h len = Ret (r1, copy_at 0 (le16 (of_nat len)) h)" .
  have ne: "l1 \<noteq> []" "l2 \<noteq> []" using ok by (auto simp: sizes_ok_def)
  show "\<exists>n h' r'. chain_b_getRandLength l1 l2 overhead len h r = Ret (n, h', r')"
    using ne i by (simp add: chain_b_getRandLength_def Let_def split: prod.split)
qed

section \<open>The decoder provides its interface\<close>

lemma chain_body_Frame:
  "chain_body a dl n src = Frame a' out k \<Longrightarrow>
   k = dl + n + 4 \<and> k \<le> length src \<and> ch_rawTrans a' = ch_rawTrans a"
  by (auto simp: chain_body_def Let_def split: if_splits option.splits prod.splits)

lemma chain_body_Wait: "chain_body a dl n src = Wait a' \<Longrightarrow> a' = a"
  by (auto simp: chain_body_def Let_def split: if_splits option.splits prod.splits)

lemma chain_body_append:
  assumes "4 + (dl + n) \<le> length s \<or> 4096 \<le> dl + n"
  shows "chain_body a dl n (s @ t) = chain_body a dl n s"
proof (cases "4096 \<le> dl + n")
  case False
  with assms have l: "4 + (dl + n) \<le> length s" by simp
  have k: "k < n" if "getRandStartPos n r = (k, r')" "0 < n" for k r r'
    using that by (auto simp: getRandStartPos_def split: prod.splits if_splits)
  obtain pos r where p: "(if 0 < dl \<and> 0 < n
      then (case getRandStartPos n (randomServer a) of (k, random) \<Rightarrow> (2 + k, random))
      else (2, randomServer a)) = (pos, r)" by (metis prod.exhaust)
  have "pos + dl \<le> length s"
    using p l k[of "randomServer a"] by (cases "getRandStartPos n (randomServer a)") (fastforce split: if_splits)
  then have "slice pos (pos + dl) (s @ t) = slice pos (pos + dl) s" by (rule slice_append)
  moreover have "take (dl + n + 2) (s @ t) = take (dl + n + 2) s" "sub (dl + n + 2) 2 (s @ t) = sub (dl + n + 2) 2 s"
    using l by simp_all
  moreover have "\<not> length (s @ t) < 4 + (dl + n)" "\<not> length s < 4 + (dl + n)" using l by simp_all
  ultimately show ?thesis unfolding chain_body_def Let_def p prod.case using False by (simp only: if_False)
qed (simp add: chain_body_def)

lemma chain_body_stable:
  "(\<And>a'. chain_body a dl n s \<noteq> Wait a') \<Longrightarrow> chain_body a dl n (s @ t) = chain_body a dl n s"
proof (rule chain_body_append, rule ccontr)
  assume nw: "\<And>a'. chain_body a dl n s \<noteq> Wait a'" and "\<not> (4 + (dl + n) \<le> length s \<or> 4096 \<le> dl + n)"
  then have "chain_body a dl n s = Wait a" by (simp add: chain_body_def)
  with nw show False by blast
qed

interpretation ch: frame_decoder chain_frame ch_rawTrans
proof
  fix st st' out n and s :: bytes
  assume "4 < length s" "chain_frame st s = Frame st' out n"
  then show "0 < n \<and> n \<le> length s" "ch_rawTrans st' = ch_rawTrans st"
    by (auto simp: chain_frame_def Let_def dest!: chain_body_Frame split: option.splits go.splits prod.splits)
next
  fix st and s t :: bytes
  assume s: "4 < length s" and nw: "\<And>st'. chain_frame st s \<noteq> Wait st'"
  show "chain_frame st (s @ t) = chain_frame st s"
  proof (cases "\<exists>h m n hash random. slice 14 16 (lastServerHash st) = Some h \<and> randDataLength st = Some m \<and>
      run_randDataLength (Overhead (ch_Base st)) m (unat (rd_le16 (take 2 s) XOR rd_le16 h))
        (lastServerHash st) (randomServer st) = Ret (n, hash, random)")
    case True
    then obtain h m n hash random where p: "slice 14 16 (lastServerHash st) = Some h" "randDataLength st = Some m"
      "run_randDataLength (Overhead (ch_Base st)) m (unat (rd_le16 (take 2 s) XOR rd_le16 h))
        (lastServerHash st) (randomServer st) = Ret (n, hash, random)" by blast
    let ?st = "st\<lparr>lastServerHash := hash, randomServer := random\<rparr>"
    from p have e: "chain_frame st s = chain_body ?st (unat (rd_le16 (take 2 s) XOR rd_le16 h)) n s"
      by (simp add: chain_frame_def)
    from p s have "chain_frame st (s @ t) = chain_body ?st (unat (rd_le16 (take 2 s) XOR rd_le16 h)) n (s @ t)"
      by (simp add: chain_frame_def)
    with e nw chain_body_stable show ?thesis by metis
  next
    case False
    with s show ?thesis by (auto simp: chain_frame_def Let_def split: option.splits go.splits)
  qed
next
  fix st st' and s t :: bytes
  assume s: "4 < length s" and w: "chain_frame st s = Wait st'"
  obtain h m n hash random where p: "slice 14 16 (lastServerHash st) = Some h" "randDataLength st = Some m"
    "run_randDataLength (Overhead (ch_Base st)) m (unat (rd_le16 (take 2 s) XOR rd_le16 h))
       (lastServerHash st) (randomServer st) = Ret (n, hash, random)"
    using w by (auto simp: chain_frame_def Let_def split: option.splits go.splits)
  with w have "chain_body (st\<lparr>lastServerHash := hash, randomServer := random\<rparr>)
      (unat (rd_le16 (take 2 s) XOR rd_le16 h)) n s = Wait st'"
    by (simp add: chain_frame_def)
  then have st': "st' = st\<lparr>lastServerHash := hash, randomServer := random\<rparr>" by (rule chain_body_Wait)
  then show "ch_rawTrans st' = ch_rawTrans st" by simp
  from p st' s run.again[OF p(3)] run.same_mask[OF p(3)]
  show "chain_frame st' (s @ t) = chain_frame st (s @ t)"
    by (simp add: chain_frame_def)
qed

section \<open>One frame\<close>

text \<open>The padding and the data between it: the decoder finds the data where it was put.\<close>

lemma putMixed_eq:
  assumes "randDataLength a = Some m"
    and "run_randDataLength (Overhead (ch_Base a)) m (length x) (lastClientHash a) (randomClient a) = Ret (n, h, rc)"
  obtains mid pos rc' r' where
    "\<And>buf. putMixedRandDataAndData a r buf x = Ret (a\<lparr>lastClientHash := h, randomClient := rc'\<rparr>, r', buf @ mid)"
    "length mid = length x + n" "pos + length x \<le> length mid" "sub pos (length x) mid = x"
    "\<And>rs. (0 < n \<longrightarrow> rs = rc) \<Longrightarrow> \<exists>rs'. (if 0 < length x \<and> 0 < n
       then (case getRandStartPos n rs of (k, random) \<Rightarrow> (2 + k, random)) else (2, rs)) = (2 + pos, rs')"
proof -
  consider "x = []" | "x \<noteq> []" "n = 0" | "x \<noteq> []" "0 < n" by blast
  then show thesis
  proof cases
    case 1
    show thesis
    proof (rule that[of rc "snd (rand_bytes n r)" "fst (rand_bytes n r)" 0])
      show "putMixedRandDataAndData a r buf x = Ret (a\<lparr>lastClientHash := h, randomClient := rc\<rparr>,
          snd (rand_bytes n r), buf @ fst (rand_bytes n r))" for buf
        using assms 1 by (simp add: putMixedRandDataAndData_def AppendRandBytes_conv)
    qed (use 1 in auto)
  next
    case 2
    show thesis
      by (rule that[of rc r x 0]) (use assms 2 in \<open>auto simp: putMixedRandDataAndData_def\<close>)
  next
    case 3
    obtain k rc' where k: "getRandStartPos n rc = (k, rc')" by (cases "getRandStartPos n rc")
    then have "k < n" using 3 by (auto simp: getRandStartPos_def split: prod.splits if_splits)
    let ?a = "rand_bytes k r" and ?b = "rand_bytes (n - k) (snd (rand_bytes k r))"
    have put: "putMixedRandDataAndData a r buf x =
        Ret (a\<lparr>lastClientHash := h, randomClient := rc'\<rparr>, snd ?b, buf @ (fst ?a @ x @ fst ?b))" for buf
      using assms 3 k by (simp add: putMixedRandDataAndData_def AppendRandBytes_conv)
    show thesis
      by (rule that[OF put, of k]) (use 3 k \<open>k < n\<close> in auto)
  qed
qed

definition chain_linked :: "authChainA \<Rightarrow> authChainA \<Rightarrow> bool" where
  "chain_linked e d \<longleftrightarrow>
     ch_userData d = ch_userData e \<and> Overhead (ch_Base d) = Overhead (ch_Base e) \<and>
     ch_recvID d = ch_packID e \<and> encrypter e \<noteq> None \<and> decrypter d = encrypter e \<and>
     lastServerHash d = lastClientHash e \<and> length (lastClientHash e) = 16 \<and>
     randDataLength d = randDataLength e \<and> \<not> ch_rawTrans d \<and>
     (\<exists>m. randDataLength e = Some m \<and> rand_length_bounded (run_randDataLength (Overhead (ch_Base e)) m))"

text \<open>What no frame changes of an encoder.\<close>

definition chain_fixed :: "authChainA \<Rightarrow> authChainA" where
  "chain_fixed e = e\<lparr>encrypter := None, ch_packID := 0, lastClientHash := [], randomClient := zero_xorshift\<rparr>"

lemma chain_body_taken:
  assumes small: "dl + n < 4096" and f: "length f = dl + n + 4"
    and hash: "HmacMD5 (ch_userKey a @ le32 (ch_recvID a)) (take (dl + n + 2) f) = hash"
      "sub (dl + n + 2) 2 f = take 2 hash"
    and start: "(if 0 < dl \<and> 0 < n
       then (case getRandStartPos n (randomServer a) of (k, random) \<Rightarrow> (2 + k, random))
       else (2, randomServer a)) = (pos, rs)"
    and enc: "slice pos (pos + dl) f = Some enc" "decrypter a = Some c" "XORKeyStream c enc = (x, c')"
    and a': "a' = a\<lparr>lastServerHash := hash, randomServer := rs, decrypter := Some c', ch_recvID := ch_recvID a + 1\<rparr>"
    and first: "ch_recvID a = 1 \<longrightarrow> 2 \<le> dl"
  shows "chain_body a dl n f = Frame a' (if ch_recvID a = 1 then drop 2 x else x) (length f)"
proof -
  have "pos + dl \<le> length f" "length enc = dl"
    using enc(1) length_slice[OF enc(1)] by (auto simp: slice_Some_iff)
  then have "length x = dl" using length_XORKeyStream'[OF enc(3)] by simp
  then have "ch_recvID a = 1 \<longrightarrow> slice 2 dl x = Some (drop 2 x)"
    using first by (simp add: slice_def)
  moreover have "\<not> 4096 \<le> dl + n" "\<not> length f < 4 + (dl + n)" using small f by simp_all
  ultimately show ?thesis
    unfolding chain_body_def Let_def hash start prod.case enc option.case a' f
    by (simp add: add.commute[of 4])
qed

lemma chain_pack_frame:
  assumes lk: "chain_linked e d" and x: "length x \<le> 2800" "0 < length x"
    and first: "ch_recvID d = 1 \<Longrightarrow> 2 \<le> length x"
  shows "\<exists>e' r' f enc d'. (\<forall>buf. chain_packData (e, r) buf x = Ret ((e', r'), buf @ f, enc)) \<and> 4 < length f \<and>
    chain_frame d f = Frame d' (if ch_recvID d = 1 then drop 2 x else x) (length f) \<and> chain_linked e' d' \<and>
    ch_packID e' = ch_packID e + 1 \<and> chain_fixed e' = chain_fixed e"
proof -
  from lk obtain c m where c: "encrypter e = Some c" "decrypter d = Some c" and m: "randDataLength e = Some m"
    "randDataLength d = Some m" and bd: "rand_length_bounded (run_randDataLength (Overhead (ch_Base e)) m)"
    and h: "lastServerHash d = lastClientHash e" "length (lastClientHash e) = 16"
    and base: "Overhead (ch_Base d) = Overhead (ch_Base e)" "ch_userData d = ch_userData e"
      "ch_recvID d = ch_packID e" "\<not> ch_rawTrans d"
    by (auto simp: chain_linked_def)
  obtain enc c' where enc: "XORKeyStream c x = (enc, c')" by (cases "XORKeyStream c x")
  note dec = XORKeyStream_involution[OF enc] and len = length_XORKeyStream'[OF enc]
  define mask where "mask = sub 14 2 (lastClientHash e)"
  have mask: "slice 14 16 (lastClientHash e) = Some mask" using h(2) by (simp add: slice_def mask_def)
  let ?key = "ch_userKey e @ le32 (ch_packID e)"
  let ?e1 = "e\<lparr>encrypter := Some c', ch_packID := ch_packID e + 1\<rparr>"
  from rand_length_bounded.returns[OF bd, of "lastClientHash e" "length enc" "randomClient e"] h(2)
  obtain n h1 rc where n: "run_randDataLength (Overhead (ch_Base e)) m (length enc) (lastClientHash e) (randomClient e) =
      Ret (n, h1, rc)" by auto
  from rand_length_bounded.bounded[OF bd _ n] x(1) len have small: "length enc + n < 4096" by simp
  from run.agree[OF n, of "randomServer d"] obtain rs where
    rs: "run_randDataLength (Overhead (ch_Base e)) m (length enc) (lastClientHash e) (randomServer d) = Ret (n, h1, rs)"
    "0 < n \<longrightarrow> rs = rc" by blast
  have m1: "randDataLength ?e1 = Some m" and n1: "run_randDataLength (Overhead (ch_Base ?e1)) m (length enc)
      (lastClientHash ?e1) (randomClient ?e1) = Ret (n, h1, rc)" using m n by simp_all
  obtain mid pos rc' r' where mid: "\<And>buf. putMixedRandDataAndData ?e1 r buf enc =
      Ret (?e1\<lparr>lastClientHash := h1, randomClient := rc'\<rparr>, r', buf @ mid)"
    "length mid = length enc + n" "pos + length enc \<le> length mid" "sub pos (length enc) mid = enc"
    "\<And>rs. (0 < n \<longrightarrow> rs = rc) \<Longrightarrow> \<exists>rs'. (if 0 < length enc \<and> 0 < n
       then (case getRandStartPos n rs of (k, random) \<Rightarrow> (2 + k, random)) else (2, rs)) = (2 + pos, rs')"
    using putMixed_eq[OF m1 n1, of r thesis] by blast
  define w where "w = le16 (of_nat (length enc) XOR rd_le16 mask)"
  define hash where "hash = HmacMD5 ?key (w @ mid)"
  define f where "f = w @ mid @ take 2 hash"
  define e' where "e' = ?e1\<lparr>lastClientHash := hash, randomClient := rc'\<rparr>"
  have l: "length w = 2" "length (take 2 hash) = 2" by (simp_all add: w_def hash_def)
  have pack: "chain_packData (e, r) buf x = Ret ((e', r'), buf @ f, enc)" for buf
    unfolding chain_packData_def prod.case c(1) option.case mask enc Let_def mid(1) go_bind.simps
    by (simp add: e'_def f_def hash_def w_def)
  obtain rs' where rs': "(if 0 < length enc \<and> 0 < n
      then (case getRandStartPos n rs of (k, random) \<Rightarrow> (2 + k, random)) else (2, rs)) = (2 + pos, rs')"
    using mid(5)[OF rs(2)] by blast
  have dl: "unat (rd_le16 (take 2 f) XOR rd_le16 mask) = length enc"
    using l small by (simp add: f_def w_def xor.assoc unat_uint16_of_nat)
  let ?d1 = "d\<lparr>lastServerHash := h1, randomServer := rs\<rparr>"
  let ?d2 = "?d1\<lparr>lastServerHash := hash, randomServer := rs', decrypter := Some c', ch_recvID := ch_recvID d + 1\<rparr>"
  have cut: "length f = length enc + n + 4" "take (length enc + n + 2) f = w @ mid"
    "sub (length enc + n + 2) 2 f = take 2 hash" "slice (2 + pos) (2 + pos + length enc) f = Some enc"
    using l mid(2-4) by (simp_all add: f_def slice_def)
  have hash': "HmacMD5 (ch_userKey ?d1 @ le32 (ch_recvID ?d1)) (w @ mid) = hash"
    by (simp add: hash_def base)
  have "chain_frame d f = chain_body ?d1 (length enc) n f"
    using m(2) mask rs(1) base h by (simp add: chain_frame_def dl Let_def)
  also have "\<dots> = Frame ?d2 (if ch_recvID ?d1 = 1 then drop 2 x else x) (length f)"
  proof (rule chain_body_taken[OF small cut(1) _ cut(3) _ cut(4) _ dec])
    show "HmacMD5 (ch_userKey ?d1 @ le32 (ch_recvID ?d1)) (take (length enc + n + 2) f) = hash"
      unfolding cut(2) by (rule hash')
    have "randomServer ?d1 = rs" by simp
    then show "(if 0 < length enc \<and> 0 < n
       then (case getRandStartPos n (randomServer ?d1) of (k, random) \<Rightarrow> (2 + k, random))
       else (2, randomServer ?d1)) = (2 + pos, rs')" by (simp only: rs')
  qed (use c(2) first len in simp_all)
  also have "ch_recvID ?d1 = ch_recvID d" by simp
  finally have "chain_frame d f = Frame ?d2 (if ch_recvID d = 1 then drop 2 x else x) (length f)" .
  moreover have "chain_linked e' ?d2"
    using m base bd by (auto simp: chain_linked_def e'_def hash_def)
  moreover have "4 < length f" using cut(1) x(2) len by simp
  ultimately show ?thesis using pack
    by (intro exI[of _ e'] exI[of _ r'] exI[of _ f] exI[of _ enc] exI[of _ ?d2]) (simp add: e'_def chain_fixed_def)
qed

section \<open>Packer and decoder in step\<close>

text \<open>
  The frame numbered 1 is special to the decoder, so the number must not come round to it:
  \<open>k\<close> more frames fit before the 32-bit counter wraps.
\<close>

definition chain_sync :: "nat \<Rightarrow> authChainA \<Rightarrow> authChainA \<Rightarrow> bool" where
  "chain_sync k e d \<longleftrightarrow> chain_linked e d \<and> 2 \<le> unat (ch_packID e) \<and> unat (ch_packID e) + k < 2 ^ 32"

lemma chain_sync_Suc:
  assumes "chain_sync (Suc k) e d" "chain_linked e' d'" "ch_packID e' = ch_packID e + 1"
  shows "chain_sync k e' d'"
proof -
  from assms(1) have "unat (ch_packID e) + 1 < 2 ^ 32" by (simp add: chain_sync_def)
  then have "unat (ch_packID e') = unat (ch_packID e) + 1"
    by (simp add: assms(3) unat_word_ariths(1))
  with assms show ?thesis by (simp add: chain_sync_def)
qed

lemma chain_sync_recv: "chain_sync k e d \<Longrightarrow> ch_recvID d \<noteq> 1"
  by (auto simp: chain_sync_def chain_linked_def)

interpretation chp: frame_pair chain_frame ch_rawTrans chain_packData
  "\<lambda>k s d. chain_sync k (fst s) d \<and> chain_fixed (fst s) = a0" 2800 for a0
proof
  fix k :: nat and s :: "_ \<times> rng" and d and x buf :: bytes
  assume sy: "chain_sync (Suc k) (fst s) d \<and> chain_fixed (fst s) = a0"
    and x: "0 < length x" "length x \<le> 2800"
  obtain e r where s: "s = (e, r)" by (cases s)
  from sy s have sync: "chain_sync (Suc k) e d" by simp
  then have lk: "chain_linked e d" by (simp add: chain_sync_def)
  note rv = chain_sync_recv[OF sync]
  from rv have "ch_recvID d = 1 \<Longrightarrow> 2 \<le> length x" by simp
  from chain_pack_frame[OF lk x(2,1) this, of r] rv obtain e' r' f enc d' where f:
    "\<forall>buf. chain_packData (e, r) buf x = Ret ((e', r'), buf @ f, enc)" "4 < length f"
    "chain_frame d f = Frame d' x (length f)" "chain_linked e' d'" "ch_packID e' = ch_packID e + 1"
    "chain_fixed e' = chain_fixed e" by auto
  from f(1) s have "chain_packData s buf x = Ret ((e', r'), buf @ f, enc)" by simp
  moreover have "chain_sync k (fst (e', r')) d' \<and> chain_fixed (fst (e', r')) = a0"
    using chain_sync_Suc[OF sync f(4,5)] f(6) sy s by simp
  ultimately show "\<exists>s' f x' d'. chain_packData s buf x = Ret (s', buf @ f, x') \<and> 4 < length f \<and>
      (chain_sync k (fst s') d' \<and> chain_fixed (fst s') = a0) \<and> chain_frame d f = Frame d' x (length f)"
    using f(2,3) by blast
qed simp

text \<open>What the caller's slice holds after a call is the data under the key stream.\<close>

lemma putMixed_keeps:
  "putMixedRandDataAndData a r buf x = Ret (a', r', buf') \<Longrightarrow>
   encrypter a' = encrypter a \<and> decrypter a' = decrypter a"
proof -
  assume p: "putMixedRandDataAndData a r buf x = Ret (a', r', buf')"
  obtain m where m: "randDataLength a = Some m"
    using p by (cases "randDataLength a") (auto simp: putMixedRandDataAndData_def)
  obtain n h rc where n: "run_randDataLength (Overhead (ch_Base a)) m (length x) (lastClientHash a) (randomClient a) =
      Ret (n, h, rc)"
    using p m by (auto simp: putMixedRandDataAndData_def go_bind_Ret_iff)
  obtain rc' r1 mid where "\<And>buf. putMixedRandDataAndData a r buf x =
      Ret (a\<lparr>lastClientHash := h, randomClient := rc'\<rparr>, r1, buf @ mid)"
    using putMixed_eq[OF m n, of r thesis] by blast
  with p show ?thesis by auto
qed

lemma chain_packData_slice:
  assumes "chain_packData (a, r) buf x = Ret ((a', r'), buf', x')" "encrypter a = Some c"
  shows "XORKeyStream c x = (x', the (encrypter a')) \<and> encrypter a' \<noteq> None"
proof -
  obtain enc c' where enc: "XORKeyStream c x = (enc, c')" by (cases "XORKeyStream c x")
  obtain h where h: "slice 14 16 (lastClientHash a) = Some h"
    using assms by (cases "slice 14 16 (lastClientHash a)") (auto simp: chain_packData_def)
  let ?a1 = "a\<lparr>encrypter := Some c', ch_packID := ch_packID a + 1\<rparr>"
  obtain a2 buf2 where "putMixedRandDataAndData ?a1 r (buf @ le16 (of_nat (length enc) XOR rd_le16 h)) enc = Ret (a2, r', buf2)"
    "a' = a2\<lparr>lastClientHash := HmacMD5 (ch_userKey a @ le32 (ch_packID a)) (drop (length buf) buf2)\<rparr>" "x' = enc"
    using assms enc h by (auto simp: chain_packData_def Let_def go_bind_Ret_iff)
  with putMixed_keeps[OF this(1)] enc show ?thesis by simp
qed

lemma chain_encode_loop_slice:
  assumes "encode_loop 2800 chain_packData (a, r) buf b = Ret ((a', r'), buf', b')" "encrypter a = Some c"
  shows "XORKeyStream c b = (b', the (encrypter a')) \<and> encrypter a' \<noteq> None"
  using assms
proof (induction "length b" arbitrary: a r buf b b' c rule: less_induct)
  case less
  consider "b = []" | "0 < length b" "length b \<le> 2800" | "2800 < length b" by force
  then show ?case
  proof cases
    case 2
    with less.prems(1) have "chain_packData (a, r) buf b = Ret ((a', r'), buf', b')"
      by (simp add: encode_loop_last)
    from chain_packData_slice[OF this less.prems(2)] show ?thesis .
  next
    case 3
    with less.prems(1) obtain a1 r1 buf1 x1 y where
      p: "chain_packData (a, r) buf (take 2800 b) = Ret ((a1, r1), buf1, x1)"
      "encode_loop 2800 chain_packData (a1, r1) buf1 (drop 2800 b) = Ret ((a', r'), buf', y)" "b' = x1 @ y"
      by (auto simp: encode_loop.simps[of 2800 chain_packData "(a, r)" buf b] go_bind_Ret_iff)
    from chain_packData_slice[OF p(1) less.prems(2)] obtain c1 where
      c1: "XORKeyStream c (take 2800 b) = (x1, c1)" "encrypter a1 = Some c1" by auto
    from 3 have "length (drop 2800 b) < length b" by simp
    from less.hyps[OF this p(2) c1(2)] have
      "XORKeyStream c1 (drop 2800 b) = (y, the (encrypter a'))" "encrypter a' \<noteq> None" by auto
    with c1(1) XORKeyStream_append[of c "take 2800 b" "drop 2800 b"] p(3) show ?thesis by simp
  qed (use less.prems in auto)
qed

lemma chain_encode_loop:
  assumes "chain_sync (nframes 2800 b + k) e d"
  shows "\<exists>e' r' f d'. encode_loop 2800 chain_packData (e, r) buf b =
      Ret ((e', r'), buf @ f, fst (XORKeyStream (the (encrypter e)) b)) \<and>
    chain_sync k e' d' \<and> chain_fixed e' = chain_fixed e \<and>
    (\<forall>dst. chain_Decode d dst f = Ret (None, d', dst @ b, []))"
proof -
  have "chain_sync (nframes 2800 b + k) (fst (e, r)) d \<and> chain_fixed (fst (e, r)) = chain_fixed e"
    using assms by simp
  from chp.encode_decode[OF this, where buf = buf] obtain s' f b' d' where f:
    "encode_loop 2800 chain_packData (e, r) buf b = Ret (s', buf @ f, b')"
    "chain_sync k (fst s') d'" "chain_fixed (fst s') = chain_fixed e"
    "\<forall>dst t. decode_loop chain_frame d dst (f @ t) = decode_loop chain_frame d' (dst @ b) t" by blast
  obtain e' r' where s': "s' = (e', r')" by (cases s')
  from assms obtain c where c: "encrypter e = Some c" by (auto simp: chain_sync_def chain_linked_def)
  from chain_encode_loop_slice[OF f(1)[unfolded s'] c] have "b' = fst (XORKeyStream (the (encrypter e)) b)"
    using c by simp
  moreover have "chain_Decode d dst f = Ret (None, d', dst @ b, [])" for dst
    using f(4)[rule_format, of dst "[]"] assms
    by (simp add: chain_Decode_def decode_with_def chain_sync_def chain_linked_def)
  ultimately show ?thesis using f(1-3) s' by auto
qed

section \<open>The opening packet\<close>

text \<open>
  The other end of a connection, as the wire format prescribes it: the 36 bytes before the first
  frame prove knowledge of IV, key and user key, and fix the hash the first frame is masked with and
  the cipher key. The encrypted block is compared with the block for the identity, time and
  overhead; a server has it by decryption. \<open>a\<close> carries the keys and the padding method.
\<close>

definition chain_accept :: "authChainA \<Rightarrow> uint32 \<Rightarrow> bytes \<Rightarrow> authChainA option" where
  "chain_accept a now h =
     (let hash = HmacMD5 (ch_iv a @ Key (ch_Base a)) (take 4 h);
          key = kdf (b64_encode (ch_userKey a) @ b64_encode hash) 16
      in if length h \<noteq> 36 \<or> sub 4 8 h \<noteq> take 8 hash \<or>
            sub 12 4 h \<noteq> le32 (rd_le32 (userID (ch_userData a)) XOR rd_le32 (sub 8 4 hash)) \<or>
            putEncryptedData (ch_authData a) [] now (ch_userKey a) (Overhead (ch_Base a), 0) (ch_salt a)
              \<noteq> Some (sub 16 16 h) \<or>
            drop 32 h \<noteq> take 4 (HmacMD5 (ch_userKey a) (sub 12 20 h))
         then None
         else Some ((zero_authChainA (ch_Base a) (ch_userData a) (ch_salt a))
                \<lparr>lastServerHash := hash, decrypter := rc4_NewCipher key,
                 randDataLength := randDataLength a, ch_recvID := 1\<rparr>))"

text \<open>A connection as \<open>StreamConn\<close> makes it.\<close>

definition chain_fresh :: "authChainA \<Rightarrow> bool" where
  "chain_fresh e \<longleftrightarrow> \<not> ch_hasSentHeader e \<and> \<not> ch_rawTrans e \<and> ch_packID e = 1 \<and> lastServerHash e = [] \<and>
     (\<exists>m. randDataLength e = Some m \<and> rand_length_bounded (run_randDataLength (Overhead (ch_Base e)) m))"

lemma chain_a_StreamConn_fresh: "chain_a_StreamConn a iv r = (p, a', r') \<Longrightarrow> chain_fresh p"
  by (auto simp: chain_a_StreamConn_def chain_fresh_def zero_authChainA_def A.rand_length_bounded_axioms
      split: prod.splits)

lemma chain_b_StreamConn_fresh: "chain_b_StreamConn a iv r = Ret (p, a', r') \<Longrightarrow> chain_fresh p"
proof -
  assume s: "chain_b_StreamConn a iv r = Ret (p, a', r')"
  obtain own shared r1 where n: "authData_next (ch_authData a) r = (own, shared, r1)" by (metis prod.exhaust)
  from s obtain l1 l2 x where i: "initDataSize (Key (ch_Base a)) = Ret (l1, l2, x)"
    by (auto simp: chain_b_StreamConn_def n go_bind_Ret_iff)
  from initDataSize_ok[OF i] have "rand_length_bounded (chain_b_getRandLength l1 l2 (Overhead (ch_Base a)))"
    by (simp add: chain_b_bounded)
  with s n i show ?thesis by (auto simp: chain_b_StreamConn_def chain_fresh_def zero_authChainA_def)
qed

lemma chain_b_StreamConn_domain:
  "(chain_b_StreamConn a iv r = Panic) = (length (Key (ch_Base a)) < 16) \<and> chain_b_StreamConn a iv r \<noteq> Hang"
proof (cases "length (Key (ch_Base a)) < 16")
  case True
  then show ?thesis by (simp add: chain_b_StreamConn_def initDataSize_def InitFromBin_short split_beta)
next
  case False
  then obtain x where "initDataSize (Key (ch_Base a)) = Ret x"
    by (simp add: initDataSize_def InitFromBin_long seed_words_long split_beta)
  with False show ?thesis by (simp add: chain_b_StreamConn_def split_beta)
qed

lemma rc4_key16: "rc4_NewCipher (kdf p 16) \<noteq> None"
  by (simp add: rc4_NewCipher_def)

lemma chain_packAuthData_eq:
  assumes fresh: "chain_fresh e"
  obtains h e2 r1 d where "\<And>x. chain_packAuthData e now r [] x = chain_packData (e2, r1) h x"
    "chain_accept e now h = Some d" "chain_linked e2 d" "ch_packID e2 = 1"
proof -
  from fresh obtain m where m: "randDataLength e = Some m"
    "rand_length_bounded (run_randDataLength (Overhead (ch_Base e)) m)" "ch_packID e = 1"
    by (auto simp: chain_fresh_def)
  obtain r4 r1 where r4: "rand_bytes 4 r = (r4, r1)" by (cases "rand_bytes 4 r")
  define hash where "hash = HmacMD5 (ch_iv e @ Key (ch_Base e)) r4"
  define key where "key = kdf (b64_encode (ch_userKey e) @ b64_encode hash) 16"
  obtain c where c: "rc4_NewCipher key = Some c" using rc4_key16 by (auto simp: key_def)
  define uidb where "uidb = le32 (rd_le32 (userID (ch_userData e)) XOR rd_le32 (sub 8 4 hash))"
  obtain blk where blk: "length blk = 16"
    "\<And>b. putEncryptedData (ch_authData e) b now (ch_userKey e) (Overhead (ch_Base e), 0) (ch_salt e) = Some (b @ blk)"
    using putEncryptedData_Some by blast
  define sh where "sh = HmacMD5 (ch_userKey e) (uidb @ blk)"
  define m8 where "m8 = take 8 hash"
  define m4 where "m4 = take 4 sh"
  define h where "h = r4 @ m8 @ uidb @ blk @ m4"
  have l: "length r4 = 4" "length m8 = 8" "length uidb = 4" "length m4 = 4" "length hash = 16"
    using length_rand_bytes'[OF r4] by (simp_all add: m8_def m4_def uidb_def hash_def sh_def)
  define e2 where "e2 = e\<lparr>lastClientHash := hash, encrypter := Some c, decrypter := Some c, lastServerHash := sh\<rparr>"
  have "chain_packAuthData e now r [] x = chain_packData (e2, r1) h x" for x
  proof -
    have "drop 12 (r4 @ m8 @ uidb @ blk) = uidb @ blk" using l by simp
    then show ?thesis
      using c unfolding chain_packAuthData_def Let_def AppendRandBytes_def r4 prod.case initRC4Cipher_def
      by (simp add: hash_def[symmetric] key_def[symmetric] uidb_def[symmetric] m8_def[symmetric] blk(2)
          sh_def[symmetric] m4_def[symmetric] h_def e2_def)
  qed
  moreover have "chain_accept e now h = Some ((zero_authChainA (ch_Base e) (ch_userData e) (ch_salt e))
      \<lparr>lastServerHash := hash, decrypter := Some c, randDataLength := Some m, ch_recvID := 1\<rparr>)"
  proof -
    have t: "take 4 h = r4" "length h = 36" "sub 4 8 h = m8" "sub 12 4 h = uidb" "sub 16 16 h = blk"
      "drop 32 h = m4" "sub 12 20 h = uidb @ blk"
      using l blk(1) by (simp_all add: h_def)
    show ?thesis
      unfolding chain_accept_def Let_def t hash_def[symmetric] key_def[symmetric] uidb_def[symmetric]
        sh_def[symmetric] m8_def[symmetric] m4_def[symmetric]
      using blk(2)[of "[]"] c m(1) by simp
  qed
  moreover have "chain_linked e2 ((zero_authChainA (ch_Base e) (ch_userData e) (ch_salt e))
      \<lparr>lastServerHash := hash, decrypter := Some c, randDataLength := Some m, ch_recvID := 1\<rparr>)"
    using m l(5) by (simp add: chain_linked_def e2_def zero_authChainA_def)
  moreover have "ch_packID e2 = 1" using m(3) by (simp add: e2_def)
  ultimately show thesis using that by blast
qed

text \<open>\<open>Encode\<close> of an open connection, for the connection over it.\<close>

lemma chain_Encode_open:
  assumes "ch_hasSentHeader e" and sync: "chain_sync (nframes 2800 b + k) e d"
  shows "\<exists>f e' r' d'. chain_Encode e now r buf b =
      Ret ((e', r'), buf @ f, fst (XORKeyStream (the (encrypter e)) b)) \<and>
    chain_sync k e' d' \<and> ch_hasSentHeader e' \<and>
    (\<forall>dst. chain_Decode d dst f = Ret (None, d', dst @ b, []))"
proof -
  from chain_encode_loop[OF sync, of r buf] obtain e' r' f d' where
    l: "encode_loop 2800 chain_packData (e, r) buf b = Ret ((e', r'), buf @ f, fst (XORKeyStream (the (encrypter e)) b))"
    "chain_sync k e' d'" "chain_fixed e' = chain_fixed e"
    "\<forall>dst. chain_Decode d dst f = Ret (None, d', dst @ b, [])" by blast
  from l(3) assms(1) have "ch_hasSentHeader e'"
    by (auto simp: chain_fixed_def dest: arg_cong[where f = ch_hasSentHeader])
  with l assms(1) show ?thesis by (auto simp: chain_Encode_def)
qed

section \<open>Properties\<close>

definition chain_example :: "bytes \<Rightarrow> authChainA" where
  "chain_example key =
     fst (chain_a_StreamConn (zero_authChainA \<lparr>Key = key, Overhead = 4, Param = []\<rparr>
       \<lparr>userKey = key, userID = [0, 0, 0, 7]\<rparr> (str ''auth_chain_a'')) [] \<lparr>draws = \<lambda>n. n, rpos = 0\<rparr>)"

lemma surjective_pairing3: "p = (fst p, fst (snd p), snd (snd p))"
  by simp

lemma chain_example_fresh: "chain_fresh (chain_example key)"
  unfolding chain_example_def by (rule chain_a_StreamConn_fresh[OF surjective_pairing3])

text \<open>
  \<open>Encode\<close> of both chain protocols encrypts in place: after a call on an open connection the
  slice the caller passed in holds the data under the connection's key stream, across all frames,
  and no longer the data; undoing the stream gives the data back. (An \<^verbatim>\<open>io.Writer\<close> must
  not modify the slice, even temporarily.)
\<close>

theorem chain_Encode_slice:
  assumes "ch_hasSentHeader e" "encrypter e = Some c" "chain_Encode e now r buf b = Ret ((e', r'), buf', b')"
  shows "XORKeyStream c b = (b', the (encrypter e')) \<and> XORKeyStream c b' = (b, the (encrypter e'))"
proof -
  from assms have "encode_loop 2800 chain_packData (e, r) buf b = Ret ((e', r'), buf', b')"
    by (simp add: chain_Encode_def)
  from chain_encode_loop_slice[OF this assms(2)] XORKeyStream_involution show ?thesis by blast
qed

theorem chain_Encode_slice_witness:
  "\<exists>e s f b'. chain_Encode e 0 \<lparr>draws = \<lambda>n. n, rpos = 0\<rparr> [] [5, 6] = Ret (s, f, b') \<and>
     fst (XORKeyStream (the (encrypter e)) b') = [5, 6]"
proof -
  obtain c where c: "rc4_NewCipher [1] = Some c" by (simp add: rc4_NewCipher_def)
  let ?e = "(chain_example [1])\<lparr>ch_hasSentHeader := True, ch_packID := 2, encrypter := Some c,
    lastClientHash := replicate 16 0\<rparr>"
  let ?d = "?e\<lparr>ch_recvID := 2, decrypter := Some c, lastServerHash := replicate 16 0\<rparr>"
  have "chain_sync (nframes 2800 [5, 6] + 0) ?e ?d"
    using nframes_le[of 2800 "[5, 6 :: byte]"] chain_example_fresh[of "[1]"]
    by (simp add: chain_sync_def chain_linked_def chain_fresh_def)
  from chain_Encode_open[OF _ this, of 0 "\<lparr>draws = \<lambda>n. n, rpos = 0\<rparr>" "[]"]
  obtain f e' r' b' where e: "chain_Encode ?e 0 \<lparr>draws = \<lambda>n. n, rpos = 0\<rparr> [] [5, 6] = Ret ((e', r'), [] @ f, b')"
    by auto
  have "ch_hasSentHeader ?e" "encrypter ?e = Some c" by simp_all
  from chain_Encode_slice[OF this e] have "fst (XORKeyStream (the (encrypter ?e)) b') = [5, 6]" by simp
  with e show ?thesis by blast
qed



text \<open>
  \<open>StreamConn\<close> of \<open>auth_chain_b\<close> returns a connection exactly when the key has at least 16
  bytes (a shorter one makes the seeding panic), and then one whose size lists are sorted, not empty
  and below 1440, so that every frame it makes or reads of at most 2800 bytes has a padding length
  that keeps it below the limit of 4096.
\<close>

theorem chain_b_StreamConn_total:
  "(chain_b_StreamConn a iv r = Panic) = (length (Key (ch_Base a)) < 16) \<and>
   chain_b_StreamConn a iv r \<noteq> Hang \<and>
   (\<forall>p a' r'. chain_b_StreamConn a iv r = Ret (p, a', r') \<longrightarrow>
     (\<exists>l1 l2. randDataLength p = Some (RandLengthB l1 l2) \<and> sizes_ok l1 \<and> sizes_ok l2 \<and>
       (\<forall>n h x. n \<le> 2800 \<and> 16 \<le> length h \<longrightarrow>
         (\<exists>k h' x'. chain_b_getRandLength l1 l2 (Overhead (ch_Base p)) n h x = Ret (k, h', x') \<and> n + k < 4096))))"
proof -
  have "\<exists>l1 l2. randDataLength p = Some (RandLengthB l1 l2) \<and> sizes_ok l1 \<and> sizes_ok l2 \<and>
       (\<forall>n h x. n \<le> 2800 \<and> 16 \<le> length h \<longrightarrow>
         (\<exists>k h' x'. chain_b_getRandLength l1 l2 (Overhead (ch_Base p)) n h x = Ret (k, h', x') \<and> n + k < 4096))"
    if s: "chain_b_StreamConn a iv r = Ret (p, a', r')" for p a' r'
  proof -
    from s obtain l1 l2 x where i: "initDataSize (Key (ch_Base a)) = Ret (l1, l2, x)"
      by (auto simp: chain_b_StreamConn_def go_bind_Ret_iff split: prod.splits)
    note ok = initDataSize_ok[OF i]
    then have b: "rand_length_bounded (chain_b_getRandLength l1 l2 ov)" for ov
      by (simp add: chain_b_bounded)
    have "\<exists>k h' x'. chain_b_getRandLength l1 l2 ov n h x = Ret (k, h', x') \<and> n + k < 4096"
      if "n \<le> 2800" "16 \<le> length h" for ov n h x
      using rand_length_bounded.returns[OF b that(2), of ov n x] rand_length_bounded.bounded[OF b that(1)] by blast
    with s ok i show ?thesis by (auto simp: chain_b_StreamConn_def zero_authChainA_def split: prod.splits)
  qed
  with chain_b_StreamConn_domain[of a iv r] show ?thesis by blast
qed

theorem chain_b_StreamConn_total_witness:
  "\<exists>p l1 l2. randDataLength p = Some (RandLengthB l1 l2) \<and> sizes_ok l1 \<and> sizes_ok l2 \<and>
     (\<exists>a' r'. chain_b_StreamConn (chain_example (replicate 16 0)) [] \<lparr>draws = \<lambda>n. n, rpos = 0\<rparr> = Ret (p, a', r'))"
proof -
  let ?a = "chain_example (replicate 16 0)" and ?r = "\<lparr>draws = \<lambda>n. n, rpos = 0\<rparr>"
  have "length (Key (ch_Base ?a)) = 16"
    by (simp add: chain_example_def chain_a_StreamConn_def zero_authChainA_def split_beta)
  with chain_b_StreamConn_total[of ?a "[]" ?r]
  obtain p a' r' where "chain_b_StreamConn ?a [] ?r = Ret (p, a', r')"
    by (cases "chain_b_StreamConn ?a [] ?r") auto
  with chain_b_StreamConn_total[of ?a "[]" ?r] show ?thesis by blast
qed

text \<open>
  \<open>Decode\<close> on a connection that has not sent its opening packet panics on any input of more
  than four bytes: the hash that masks the first length is still nil. The order of the first
  \<open>Read\<close> and the first \<open>Write\<close> of a connection matters.
\<close>

theorem chain_Decode_before_Encode:
  assumes "chain_fresh e" "4 < length src"
  shows "chain_Decode e dst src = Panic"
  using assms by (simp add: chain_Decode_def decode_with_def chain_fresh_def ch.loop_Crash chain_frame_def slice_def)

theorem chain_Decode_before_Encode_witness:
  "chain_Decode (chain_example [1]) [] [1, 2, 3, 4, 5] = Panic"
  by (rule chain_Decode_before_Encode[OF chain_example_fresh]) simp

section \<open>Packets from a server\<close>

text \<open>A packet as a server builds it: data under the stream, padding, seven bytes, MAC.\<close>

definition chain_reply :: "authChainA \<Rightarrow> bytes \<Rightarrow> bytes \<Rightarrow> bytes \<Rightarrow> bytes" where
  "chain_reply a enc pad tail7 =
     (let p = enc @ pad @ tail7 in p @ take 1 (HmacMD5 (ch_userKey a) p))"

lemma udpGetRandLength_HmacMD5:
  obtains n x where "udpGetRandLength (HmacMD5 k m) = Ret (n, x)" "n < 127"
proof -
  have m: "unat (x mod 127) < 127" for x :: uint64 by (simp add: unat_mod_distrib)
  have "16 \<le> length (HmacMD5 k m)" by simp
  then obtain r where r: "InitFromBin (HmacMD5 k m) = Ret r"
    by (simp add: InitFromBin_long seed_words_long)
  obtain x r' where "Next r = (x, r')" by (cases "Next r")
  with that r m[of x] show thesis by (simp add: udpGetRandLength_def)
qed



end
