(* ===== verification/Protocol_Conn.thy ===== *)
theory Protocol_Conn
  imports Auth_SHA1_V4 Auth_AES128 Auth_Chain Pool Net
begin

text \<open>
  The protocol interface and the connections built over it: the registry of
  \<^verbatim>\<open>protocol/protocol.go\<close>, \<^verbatim>\<open>protocol/origin.go\<close>, \<^verbatim>\<open>protocol/stream.go\<close>
  and \<^verbatim>\<open>protocol/packet.go\<close>. An interface value is one of the protocols' states. The locale
  \<open>stream_decoder\<close> is what \<open>Conn.Read\<close> relies on of the protocol's \<open>Decode\<close>; it is
  interpreted on the dispatch over all protocols, and gives that a reader sees the written bytes
  however the network cuts them.
\<close>

section \<open>origin.go\<close>

definition origin_Decode :: "bytes \<Rightarrow> bytes \<Rightarrow> bytes \<times> bytes" where
  "origin_Decode dst src = (dst @ src, [])"

definition origin_Encode :: "bytes \<Rightarrow> bytes \<Rightarrow> bytes" where
  "origin_Encode buf b = buf @ b"

definition origin_DecodePacket :: "bytes \<Rightarrow> protocol_error + bytes" where
  "origin_DecodePacket b = Inr b"

definition origin_EncodePacket :: "bytes \<Rightarrow> bytes \<Rightarrow> bytes" where
  "origin_EncodePacket buf b = buf @ b"

section \<open>The interface\<close>

datatype protocol =
  Origin | AuthSHA1V4 authSHA1V4 | AuthAES128 authAES128 | AuthChainA authChainA | AuthChainB authChainA

definition map_decoded ::
  "('a \<Rightarrow> protocol) \<Rightarrow> (protocol_error option \<times> 'a \<times> bytes \<times> bytes) go \<Rightarrow>
     (protocol_error option \<times> protocol \<times> bytes \<times> bytes) go" where
  "map_decoded f m = go_bind m (\<lambda>(e, a, dst, src). Ret (e, f a, dst, src))"

primrec proto_Decode ::
  "protocol \<Rightarrow> bytes \<Rightarrow> bytes \<Rightarrow> (protocol_error option \<times> protocol \<times> bytes \<times> bytes) go" where
  "proto_Decode Origin dst src = (case origin_Decode dst src of (dst', src') \<Rightarrow> Ret (None, Origin, dst', src'))"
| "proto_Decode (AuthSHA1V4 a) dst src = map_decoded AuthSHA1V4 (s4_Decode a dst src)"
| "proto_Decode (AuthAES128 a) dst src = map_decoded AuthAES128 (ae_Decode a dst src)"
| "proto_Decode (AuthChainA a) dst src = map_decoded AuthChainA (chain_Decode a dst src)"
| "proto_Decode (AuthChainB a) dst src = map_decoded AuthChainB (chain_Decode a dst src)"

definition map_encoded ::
  "('a \<Rightarrow> protocol) \<Rightarrow> (('a \<times> rng) \<times> bytes \<times> bytes) go \<Rightarrow> ((protocol \<times> rng) \<times> bytes \<times> bytes) go" where
  "map_encoded f m = go_bind m (\<lambda>((a, r), buf, b). Ret ((f a, r), buf, b))"

primrec proto_Encode ::
  "protocol \<Rightarrow> uint32 \<Rightarrow> rng \<Rightarrow> bytes \<Rightarrow> bytes \<Rightarrow> ((protocol \<times> rng) \<times> bytes \<times> bytes) go" where
  "proto_Encode Origin now r buf b = Ret ((Origin, r), origin_Encode buf b, b)"
| "proto_Encode (AuthSHA1V4 a) now r buf b = map_encoded AuthSHA1V4 (s4_Encode a now r buf b)"
| "proto_Encode (AuthAES128 a) now r buf b = map_encoded AuthAES128 (ae_Encode a now r buf b)"
| "proto_Encode (AuthChainA a) now r buf b = map_encoded AuthChainA (chain_Encode a now r buf b)"
| "proto_Encode (AuthChainB a) now r buf b = map_encoded AuthChainB (chain_Encode a now r buf b)"

primrec proto_DecodePacket :: "protocol \<Rightarrow> bytes \<Rightarrow> (protocol_error + bytes) go" where
  "proto_DecodePacket Origin b = Ret (origin_DecodePacket b)"
| "proto_DecodePacket (AuthSHA1V4 a) b = Ret (Inr (s4_DecodePacket b))"
| "proto_DecodePacket (AuthAES128 a) b = Ret (ae_DecodePacket a b)"
| "proto_DecodePacket (AuthChainA a) b = chain_DecodePacket a b"
| "proto_DecodePacket (AuthChainB a) b = chain_DecodePacket a b"

text \<open>The results of \<open>EncodePacket\<close>: the buffer, the caller's slice afterwards, the randomness.\<close>

primrec proto_EncodePacket ::
  "protocol \<Rightarrow> rng \<Rightarrow> bytes \<Rightarrow> bytes \<Rightarrow> (protocol_error + bytes \<times> bytes \<times> rng) go" where
  "proto_EncodePacket Origin r buf b = Ret (Inr (origin_EncodePacket buf b, b, r))"
| "proto_EncodePacket (AuthSHA1V4 a) r buf b = Ret (Inr (s4_EncodePacket buf b, b, r))"
| "proto_EncodePacket (AuthAES128 a) r buf b = Ret (Inr (ae_EncodePacket a buf b, b, r))"
| "proto_EncodePacket (AuthChainA a) r buf b = chain_EncodePacket a r buf b"
| "proto_EncodePacket (AuthChainB a) r buf b = chain_EncodePacket a r buf b"

section \<open>The registry\<close>

text \<open>What the \<^verbatim>\<open>init\<close> function of each file registers: a name, its overhead and its constructor.\<close>

definition newOrigin :: "Base \<Rightarrow> protocol" where
  [simp]: "newOrigin b = Origin"

definition init_origin :: "bytes \<times> nat \<times> (Base \<Rightarrow> rng \<Rightarrow> protocol \<times> rng)" where
  [simp]: "init_origin = (str ''origin'', 0, \<lambda>b r. (newOrigin b, r))"

definition init_auth_sha1_v4 :: "bytes \<times> nat \<times> (Base \<Rightarrow> rng \<Rightarrow> protocol \<times> rng)" where
  [simp]: "init_auth_sha1_v4 = (str ''auth_sha1_v4'', 7, \<lambda>b r. (AuthSHA1V4 (newAuthSHA1V4 b), r))"

definition init_auth_aes128_sha1 :: "bytes \<times> nat \<times> (Base \<Rightarrow> rng \<Rightarrow> protocol \<times> rng)" where
  [simp]: "init_auth_aes128_sha1 = (str ''auth_aes128_sha1'', 9, \<lambda>b r. map_prod AuthAES128 id (newAuthAES128SHA1 b r))"

definition init_auth_aes128_md5 :: "bytes \<times> nat \<times> (Base \<Rightarrow> rng \<Rightarrow> protocol \<times> rng)" where
  [simp]: "init_auth_aes128_md5 = (str ''auth_aes128_md5'', 9, \<lambda>b r. map_prod AuthAES128 id (newAuthAES128MD5 b r))"

definition init_auth_chain_a :: "bytes \<times> nat \<times> (Base \<Rightarrow> rng \<Rightarrow> protocol \<times> rng)" where
  [simp]: "init_auth_chain_a = (str ''auth_chain_a'', 4, \<lambda>b r. map_prod AuthChainA id (newAuthChainA b r))"

definition init_auth_chain_b :: "bytes \<times> nat \<times> (Base \<Rightarrow> rng \<Rightarrow> protocol \<times> rng)" where
  [simp]: "init_auth_chain_b = (str ''auth_chain_b'', 4, \<lambda>b r. map_prod AuthChainB id (newAuthChainB b r))"

definition protocolList :: "(bytes \<times> nat \<times> (Base \<Rightarrow> rng \<Rightarrow> protocol \<times> rng)) list" where
  "protocolList = [init_origin, init_auth_sha1_v4, init_auth_aes128_sha1, init_auth_aes128_md5, init_auth_chain_a, init_auth_chain_b]"

text \<open>\<open>PickProtocol\<close> adds the overhead to the record it is given; an unknown name is an error.\<close>

definition PickProtocol :: "bytes \<Rightarrow> Base \<Rightarrow> rng \<Rightarrow> (protocol \<times> Base \<times> rng) option" where
  "PickProtocol name b r =
     (case map_of protocolList name of
        None \<Rightarrow> None
      | Some (o', new) \<Rightarrow>
          let b' = b\<lparr>Overhead := Overhead b + o'\<rparr>
          in (case new b' r of (p, r') \<Rightarrow> Some (p, b', r')))"

text \<open>\<open>StreamConn\<close>: the connection's protocol, if it wraps the connection at all, and the factory.\<close>

primrec proto_StreamConn :: "protocol \<Rightarrow> bytes \<Rightarrow> rng \<Rightarrow> (protocol \<times> protocol \<times> rng) go" where
  "proto_StreamConn Origin iv r = Ret (Origin, Origin, r)"
| "proto_StreamConn (AuthSHA1V4 a) iv r =
     (case s4_StreamConn a iv r of (p, a', r') \<Rightarrow> Ret (AuthSHA1V4 p, AuthSHA1V4 a', r'))"
| "proto_StreamConn (AuthAES128 a) iv r =
     (case ae_StreamConn a iv r of (p, a', r') \<Rightarrow> Ret (AuthAES128 p, AuthAES128 a', r'))"
| "proto_StreamConn (AuthChainA a) iv r =
     (case chain_a_StreamConn a iv r of (p, a', r') \<Rightarrow> Ret (AuthChainA p, AuthChainA a', r'))"
| "proto_StreamConn (AuthChainB a) iv r =
     go_bind (chain_b_StreamConn a iv r) (\<lambda>(p, a', r'). Ret (AuthChainB p, AuthChainB a', r'))"

primrec proto_PacketConn :: "protocol \<Rightarrow> protocol" where
  "proto_PacketConn Origin = Origin"
| "proto_PacketConn (AuthSHA1V4 a) = AuthSHA1V4 (s4_PacketConn a)"
| "proto_PacketConn (AuthAES128 a) = AuthAES128 (ae_PacketConn a)"
| "proto_PacketConn (AuthChainA a) = AuthChainA (ch_PacketConn a)"
| "proto_PacketConn (AuthChainB a) = AuthChainB (ch_PacketConn a)"

section \<open>Conn\<close>

text \<open>The state of a \<open>Conn\<close>, with the network connection it reads from.\<close>

datatype 'e conn_error = NetError 'e | ProtocolError protocol_error

record 'c Conn =
  co_conn :: 'c
  co_proto :: protocol
  decoded :: bytes
  underDecoded :: bytes

text \<open>The connection that is embedded is any that can be read, \<open>read\<close> its \<^verbatim>\<open>Read\<close> method.\<close>

definition conn_Read ::
  "('c \<Rightarrow> nat \<Rightarrow> (('e + bytes) \<times> 'c) go) \<Rightarrow> 'c Conn \<Rightarrow> nat \<Rightarrow> (('e conn_error + bytes) \<times> 'c Conn) go" where
  "conn_Read read c m =
     (if length (decoded c) > 0
      then Ret (Inr (take m (decoded c)), c\<lparr>decoded := drop m (decoded c)\<rparr>)
      else go_bind (read (co_conn c) RelayBufferSize) (\<lambda>(res, rest).
        case res of
          Inl e \<Rightarrow> Ret (Inl (NetError e), c\<lparr>co_conn := rest\<rparr>)
        | Inr x \<Rightarrow>
            go_bind (proto_Decode (co_proto c) (decoded c) (underDecoded c @ x)) (\<lambda>(err, p, dst, src).
              let c' = c\<lparr>co_conn := rest, co_proto := p, decoded := dst, underDecoded := src\<rparr>
              in case err of
                   Some e \<Rightarrow> Ret (Inl (ProtocolError e), c')
                 | None \<Rightarrow> Ret (Inr (take m dst), c'\<lparr>decoded := drop m dst\<rparr>))))"

text \<open>
  \<open>Write\<close>, given the outcome of the network's \<^verbatim>\<open>Write\<close>: the result, the protocol's state,
  what is handed to the network and what the caller's slice holds. The buffer is one of the pool's,
  which are empty.
\<close>

definition conn_Write ::
  "protocol \<Rightarrow> uint32 \<Rightarrow> rng \<Rightarrow> 'e option \<Rightarrow> bytes \<Rightarrow>
     (('e conn_error + nat) \<times> (protocol \<times> rng) \<times> bytes \<times> bytes) go" where
  "conn_Write p now r werr b =
     go_bind (proto_Encode p now r [] b) (\<lambda>(s, buf, b').
       case werr of
         Some e \<Rightarrow> Ret (Inl (NetError e), s, buf, b')
       | None \<Rightarrow> Ret (Inr (length b), s, buf, b'))"

section \<open>PacketConn\<close>

text \<open>
  \<open>WriteTo\<close> hands the encoded packet and the address to the network; \<open>None\<close> stands for a protocol
  error. \<open>ReadFrom\<close> decodes in the caller's buffer \<open>b\<close>, given the network's result: the bytes
  received (no more than \<open>b\<close> has room for) and the peer.
\<close>

definition packet_WriteTo ::
  "protocol \<Rightarrow> rng \<Rightarrow> bytes \<Rightarrow> (protocol_error + bytes \<times> bytes \<times> rng) go" where
  "packet_WriteTo p r b = proto_EncodePacket p r [] b"

definition packet_ReadFrom ::
  "protocol \<Rightarrow> bytes \<Rightarrow> 'e + bytes \<times> 'addr \<Rightarrow> (('e conn_error + nat \<times> 'addr) \<times> bytes) go" where
  "packet_ReadFrom p b net =
     (case net of
        Inl e \<Rightarrow> Ret (Inl (NetError e), b)
      | Inr (x, addr) \<Rightarrow>
          go_bind (proto_DecodePacket p x) (\<lambda>res. case res of
              Inl e \<Rightarrow> Ret (Inl (ProtocolError e), copy_at 0 x b)
            | Inr y \<Rightarrow> Ret (Inr (length y, addr), copy_at 0 y (copy_at 0 x b))))"

section \<open>The decoders\<close>

text \<open>The dispatch over all protocols provides it.\<close>

lemma s4_Decode_laws:
  "s4_Decode a dst (s @ t) = go_bind (s4_Decode a dst s)
      (\<lambda>(e, p', dst', r). case e of None \<Rightarrow> s4_Decode p' dst' (r @ t) | Some _ \<Rightarrow> Ret (e, p', dst', []))"
  "s4_Decode a (pre @ dst) s = go_bind (s4_Decode a dst s) (\<lambda>(e, p', out, r). Ret (e, p', pre @ out, r))"
  "s4_Decode a dst s \<noteq> Hang"
  unfolding s4_Decode_def by (rule s4.decode_append decode_with_prefix s4.decode_returns)+

lemma ae_Decode_laws:
  "ae_Decode a dst (s @ t) = go_bind (ae_Decode a dst s)
      (\<lambda>(e, p', dst', r). case e of None \<Rightarrow> ae_Decode p' dst' (r @ t) | Some _ \<Rightarrow> Ret (e, p', dst', []))"
  "ae_Decode a (pre @ dst) s = go_bind (ae_Decode a dst s) (\<lambda>(e, p', out, r). Ret (e, p', pre @ out, r))"
  "ae_Decode a dst s \<noteq> Hang"
  unfolding ae_Decode_def by (rule ae.decode_append decode_with_prefix ae.decode_returns)+

lemma chain_Decode_laws:
  "chain_Decode a dst (s @ t) = go_bind (chain_Decode a dst s)
      (\<lambda>(e, p', dst', r). case e of None \<Rightarrow> chain_Decode p' dst' (r @ t) | Some _ \<Rightarrow> Ret (e, p', dst', []))"
  "chain_Decode a (pre @ dst) s = go_bind (chain_Decode a dst s) (\<lambda>(e, p', out, r). Ret (e, p', pre @ out, r))"
  "chain_Decode a dst s \<noteq> Hang"
  unfolding chain_Decode_def by (rule ch.decode_append decode_with_prefix ch.decode_returns)+

lemma map_decoded_append:
  assumes "d a dst (s @ t) = go_bind (d a dst s)
      (\<lambda>(e, p', dst', r). case e of None \<Rightarrow> d p' dst' (r @ t) | Some _ \<Rightarrow> Ret (e, p', dst', []))"
    and "\<And>a dst s. dec (f a) dst s = map_decoded f (d a dst s)"
  shows "dec (f a) dst (s @ t) = go_bind (dec (f a) dst s)
      (\<lambda>(e, p', dst', r). case e of None \<Rightarrow> dec p' dst' (r @ t) | Some _ \<Rightarrow> Ret (e, p', dst', []))"
proof (cases "d a dst s")
  case (Ret x)
  obtain e p' dst' r where "x = (e, p', dst', r)" by (cases x)
  with assms Ret show ?thesis by (cases e) (simp_all add: map_decoded_def)
qed (use assms in \<open>simp_all add: map_decoded_def\<close>)

lemma map_decoded_prefix:
  "m = go_bind m' (\<lambda>(e, p', out, r). Ret (e, p', pre @ out, r)) \<Longrightarrow>
   map_decoded f m = go_bind (map_decoded f m') (\<lambda>(e, p', out, r). Ret (e, p', pre @ out, r))"
  by (cases m') (auto simp: map_decoded_def)

lemma map_decoded_returns: "m \<noteq> Hang \<Longrightarrow> map_decoded f m \<noteq> Hang"
  by (cases m) (auto simp: map_decoded_def)

interpretation proto: stream_decoder proto_Decode
proof
  fix p dst s t pre
  show "proto_Decode p dst (s @ t) = go_bind (proto_Decode p dst s)
      (\<lambda>(e, p', dst', r). case e of None \<Rightarrow> proto_Decode p' dst' (r @ t) | Some _ \<Rightarrow> Ret (e, p', dst', []))"
  proof (cases p)
    case (AuthSHA1V4 a)
    show ?thesis unfolding AuthSHA1V4
      by (rule map_decoded_append[where d = s4_Decode, OF s4_Decode_laws(1)]) simp
  next
    case (AuthAES128 a)
    show ?thesis unfolding AuthAES128
      by (rule map_decoded_append[where d = ae_Decode, OF ae_Decode_laws(1)]) simp
  next
    case (AuthChainA a)
    show ?thesis unfolding AuthChainA
      by (rule map_decoded_append[where d = chain_Decode, OF chain_Decode_laws(1)]) simp
  next
    case (AuthChainB a)
    show ?thesis unfolding AuthChainB
      by (rule map_decoded_append[where d = chain_Decode, OF chain_Decode_laws(1)]) simp
  qed (simp add: origin_Decode_def)
  show "proto_Decode p (pre @ dst) s =
      go_bind (proto_Decode p dst s) (\<lambda>(e, p', out, r). Ret (e, p', pre @ out, r))"
    by (cases p) (simp_all add: origin_Decode_def map_decoded_prefix[OF s4_Decode_laws(2)]
        map_decoded_prefix[OF ae_Decode_laws(2)] map_decoded_prefix[OF chain_Decode_laws(2)])
  show "proto_Decode p dst [] = Ret (None, p, dst, [])"
    by (cases p) (simp_all add: origin_Decode_def map_decoded_def s4_Decode_def ae_Decode_def
        chain_Decode_def decode_with_def)
  show "proto_Decode p dst s \<noteq> Hang"
    by (cases p) (simp_all add: origin_Decode_def map_decoded_returns s4_Decode_laws(3) ae_Decode_laws(3)
        chain_Decode_laws(3))
qed

section \<open>Reading a stream\<close>

text \<open>
  The reader has been given \<open>out\<close> of a stream that decodes to \<open>whole\<close>; what the connection below
  has to deliver is told by \<open>pending\<close>.
\<close>

definition on_stream :: "('c \<Rightarrow> bytes \<Rightarrow> bool) \<Rightarrow> 'c Conn \<Rightarrow> bytes \<Rightarrow> bytes \<Rightarrow> bool" where
  "on_stream pending c out whole \<longleftrightarrow>
     decodes_to proto_Decode pending (co_conn c) (co_proto c) (out @ decoded c) (underDecoded c) whole"

definition conn_pending :: "('c \<Rightarrow> bytes \<Rightarrow> bool) \<Rightarrow> 'c Conn \<Rightarrow> bytes \<Rightarrow> bool" where
  "conn_pending pending c s \<longleftrightarrow> (\<exists>out. on_stream pending c out (out @ s))"

lemma conn_Read_on_stream:
  assumes below: "byte_reader read pending" and s: "on_stream pending c out whole"
  shows "(conn_Read read c m = Hang \<and> out = whole) \<or>
    (\<exists>x c'. conn_Read read c m = Ret (Inr x, c') \<and> on_stream pending c' (out @ x) whole)"
proof (cases "length (decoded c) > 0")
  case True
  have "on_stream pending (c\<lparr>decoded := drop m (decoded c)\<rparr>) (out @ take m (decoded c)) whole"
    using s by (simp add: on_stream_def)
  with True show ?thesis by (simp add: conn_Read_def)
next
  case False
  then have nil: "decoded c = []" by simp
  with s have "decodes_to proto_Decode pending (co_conn c) (co_proto c) out (underDecoded c) whole"
    by (simp add: on_stream_def)
  then consider "read (co_conn c) RelayBufferSize = Hang" "out = whole"
    | x l' p1 o1 r1 where "read (co_conn c) RelayBufferSize = Ret (Inr x, l')"
      "proto_Decode (co_proto c) [] (underDecoded c @ x) = Ret (None, p1, o1, r1)"
      "decodes_to proto_Decode pending l' p1 (out @ o1) r1 whole"
    using proto.advance[OF below] by blast
  then show ?thesis
  proof cases
    case 2
    let ?c = "c\<lparr>co_conn := l', co_proto := p1, decoded := drop m o1, underDecoded := r1\<rparr>"
    have "conn_Read read c m = Ret (Inr (take m o1), ?c)" using nil 2(1,2) by (simp add: conn_Read_def)
    moreover have "on_stream pending ?c (out @ take m o1) whole" using 2(3) by (simp add: on_stream_def)
    ultimately show ?thesis by blast
  qed (use nil in \<open>simp add: conn_Read_def\<close>)
qed

text \<open>Over a connection that keeps the promise of a reader, a connection keeps it too.\<close>

lemma conn_byte_reader:
  assumes below: "byte_reader read pending"
  shows "byte_reader (conn_Read read) (conn_pending pending)"
proof
  fix c s m assume "conn_pending pending c s"
  then obtain out where s: "on_stream pending c out (out @ s)" by (auto simp: conn_pending_def)
  from conn_Read_on_stream[OF below s, of m]
  show "(conn_Read read c m = Hang \<and> s = []) \<or>
    (\<exists>x t c'. conn_Read read c m = Ret (Inr x, c') \<and> s = x @ t \<and> conn_pending pending c' t)"
  proof
    assume "\<exists>x c'. conn_Read read c m = Ret (Inr x, c') \<and> on_stream pending c' (out @ x) (out @ s)"
    then obtain x c' where x: "conn_Read read c m = Ret (Inr x, c')" "on_stream pending c' (out @ x) (out @ s)" by blast
    obtain t where "out @ s = ((out @ x) @ decoded c') @ t"
      using proto.decodes_to_prefix[OF x(2)[unfolded on_stream_def]] by blast
    then have t: "s = x @ (decoded c' @ t)" by simp
    with x(2) have "on_stream pending c' (out @ x) ((out @ x) @ (decoded c' @ t))" by simp
    with x(1) t show ?thesis unfolding conn_pending_def by blast
  qed simp
qed

text \<open>A new connection, over one that is to deliver what decodes to \<open>whole\<close>.\<close>

lemma conn_pending_start:
  assumes "pending l wire" "proto_Decode d [] wire = Ret (None, d', whole, [])"
  shows "conn_pending pending \<lparr>co_conn = l, co_proto = d, decoded = [], underDecoded = []\<rparr> whole"
  using proto.decodes_to_start[of pending, OF assms] unfolding conn_pending_def on_stream_def
  by (intro exI[of _ "[]"]) simp

interpretation conn: byte_reader "conn_Read (\<lambda>net m. net_read m net)" "conn_pending chunks_of"
  by (rule conn_byte_reader[OF net.byte_reader_axioms])

section \<open>Writer and reader in step\<close>

fun proto_ready :: "nat \<Rightarrow> protocol \<Rightarrow> protocol \<Rightarrow> bool" where
  "proto_ready k Origin Origin = True"
| "proto_ready k (AuthSHA1V4 e) (AuthSHA1V4 d) = (s4_hasSentHeader e \<and> \<not> s4_rawTrans d)"
| "proto_ready k (AuthAES128 e) (AuthAES128 d) = (ae_hasSentHeader e \<and> aes_sync e d)"
| "proto_ready k (AuthChainA e) (AuthChainA d) = (ch_hasSentHeader e \<and> chain_sync k e d)"
| "proto_ready k (AuthChainB e) (AuthChainB d) = (ch_hasSentHeader e \<and> chain_sync k e d)"
| "proto_ready k _ _ = False"

lemma proto_Encode_ready:
  assumes "proto_ready (nframes 2800 b + k) e d"
  shows "\<exists>e' r' f b' d'. proto_Encode e now r [] b = Ret ((e', r'), f, b') \<and> proto_ready k e' d' \<and>
    (\<forall>dst. proto_Decode d dst f = Ret (None, d', dst @ b, []))"
proof -
  consider "e = Origin" "d = Origin"
    | e1 d1 where "e = AuthSHA1V4 e1" "d = AuthSHA1V4 d1" "s4_hasSentHeader e1" "\<not> s4_rawTrans d1"
    | e1 d1 where "e = AuthAES128 e1" "d = AuthAES128 d1" "ae_hasSentHeader e1" "aes_sync e1 d1"
    | e1 d1 where "e = AuthChainA e1" "d = AuthChainA d1" "ch_hasSentHeader e1" "chain_sync (nframes 2800 b + k) e1 d1"
    | e1 d1 where "e = AuthChainB e1" "d = AuthChainB d1" "ch_hasSentHeader e1" "chain_sync (nframes 2800 b + k) e1 d1"
    using assms by (cases e; cases d) auto
  then show ?thesis
  proof cases
    case 1
    then show ?thesis by (simp add: origin_Encode_def origin_Decode_def)
  next
    case 2
    from s4_Encode_open[OF 2(3), of now r "[]" b] obtain f r' where
      "s4_Encode e1 now r [] b = Ret ((e1, r'), [] @ f, b)"
      "\<forall>dst. s4_Decode d1 dst f = Ret (None, d1, dst @ b, [])" using 2(4) by blast
    with 2 show ?thesis
      by (intro exI[of _ e] exI[of _ r'] exI[of _ f] exI[of _ b] exI[of _ d]) (simp add: map_encoded_def map_decoded_def)
  next
    case 3
    from ae_Encode_open[OF 3(3,4), of now r "[]" b] obtain f e' r' d' where
      "ae_Encode e1 now r [] b = Ret ((e', r'), [] @ f, b)" "aes_sync e' d'" "ae_hasSentHeader e'"
      "\<forall>dst. ae_Decode d1 dst f = Ret (None, d', dst @ b, [])" by blast
    with 3 show ?thesis
      by (intro exI[of _ "AuthAES128 e'"] exI[of _ r'] exI[of _ f] exI[of _ b] exI[of _ "AuthAES128 d'"])
        (simp add: map_encoded_def map_decoded_def)
  next
    case 4
    from chain_Encode_open[OF 4(3,4), of now r "[]"] obtain f e' r' b' d' where
      "chain_Encode e1 now r [] b = Ret ((e', r'), [] @ f, b')" "chain_sync k e' d'" "ch_hasSentHeader e'"
      "\<forall>dst. chain_Decode d1 dst f = Ret (None, d', dst @ b, [])" by blast
    with 4 show ?thesis
      by (intro exI[of _ "AuthChainA e'"] exI[of _ r'] exI[of _ f] exI[of _ b'] exI[of _ "AuthChainA d'"])
        (simp add: map_encoded_def map_decoded_def)
  next
    case 5
    from chain_Encode_open[OF 5(3,4), of now r "[]"] obtain f e' r' b' d' where
      "chain_Encode e1 now r [] b = Ret ((e', r'), [] @ f, b')" "chain_sync k e' d'" "ch_hasSentHeader e'"
      "\<forall>dst. chain_Decode d1 dst f = Ret (None, d', dst @ b, [])" by blast
    with 5 show ?thesis
      by (intro exI[of _ "AuthChainB e'"] exI[of _ r'] exI[of _ f] exI[of _ b'] exI[of _ "AuthChainB d'"])
        (simp add: map_encoded_def map_decoded_def)
  qed
qed

text \<open>Writes one after the other, on a network that takes them: what is on the wire.\<close>

fun write_all :: "protocol \<Rightarrow> uint32 \<Rightarrow> rng \<Rightarrow> bytes list \<Rightarrow> ((protocol \<times> rng) \<times> bytes) go" where
  "write_all p now r [] = Ret ((p, r), [])"
| "write_all p now r (b # bs) = go_bind (conn_Write p now r (None :: io_error option) b) (\<lambda>(res, (p', r'), wire, b').
     go_bind (write_all p' now r' bs) (\<lambda>(s, w). Ret (s, wire @ w)))"

lemma write_all_ready:
  assumes "proto_ready (sum_list (map (nframes 2800) bs) + k) e d"
  shows "\<exists>e' r' f d'. write_all e now r bs = Ret ((e', r'), f) \<and> proto_ready k e' d' \<and>
    (\<forall>dst. proto_Decode d dst f = Ret (None, d', dst @ concat bs, []))"
  using assms
proof (induction bs arbitrary: e r d)
  case (Cons b bs)
  from Cons.prems have "proto_ready (nframes 2800 b + (sum_list (map (nframes 2800) bs) + k)) e d"
    by (simp add: add.assoc)
  from proto_Encode_ready[OF this, of now r] obtain e1 r1 f1 b1 d1 where 1:
    "proto_Encode e now r [] b = Ret ((e1, r1), f1, b1)" "proto_ready (sum_list (map (nframes 2800) bs) + k) e1 d1"
    "\<forall>dst. proto_Decode d dst f1 = Ret (None, d1, dst @ b, [])" by blast
  from Cons.IH[OF 1(2), of r1] obtain e2 r2 f2 d2 where 2: "write_all e1 now r1 bs = Ret ((e2, r2), f2)"
    "proto_ready k e2 d2" "\<forall>dst. proto_Decode d1 dst f2 = Ret (None, d2, dst @ concat bs, [])" by blast
  have "proto_Decode d dst (f1 @ f2) = Ret (None, d2, dst @ concat (b # bs), [])" for dst
    using 1(3) 2(3) by (simp add: proto.dec_append[of d dst f1 f2])
  moreover have "write_all e now r (b # bs) = Ret ((e2, r2), f1 @ f2)"
    using 1(1) 2(1) by (simp add: conn_Write_def)
  ultimately show ?case using 2(2) by blast
qed (auto simp: proto.dec_nil)

section \<open>Properties\<close>

text \<open>
  C2: A connection is a transparent pipe, for every protocol and over every connection that keeps the
  promise of a reader: the network, cut as it may be, or a disguise or cipher over it. When an open
  writer and a reader are in step, any sequence of \<open>Write\<close>s returns, and whatever sizes are read, no
  \<open>Read\<close> ever fails or panics: the reads deliver the written bytes in order from the first, and a
  \<open>Read\<close> blocks only after all of them are delivered.
\<close>

theorem conn_transparent:
  assumes below: "byte_reader read pending"
    and ready: "proto_ready (sum_list (map (nframes 2800) bs) + k) e d"
  shows "\<exists>s wire. write_all e now r bs = Ret (s, wire) \<and>
    (\<forall>l ms. pending l wire \<longrightarrow>
      (let c = \<lparr>co_conn = l, co_proto = d, decoded = [], underDecoded = []\<rparr>
       in (\<exists>x t c'. reads (conn_Read read) c ms = Ret (x, None, c') \<and> concat bs = x @ t) \<or>
          (reads (conn_Read read) c ms = Hang \<and>
            (\<exists>ms1 ms2 c'. ms = ms1 @ ms2 \<and> reads (conn_Read read) c ms1 = Ret (concat bs, None, c')))))"
proof -
  from write_all_ready[OF ready, of now r] obtain e' r' wire d' where w: "write_all e now r bs = Ret ((e', r'), wire)"
    "proto_Decode d [] wire = Ret (None, d', concat bs, [])" by (auto dest: spec[of _ "[]"])
  let ?c = "\<lambda>l. \<lparr>co_conn = l, co_proto = d, decoded = [], underDecoded = []\<rparr>"
  have "(\<exists>x t c'. reads (conn_Read read) (?c l) ms = Ret (x, None, c') \<and> concat bs = x @ t) \<or>
      (reads (conn_Read read) (?c l) ms = Hang \<and>
        (\<exists>ms1 ms2 c'. ms = ms1 @ ms2 \<and> reads (conn_Read read) (?c l) ms1 = Ret (concat bs, None, c')))"
    if "pending l wire" for l ms
    using byte_reader.reads_deliver[OF conn_byte_reader[OF below] conn_pending_start[of pending, OF that w(2)], of ms]
    by fast
  with w(1) show ?thesis unfolding Let_def by blast
qed

theorem conn_transparent_witness:
  "\<exists>s wire. write_all (AuthAES128 (ae_example\<lparr>ae_hasSentHeader := True\<rparr>)) 0 \<lparr>draws = \<lambda>n. n, rpos = 0\<rparr> [[1, 2], [3]] = Ret (s, wire) \<and>
     (\<exists>x t c'. reads (conn_Read (\<lambda>net m. net_read m net)) \<lparr>co_conn = [Inr wire], co_proto = AuthAES128 ae_example, decoded = [],
        underDecoded = []\<rparr> [] = Ret (x, None, c') \<and> [1, 2, 3] = x @ t)"
proof -
  have "proto_ready (sum_list (map (nframes 2800) [[1, 2], [3]]) + 0)
      (AuthAES128 (ae_example\<lparr>ae_hasSentHeader := True\<rparr>)) (AuthAES128 ae_example)"
    by (simp add: ae_example_def aes_sync_def aes_functions_def)
  from conn_transparent[OF net.byte_reader_axioms this, of 0 "\<lparr>draws = \<lambda>n. n, rpos = 0\<rparr>"]
  show ?thesis by (auto simp: chunks_of_Cons)
qed

text \<open>
  The registry knows exactly the six protocols; a protocol it yields carries the key it was given
  and the overhead of its name on top of the one it was given; opening a stream connection with it
  always returns, except that \<open>auth_chain_b\<close> panics for a key of less than 16 bytes.
\<close>

theorem PickProtocol_StreamConn:
  "(PickProtocol name b r = None \<longleftrightarrow> name \<notin> set (map str [''origin'', ''auth_sha1_v4'', ''auth_aes128_sha1'',
      ''auth_aes128_md5'', ''auth_chain_a'', ''auth_chain_b''])) \<and>
   (\<forall>p b' r' iv r2. PickProtocol name b r = Some (p, b', r') \<longrightarrow>
      Key b' = Key b \<and> Overhead b' \<le> Overhead b + 9 \<and> proto_StreamConn p iv r2 \<noteq> Hang \<and>
      (proto_StreamConn p iv r2 = Panic \<longleftrightarrow> name = str ''auth_chain_b'' \<and> length (Key b) < 16))"
proof -
  have chain_b: "(go_bind (chain_b_StreamConn a iv r) (\<lambda>(p, a', r'). Ret (AuthChainB p, AuthChainB a', r')) = Panic) =
      (length (Key (ch_Base a)) < 16)"
    "go_bind (chain_b_StreamConn a iv r) (\<lambda>(p, a', r'). Ret (AuthChainB p, AuthChainB a', r')) \<noteq> Hang" for a iv r
    using chain_b_StreamConn_domain[of a iv r] by (cases "chain_b_StreamConn a iv r"; auto)+
  have neq: "str ''origin'' \<noteq> str ''auth_chain_b''" "str ''auth_sha1_v4'' \<noteq> str ''auth_chain_b''"
    "str ''auth_aes128_sha1'' \<noteq> str ''auth_chain_b''" "str ''auth_aes128_md5'' \<noteq> str ''auth_chain_b''"
    "str ''auth_chain_a'' \<noteq> str ''auth_chain_b''"
    by (simp_all add: str_def)
  show ?thesis
    using neq
    by (auto simp: PickProtocol_def protocolList_def newAuthAES128SHA1_def newAuthAES128MD5_def new_authAES128_def
        newAuthChainA_def newAuthChainB_def zero_authChainA_def chain_b split_beta Let_def split: if_splits)
qed

theorem PickProtocol_StreamConn_witness:
  "\<exists>p b' r'. PickProtocol (str ''auth_chain_b'') \<lparr>Key = [1], Overhead = 3, Param = []\<rparr> \<lparr>draws = \<lambda>n. n, rpos = 0\<rparr> =
     Some (p, b', r') \<and> proto_StreamConn p [] r' = Panic"
proof -
  let ?b = "\<lparr>Key = [1], Overhead = 3, Param = []\<rparr>" and ?r = "\<lparr>draws = \<lambda>n. n, rpos = 0\<rparr>"
  note pick = PickProtocol_StreamConn[of "str ''auth_chain_b''" ?b ?r]
  from pick obtain p b' r' where p: "PickProtocol (str ''auth_chain_b'') ?b ?r = Some (p, b', r')"
    by (cases "PickProtocol (str ''auth_chain_b'') ?b ?r") auto
  from pick[THEN conjunct2, rule_format, OF p, of "[]" r'] have "proto_StreamConn p [] r' = Panic" by simp
  with p show ?thesis by blast
qed

end
