(* ===== verification/Go_Numbers.thy ===== *)
theory Go_Numbers
  imports Go_Text
begin

text \<open>
  More of \<^verbatim>\<open>strconv\<close>, \<^verbatim>\<open>strings\<close> and \<^verbatim>\<open>encoding/hex\<close>: numbers
  with a sign, words separated by white space, hexadecimal, letter case, conversions to \<^verbatim>\<open>int32\<close>.
  The texts are ASCII where letter case or white space matter.
\<close>

text \<open>
  \<^verbatim>\<open>strconv.Atoi\<close>: the value and whether there is no error; the value is 0 for no number and
  the end of the range for one too big.
\<close>

datatype uint_result = USyntax | URange | UVal nat

fun parse_uint64 :: "nat \<Rightarrow> bytes \<Rightarrow> uint_result" where
  "parse_uint64 n [] = UVal n"
| "parse_uint64 n (c # s) =
     (if c < 48 \<or> c > 57 then USyntax
      else let n' = 10 * n + (unat c - 48) in
        if n' > 2 ^ 64 - 1 then URange else parse_uint64 n' s)"

definition Atoi :: "bytes \<Rightarrow> int \<times> bool" where
  "Atoi s =
     (let neg = (s \<noteq> [] \<and> hd s = 45);
          d = (if s \<noteq> [] \<and> (hd s = 45 \<or> hd s = 43) then tl s else s);
          lim = (if neg then 2 ^ 63 else 2 ^ 63 - 1) :: int
      in if d = [] then (0, False)
         else case parse_uint64 0 d of
             USyntax \<Rightarrow> (0, False)
           | URange \<Rightarrow> (if neg then - lim else lim, False)
           | UVal n \<Rightarrow> (if neg then - min lim (int n) else min lim (int n), int n \<le> lim))"

text \<open>The conversion to \<^verbatim>\<open>int32\<close> takes the low 32 bits.\<close>

definition to_int32 :: "int \<Rightarrow> int" where
  "to_int32 n = sint (word_of_int n :: uint32)"

lemma to_int32_id: "- (2 ^ 31) \<le> n \<Longrightarrow> n < 2 ^ 31 \<Longrightarrow> to_int32 n = n"
  by (simp add: to_int32_def signed_of_int signed_take_bit_int_eq_self)

text \<open>A printed number is read back.\<close>

lemma parse_uint64_digits:
  assumes "\<And>c. c \<in> set s \<Longrightarrow> 48 \<le> c \<and> c \<le> 57" "foldl (\<lambda>acc c. 10 * acc + (unat c - 48)) n s \<le> 2 ^ 64 - 1"
  shows "parse_uint64 n s = UVal (foldl (\<lambda>acc c. 10 * acc + (unat c - 48)) n s)"
  using assms
proof (induction s arbitrary: n)
  case (Cons c s)
  have mono: "m \<le> foldl (\<lambda>acc c. 10 * acc + (unat c - 48)) m s" for m :: nat
    proof (induction s arbitrary: m)
    case (Cons a s)
    have "m \<le> 10 * m + (unat a - 48)" by simp
    also have "\<dots> \<le> foldl (\<lambda>acc c. 10 * acc + (unat c - 48)) (10 * m + (unat a - 48)) s" by (rule Cons.IH)
    finally show ?case by simp
  qed simp
  let ?n = "10 * n + (unat c - 48)"
  from Cons.prems(2) have le: "foldl (\<lambda>acc c. 10 * acc + (unat c - 48)) ?n s \<le> 2 ^ 64 - 1" by simp
  with mono[of ?n] have "?n \<le> 2 ^ 64 - 1" by (rule order_trans)
  moreover have "\<not> (c < 48 \<or> c > 57)" using Cons.prems(1)[of c] by (simp add: not_less)
  moreover have "parse_uint64 ?n s = UVal (foldl (\<lambda>acc c. 10 * acc + (unat c - 48)) ?n s)"
    using Cons.prems(1) le by (intro Cons.IH) auto
  ultimately show ?case by (simp add: Let_def)
qed simp

lemma Atoi_Itoa: "n < 2 ^ 63 \<Longrightarrow> Atoi (Itoa (int n)) = (int n, True)"
proof -
  assume n: "n < 2 ^ 63"
  obtain c s where d: "nat_digits n = c # s" using nat_digits_ne[of n] by (cases "nat_digits n") auto
  have r: "48 \<le> x \<and> x \<le> 57" if "x \<in> set (nat_digits n)" for x using nat_digits_range[OF that] .
  from r[of c] d have c: "c \<noteq> 45" "c \<noteq> 43" by auto
  have "parse_uint64 0 (nat_digits n) = UVal n"
    using n parse_uint64_digits[of "nat_digits n" 0] nat_digits_range nat_digits_value[of n] by simp
  with n c d show ?thesis by (simp add: Atoi_def Itoa_def)
qed

text \<open>\<^verbatim>\<open>strings.Fields\<close>.\<close>

definition is_space :: "byte \<Rightarrow> bool" where
  "is_space c \<longleftrightarrow> c = 32 \<or> (9 \<le> c \<and> c \<le> 13)"

fun fields_from :: "bytes \<Rightarrow> bytes \<Rightarrow> bytes list" where
  "fields_from w [] = (if w = [] then [] else [w])"
| "fields_from w (c # s) =
     (if is_space c then (if w = [] then fields_from [] s else w # fields_from [] s)
      else fields_from (w @ [c]) s)"

definition Fields :: "bytes \<Rightarrow> bytes list" where
  "Fields s = fields_from [] s"

text \<open>\<^verbatim>\<open>hex.EncodeToString\<close> and \<^verbatim>\<open>strings.EqualFold\<close>.\<close>

definition hex_digit :: "nat \<Rightarrow> byte" where
  "hex_digit d = of_nat (if d < 10 then 48 + d else 87 + d)"

definition hex_string :: "bytes \<Rightarrow> bytes" where
  "hex_string b = concat (map (\<lambda>x. [hex_digit (unat x div 16), hex_digit (unat x mod 16)]) b)"

definition fold_case :: "byte \<Rightarrow> byte" where
  "fold_case c = (if 65 \<le> c \<and> c \<le> 90 then c + 32 else c)"

definition EqualFold :: "bytes \<Rightarrow> bytes \<Rightarrow> bool" where
  "EqualFold s t \<longleftrightarrow> map fold_case s = map fold_case t"

lemma EqualFold_refl [simp]: "EqualFold s s"
  by (simp add: EqualFold_def)

lemma EqualFold_length: "EqualFold s t \<Longrightarrow> length s = length t"
  unfolding EqualFold_def by (metis length_map)

lemma unat_hex_digit: "d < 16 \<Longrightarrow> unat (hex_digit d) = (if d < 10 then 48 + d else 87 + d)"
  unfolding hex_digit_def by (rule unat_byte_of_nat[THEN trans]) (auto simp del: of_nat_add)

lemma hex_digit_inj:
  assumes "d < 16" "d' < 16" "hex_digit d = hex_digit d'"
  shows "d = d'"
proof -
  have "(if d < 10 then 48 + d else 87 + d) = (if d' < 10 then 48 + d' else 87 + d')"
    using arg_cong[OF assms(3), of unat] by (simp only: unat_hex_digit[OF assms(1)] unat_hex_digit[OF assms(2)])
  then show ?thesis by presburger
qed

lemma fold_hex_digit:
  assumes "d < 16"
  shows "fold_case (hex_digit d) = hex_digit d"
proof -
  have "\<not> (65 \<le> unat (hex_digit d) \<and> unat (hex_digit d) \<le> 90)" unfolding unat_hex_digit[OF assms] using assms by simp
  then show ?thesis by (auto simp: fold_case_def word_le_nat_alt)
qed

lemma hex_digits_byte: "unat (x :: byte) div 16 < 16" "unat x mod 16 < 16"
proof -
  have "unat x < 16 * 16" using unat_byte_less[of x] by simp
  then show "unat x div 16 < 16" by (rule less_mult_imp_div_less)
qed simp

lemma fold_hex_string: "map fold_case (hex_string b) = hex_string b"
  by (induction b) (auto simp: hex_string_def fold_hex_digit hex_digits_byte)

lemma hex_string_inj: "hex_string a = hex_string b \<Longrightarrow> a = b"
proof (induction a arbitrary: b)
  case Nil
  then show ?case by (cases b) (auto simp: hex_string_def)
next
  case (Cons x a)
  then obtain y b' where b: "b = y # b'" by (cases b) (auto simp: hex_string_def)
  from Cons.prems have d: "hex_digit (unat x div 16) = hex_digit (unat y div 16)"
    "hex_digit (unat x mod 16) = hex_digit (unat y mod 16)" "hex_string a = hex_string b'"
    by (auto simp: b hex_string_def)
  have "unat x = unat y"
    using hex_digit_inj[OF _ _ d(1)] hex_digit_inj[OF _ _ d(2)] hex_digits_byte[of x] hex_digits_byte[of y]
    by (metis div_mult_mod_eq)
  then have "x = y" by (simp only: unsigned_word_eqI)
  with Cons.IH[OF d(3)] show ?case by (simp add: b)
qed

lemma length_hex_string: "length (hex_string b) = 2 * length b"
  by (induction b) (auto simp: hex_string_def)

end
