(* ===== verification/SSR_Plugin.thy ===== *)
theory SSR_Plugin
  imports Obfs Protocol_Conn Go_Text Go_Numbers
begin

text \<open>
  The ShadowsocksR plug-in (\<^verbatim>\<open>clash/ssr.go\<close>): it parses its arguments with Go's
  \<^verbatim>\<open>flag\<close> package, picks a disguise and a protocol from the registries, and hands streams
  and packets to them. The outbound's buffers are a third party's: how a fresh one takes bytes is an
  argument of the packet operations.
\<close>

section \<open>Go's flag package, for string flags\<close>

text \<open>
  \<open>flag_one\<close> parses one flag: no flag ahead, a name and value with the rest of the arguments,
  or an error (bad syntax, a flag not defined, no value).
\<close>

datatype flag_result = NoFlag | Flag bytes bytes "bytes list" | FlagError

fun split_eq :: "bytes \<Rightarrow> bytes \<times> bytes option" where
  "split_eq [] = ([], None)"
| "split_eq (c # s) = (if c = 61 then ([], Some s) else (case split_eq s of (n, v) \<Rightarrow> (c # n, v)))"

definition flag_one :: "bytes list \<Rightarrow> bytes list \<Rightarrow> flag_result" where
  "flag_one names args =
     (case args of
        [] \<Rightarrow> NoFlag
      | s # rest \<Rightarrow>
          if length s < 2 \<or> s ! 0 \<noteq> 45 then NoFlag
          else if s = [45, 45] then NoFlag
          else let name0 = (if s ! 1 = 45 then drop 2 s else drop 1 s) in
            if name0 = [] \<or> name0 ! 0 = 45 \<or> name0 ! 0 = 61 then FlagError
            else (case split_eq name0 of (name, v) \<Rightarrow>
              if name \<notin> set names then FlagError
              else (case v of
                 Some x \<Rightarrow> Flag name x rest
               | None \<Rightarrow> (case rest of [] \<Rightarrow> FlagError | x # rest' \<Rightarrow> Flag name x rest'))))"

lemma flag_one_length: "flag_one names args = Flag n v rest \<Longrightarrow> length rest < length args"
  by (auto simp: flag_one_def Let_def split: list.splits if_splits prod.splits option.splits)

text \<open>All flags, one after the other, over the values so far: those set before an error stay set.\<close>

function flag_parse :: "bytes list \<Rightarrow> (bytes \<Rightarrow> bytes) \<Rightarrow> bytes list \<Rightarrow> bool \<times> (bytes \<Rightarrow> bytes)" where
  "flag_parse names vals args =
     (case flag_one names args of
        NoFlag \<Rightarrow> (True, vals)
      | FlagError \<Rightarrow> (False, vals)
      | Flag n v rest \<Rightarrow> flag_parse names (vals(n := v)) rest)"
  by pat_completeness auto
termination
  by (relation "measure (\<lambda>(names, vals, args). length args)") (auto simp: flag_one_length)

declare flag_parse.simps [simp del]

section \<open>The plug-in\<close>

record shadowsocksrPlugin =
  pl_host :: bytes
  pl_port :: int
  pl_obfs :: bytes
  pl_obfsParam :: bytes
  pl_protocol :: bytes
  pl_protocolParam :: bytes
  pl_o :: "obfs option"
  pl_p :: "protocol option"

text \<open>The two other ways to initialise it are not for it: they panic. Closing it does nothing.\<close>

definition ssr_Init :: "shadowsocksrPlugin \<Rightarrow> (bytes option \<times> shadowsocksrPlugin) go" where
  "ssr_Init p = Panic"

definition ssr_InitStreamPlugin :: "shadowsocksrPlugin \<Rightarrow> (bytes option \<times> shadowsocksrPlugin) go" where
  "ssr_InitStreamPlugin p = Panic"

definition ssr_Close :: "shadowsocksrPlugin \<Rightarrow> bytes option \<times> shadowsocksrPlugin" where
  "ssr_Close p = (None, p)"

definition new_shadowsocksrPlugin :: shadowsocksrPlugin where
  "new_shadowsocksrPlugin = \<lparr>pl_host = [], pl_port = 0, pl_obfs = [], pl_obfsParam = [],
     pl_protocol = [], pl_protocolParam = [], pl_o = None, pl_p = None\<rparr>"

datatype init_error = ArgumentError | ObfsNotSupported bytes | ProtocolNotSupported bytes

definition ssr_flags :: "bytes list" where
  "ssr_flags = map str [''obfs'', ''obfs-param'', ''protocol'', ''protocol-param'']"

text \<open>\<^verbatim>\<open>StringVar\<close> sets each variable to its default first.\<close>

definition ssr_flag_defaults :: "bytes \<Rightarrow> bytes" where
  "ssr_flag_defaults = (\<lambda>_. [])(str ''obfs'' := str ''origin'', str ''protocol'' := str ''origin'')"

definition InitProtocolPlugin ::
  "shadowsocksrPlugin \<Rightarrow> bytes \<Rightarrow> bytes \<Rightarrow> bytes list \<Rightarrow> bytes \<Rightarrow> nat \<Rightarrow> rng \<Rightarrow>
     init_error option \<times> shadowsocksrPlugin \<times> rng" where
  "InitProtocolPlugin p remoteHost remotePort pluginArgs key ivSize r =
     (case flag_parse ssr_flags ssr_flag_defaults pluginArgs of (ok, v) \<Rightarrow>
        let p1 = p\<lparr>pl_obfs := v (str ''obfs''), pl_obfsParam := v (str ''obfs-param''),
                   pl_protocol := v (str ''protocol''), pl_protocolParam := v (str ''protocol-param'')\<rparr> in
        if \<not> ok then (Some ArgumentError, p1, r)
        else let p2 = p1\<lparr>pl_host := remoteHost, pl_port := fst (Atoi remotePort)\<rparr> in
          case PickObfs (pl_obfs p2) \<lparr>Host = pl_host p2, Port = pl_port p2, ob_Key = key, IVSize = ivSize,
                 ob_Param = pl_obfsParam p2\<rparr> r of
            None \<Rightarrow> (Some (ObfsNotSupported (pl_obfs p2)), p2, r)
          | Some (o', overhead, r1) \<Rightarrow>
              (case PickProtocol (pl_protocol p2) \<lparr>Key = key, Overhead = overhead, Param = pl_protocolParam p2\<rparr> r1 of
                 None \<Rightarrow> (Some (ProtocolNotSupported (pl_protocol p2)), p2, r1)
               | Some (pr, _, r2) \<Rightarrow> (None, p2\<lparr>pl_o := Some o', pl_p := Some pr\<rparr>, r2)))"

text \<open>A plug-in that was not initialised holds nil, and a call on it panics.\<close>

definition ssr_StreamConn :: "shadowsocksrPlugin \<Rightarrow> net \<Rightarrow> obfs_conn go" where
  "ssr_StreamConn p net = (case pl_o p of None \<Rightarrow> Panic | Some o' \<Rightarrow> Ret (obfs_StreamConn o' net))"

text \<open>
  \<open>ProtocolConn\<close>: whether the reader and writer are the connection itself (\<open>None\<close>) or the
  protocol's around it, and the plug-in's protocol afterwards.
\<close>

definition ssr_ProtocolConn :: "shadowsocksrPlugin \<Rightarrow> bytes \<Rightarrow> rng \<Rightarrow> (protocol option \<times> shadowsocksrPlugin \<times> rng) go" where
  "ssr_ProtocolConn p iv r =
     (case pl_p p of
        None \<Rightarrow> Panic
      | Some pr \<Rightarrow> go_bind (proto_StreamConn pr iv r) (\<lambda>(conn, pr', r').
          Ret (if pr = Origin then None else Some conn, p\<lparr>pl_p := Some pr'\<rparr>, r')))"

text \<open>
  The packet operations: \<open>put\<close> is how a new buffer, with what it holds already, takes bytes.
  A slice that starts beyond the packet's end panics.
\<close>

definition ssr_EncodePacket ::
  "(bytes \<Rightarrow> bytes \<Rightarrow> bytes) \<Rightarrow> shadowsocksrPlugin \<Rightarrow> rng \<Rightarrow> bytes \<Rightarrow> nat \<Rightarrow> (protocol_error + bytes \<times> shadowsocksrPlugin) go" where
  "ssr_EncodePacket put p r buffer ivLen =
     (if ivLen > length buffer then Panic
      else case pl_p p of
        None \<Rightarrow> Panic
      | Some pr \<Rightarrow> go_bind (proto_EncodePacket pr r [] (drop ivLen buffer)) (\<lambda>res.
          case res of
            Inl e \<Rightarrow> Ret (Inl e)
          | Inr (packet, _, _) \<Rightarrow>
              Ret (Inr (if ivLen > 0 then put (put [] (take ivLen buffer)) packet else packet, p))))"

definition ssr_DecodePacket ::
  "(bytes \<Rightarrow> bytes \<Rightarrow> bytes) \<Rightarrow> shadowsocksrPlugin \<Rightarrow> bytes \<Rightarrow> (protocol_error + bytes) go" where
  "ssr_DecodePacket put p buffer =
     (case pl_p p of
        None \<Rightarrow> Panic
      | Some pr \<Rightarrow> go_bind (proto_DecodePacket pr buffer) (\<lambda>res. Ret (map_sum id (put []) res)))"

section \<open>The arguments\<close>

lemma split_eq_append: "61 \<notin> set n \<Longrightarrow> split_eq (n @ 61 # v) = (n, Some v)"
  by (induction n) auto

definition flag_arg :: "bytes \<times> bytes \<Rightarrow> bytes" where
  "flag_arg nv = [45, 45] @ fst nv @ [61] @ snd nv"

lemma flag_one_arg:
  assumes "n \<in> set names" "n \<noteq> []" "n ! 0 \<noteq> 45" "61 \<notin> set n"
  shows "flag_one names (flag_arg (n, v) # rest) = Flag n v rest"
proof -
  from assms have "n ! 0 \<noteq> 61" by (metis nth_mem length_greater_0_conv)
  with assms split_eq_append[OF assms(4), of v] show ?thesis
    by (auto simp: flag_one_def flag_arg_def Let_def nth_append)
qed

text \<open>Arguments \<^verbatim>\<open>--name=value\<close>, whatever bytes the values have: the last of a name counts.\<close>

lemma flag_parse_args:
  assumes "\<forall>n \<in> set names. n \<noteq> [] \<and> n ! 0 \<noteq> 45 \<and> 61 \<notin> set n" "fst ` set kvs \<subseteq> set names"
  shows "flag_parse names vals (map flag_arg kvs) = (True, \<lambda>n. case map_of (rev kvs) n of Some v \<Rightarrow> v | None \<Rightarrow> vals n)"
  using assms(2)
proof (induction kvs arbitrary: vals)
  case Nil
  then show ?case by (simp add: flag_parse.simps flag_one_def)
next
  case (Cons nv kvs)
  obtain n v where nv: "nv = (n, v)" by (cases nv)
  with Cons.prems assms(1) have one: "flag_one names (flag_arg nv # map flag_arg kvs) = Flag n v (map flag_arg kvs)"
    by (simp add: flag_one_arg)
  have "flag_parse names vals (map flag_arg (nv # kvs)) = flag_parse names (vals(n := v)) (map flag_arg kvs)"
    using one by (simp add: flag_parse.simps[of names vals])
  also have "\<dots> = (True, \<lambda>m. case map_of (rev kvs) m of Some v \<Rightarrow> v | None \<Rightarrow> (vals(n := v)) m)"
    by (rule Cons.IH) (use Cons.prems in simp)
  also have "(\<lambda>m. case map_of (rev kvs) m of Some v \<Rightarrow> v | None \<Rightarrow> (vals(n := v)) m) =
    (\<lambda>m. case map_of (rev (nv # kvs)) m of Some v \<Rightarrow> v | None \<Rightarrow> vals m)"
    by (rule ext) (simp add: nv map_add_def split: option.splits)
  finally show ?case .
qed

lemma ssr_flags_ok: "\<forall>n \<in> set ssr_flags. n \<noteq> [] \<and> n ! 0 \<noteq> 45 \<and> 61 \<notin> set n"
  by (simp add: ssr_flags_def str_def)

definition ssr_option :: "(bytes \<times> bytes) list \<Rightarrow> bytes \<Rightarrow> bytes" where
  "ssr_option kvs n = (case map_of (rev kvs) n of Some v \<Rightarrow> v | None \<Rightarrow> ssr_flag_defaults n)"

lemma PickObfs_None: "PickObfs name b r = None \<longleftrightarrow> name \<notin> fst ` set obfsList"
  unfolding map_of_eq_None_iff[symmetric] by (auto simp: PickObfs_def split: option.splits prod.splits)

lemma PickProtocol_None: "PickProtocol name b r = None \<longleftrightarrow> name \<notin> fst ` set protocolList"
  unfolding map_of_eq_None_iff[symmetric] by (auto simp: PickProtocol_def Let_def split: option.splits prod.splits)

lemma obfs_names: "fst ` set obfsList = set (map str [''plain'', ''http_simple'', ''http_post'', ''random_head'',
      ''tls1.2_ticket_auth'', ''tls1.2_ticket_fastauth''])"
  by (simp add: obfsList_def)

lemma protocol_names: "fst ` set protocolList = set (map str [''origin'', ''auth_sha1_v4'', ''auth_aes128_sha1'',
      ''auth_aes128_md5'', ''auth_chain_a'', ''auth_chain_b''])"
  by (simp add: protocolList_def)

lemma ssr_default_obfs:
  assumes "str ''obfs'' \<notin> fst ` set kvs"
  shows "ssr_option kvs (str ''obfs'') = str ''origin''" "str ''origin'' \<notin> fst ` set obfsList"
proof -
  have "map_of (rev kvs) (str ''obfs'') = None" using assms by (simp add: map_of_eq_None_iff)
  moreover have "str ''obfs'' \<noteq> str ''protocol''" by (simp add: str_def)
  ultimately show "ssr_option kvs (str ''obfs'') = str ''origin''"
    by (simp add: ssr_option_def ssr_flag_defaults_def)
  show "str ''origin'' \<notin> fst ` set obfsList" by (simp add: obfsList_def str_def)
qed

lemma InitProtocolPlugin_names:
  assumes opts: "fst ` set kvs \<subseteq> set ssr_flags"
    and init: "InitProtocolPlugin p host port (map flag_arg kvs) key ivSize r = (err, p', r')"
  shows "(err = None \<longleftrightarrow> ssr_option kvs (str ''obfs'') \<in> fst ` set obfsList \<and>
      ssr_option kvs (str ''protocol'') \<in> fst ` set protocolList) \<and>
    (err = None \<longrightarrow> (\<forall>net. \<exists>c. ssr_StreamConn p' net = Ret c)) \<and>
    (str ''obfs'' \<notin> fst ` set kvs \<longrightarrow> err = Some (ObfsNotSupported (str ''origin'')))"
proof -
  let ?o = "ssr_option kvs (str ''obfs'')" and ?op = "ssr_option kvs (str ''obfs-param'')"
  let ?p = "ssr_option kvs (str ''protocol'')" and ?pp = "ssr_option kvs (str ''protocol-param'')"
  have v: "flag_parse ssr_flags ssr_flag_defaults (map flag_arg kvs) = (True, ssr_option kvs)"
    unfolding flag_parse_args[OF ssr_flags_ok opts] ssr_option_def ..
  define q where "q = p\<lparr>pl_obfs := ?o, pl_obfsParam := ?op, pl_protocol := ?p, pl_protocolParam := ?pp,
    pl_host := host, pl_port := fst (Atoi port)\<rparr>"
  have i: "InitProtocolPlugin p host port (map flag_arg kvs) key ivSize r =
     (case PickObfs ?o \<lparr>Host = host, Port = fst (Atoi port), ob_Key = key, IVSize = ivSize, ob_Param = ?op\<rparr> r of
        None \<Rightarrow> (Some (ObfsNotSupported ?o), q, r)
      | Some (o', overhead, r1) \<Rightarrow>
          (case PickProtocol ?p \<lparr>Key = key, Overhead = overhead, Param = ?pp\<rparr> r1 of
             None \<Rightarrow> (Some (ProtocolNotSupported ?p), q, r1)
           | Some (pr, _, r2) \<Rightarrow> (None, q\<lparr>pl_o := Some o', pl_p := Some pr\<rparr>, r2)))"
    by (simp add: InitProtocolPlugin_def v Let_def q_def split: option.split prod.split)
  show ?thesis
  proof (cases "PickObfs ?o \<lparr>Host = host, Port = fst (Atoi port), ob_Key = key, IVSize = ivSize, ob_Param = ?op\<rparr> r")
    case None
    with init have "err = Some (ObfsNotSupported ?o)" by (simp add: i)
    moreover have "?o \<notin> fst ` set obfsList" using None unfolding PickObfs_None .
    ultimately show ?thesis using ssr_default_obfs(1)[of kvs] by simp
  next
    case (Some x)
    obtain c ov r1 where x: "x = (c, ov, r1)" by (rule prod_cases3)
    have o': "?o \<in> fst ` set obfsList"
    proof (rule ccontr)
      assume "?o \<notin> fst ` set obfsList"
      then have "PickObfs ?o b r = None" for b by (rule iffD2[OF PickObfs_None])
      with Some show False by simp
    qed
    have d: "str ''obfs'' \<in> fst ` set kvs"
    proof (rule ccontr)
      assume "str ''obfs'' \<notin> fst ` set kvs"
      from ssr_default_obfs[OF this] o' show False by simp
    qed
    show ?thesis
    proof (cases "PickProtocol ?p \<lparr>Key = key, Overhead = ov, Param = ?pp\<rparr> r1")
      case None
      with init Some x have "err = Some (ProtocolNotSupported ?p)" by (simp add: i)
      moreover have "?p \<notin> fst ` set protocolList" using None unfolding PickProtocol_None .
      ultimately show ?thesis using d by simp
    next
      case pr: (Some y)
      obtain z z' z'' where y: "y = (z, z', z'')" by (rule prod_cases3)
      have p': "?p \<in> fst ` set protocolList"
      proof (rule ccontr)
        assume "?p \<notin> fst ` set protocolList"
        then have "PickProtocol ?p b r1 = None" for b by (rule iffD2[OF PickProtocol_None])
        with pr show False by simp
      qed
      have "(err, p', r') = (None, q\<lparr>pl_o := Some c, pl_p := Some z\<rparr>, z'')"
        unfolding init[symmetric] i Some x pr y option.case prod.case ..
      then have "err = None" "pl_o p' = Some c" by simp_all
      with o' p' d show ?thesis by (simp add: ssr_StreamConn_def)
    qed
  qed
qed

section \<open>Properties\<close>

text \<open>
  C31: Given options \<^verbatim>\<open>--name=value\<close> of the four names, whatever the values, the plug-in is
  initialised exactly when the disguise and the protocol they choose are registered, and then streams
  can be wrapped; when no disguise is chosen it never is, since the default \<^verbatim>\<open>origin\<close> is
  the name of a protocol and no disguise is registered under it.
\<close>

theorem InitProtocolPlugin_options:
  assumes opts: "fst ` set kvs \<subseteq> set ssr_flags"
    and init: "InitProtocolPlugin p host port (map flag_arg kvs) key ivSize r = (err, p', r')"
  shows "(err = None \<longleftrightarrow>
      ssr_option kvs (str ''obfs'') \<in> set (map str [''plain'', ''http_simple'', ''http_post'', ''random_head'',
        ''tls1.2_ticket_auth'', ''tls1.2_ticket_fastauth'']) \<and>
      ssr_option kvs (str ''protocol'') \<in> set (map str [''origin'', ''auth_sha1_v4'', ''auth_aes128_sha1'',
        ''auth_aes128_md5'', ''auth_chain_a'', ''auth_chain_b''])) \<and>
    (err = None \<longrightarrow> (\<forall>net. \<exists>c. ssr_StreamConn p' net = Ret c)) \<and>
    (str ''obfs'' \<notin> fst ` set kvs \<longrightarrow> err = Some (ObfsNotSupported (str ''origin'')))"
  using InitProtocolPlugin_names[OF assms] unfolding obfs_names protocol_names .

theorem InitProtocolPlugin_options_witness:
  "fst (InitProtocolPlugin new_shadowsocksrPlugin [104] [56, 48] (map flag_arg [(str ''protocol'', str ''auth_chain_a'')])
     [1, 2] 16 \<lparr>draws = \<lambda>n. n, rpos = 0\<rparr>) = Some (ObfsNotSupported (str ''origin''))"
proof -
  let ?kvs = "[(str ''protocol'', str ''auth_chain_a'')]"
  obtain err p' r' where i: "InitProtocolPlugin new_shadowsocksrPlugin [104] [56, 48] (map flag_arg ?kvs) [1, 2] 16
      \<lparr>draws = \<lambda>n. n, rpos = 0\<rparr> = (err, p', r')" by (rule prod_cases3)
  have "fst ` set ?kvs \<subseteq> set ssr_flags" by (simp add: ssr_flags_def)
  from InitProtocolPlugin_options[OF this i] have "err = Some (ObfsNotSupported (str ''origin''))" by (simp add: str_def)
  with i show ?thesis by simp
qed

end
