(* ===== verification/SSR_Stack.thy ===== *)
theory SSR_Stack
  imports SSR_Plugin
begin

text \<open>
  The layers of a ShadowsocksR connection put together, as the outbound does it with the plug-in's two
  calls: \<^verbatim>\<open>StreamConn\<close> puts the disguise over the network, the outbound its cipher over that,
  and \<^verbatim>\<open>ProtocolConn\<close> the protocol over the cipher. The cipher is the core's: how one end turns a
  stream into another, and the other end's connection that turns it back, are arguments.
\<close>

section \<open>What the plug-in makes of a connection\<close>

text \<open>
  The connection an outbound reads: the plug-in's protocol over the cipher over the plug-in's disguise.
  When the protocol is \<^verbatim>\<open>origin\<close> the connection under it is used as it is.
\<close>

definition ssr_over :: "protocol \<Rightarrow> 'c \<Rightarrow> 'c + 'c Conn" where
  "ssr_over d l =
     (if d = Origin then Inl l else Inr \<lparr>co_conn = l, co_proto = d, decoded = [], underDecoded = []\<rparr>)"

definition ssr_connect ::
  "shadowsocksrPlugin \<Rightarrow> (obfs_conn \<Rightarrow> 'c) \<Rightarrow> net \<Rightarrow> bytes \<Rightarrow> rng \<Rightarrow> (('c + 'c Conn) \<times> shadowsocksrPlugin \<times> rng) go" where
  "ssr_connect p cipher net iv r =
     go_bind (ssr_StreamConn p net) (\<lambda>oc.
       go_bind (ssr_ProtocolConn p iv r) (\<lambda>(pr, p', r').
         Ret (ssr_over (case pr of None \<Rightarrow> Origin | Some d \<Rightarrow> d) (cipher oc), p', r')))"

definition stack_Read ::
  "('c \<Rightarrow> nat \<Rightarrow> (('e + bytes) \<times> 'c) go) \<Rightarrow> 'c + 'c Conn \<Rightarrow> nat \<Rightarrow> (('e conn_error + bytes) \<times> ('c + 'c Conn)) go" where
  "stack_Read read c m =
     (case c of
        Inl l \<Rightarrow> go_bind (read l m) (\<lambda>(res, l'). Ret (map_sum NetError id res, Inl l'))
      | Inr c \<Rightarrow> go_bind (conn_Read read c m) (\<lambda>(res, c'). Ret (res, Inr c')))"

primrec stack_pending :: "('c \<Rightarrow> bytes \<Rightarrow> bool) \<Rightarrow> 'c + 'c Conn \<Rightarrow> bytes \<Rightarrow> bool" where
  "stack_pending pending (Inl l) s = pending l s"
| "stack_pending pending (Inr c) s = conn_pending pending c s"

text \<open>Every layer keeps the promise of a reader when the one under it does.\<close>

lemma stack_byte_reader:
  assumes below: "byte_reader read pending"
  shows "byte_reader (stack_Read read) (stack_pending pending)"
proof
  fix c s m assume p: "stack_pending pending c s"
  show "(stack_Read read c m = Hang \<and> s = []) \<or>
    (\<exists>x t c'. stack_Read read c m = Ret (Inr x, c') \<and> s = x @ t \<and> stack_pending pending c' t)"
  proof (cases c)
    case (Inl l)
    with p byte_reader.read_step[OF below, of l s m] show ?thesis by (force simp: stack_Read_def)
  next
    case (Inr l)
    with p byte_reader.read_step[OF conn_byte_reader[OF below], of l s m] show ?thesis
      by (force simp: stack_Read_def)
  qed
qed

lemma stack_pending_start:
  assumes "pending l wire" "proto_Decode d [] wire = Ret (None, d', whole, [])"
  shows "stack_pending pending (ssr_over d l) whole"
  using assms conn_pending_start[of pending, OF assms] by (auto simp: ssr_over_def origin_Decode_def)

section \<open>From one end to the other\<close>

text \<open>
  C1: From one end of a ShadowsocksR connection to the other, for every protocol and every disguise past
  its handshake: what one end writes goes through its protocol, through the cipher, in whatever pieces
  through the disguise, and is cut by the network as it likes; the other end's reads, of whatever sizes,
  deliver exactly what was written, in order, without error or panic, and block only when it is all
  delivered. Of the cipher it is used that its reader delivers what the other end encrypted.
\<close>

theorem ssr_end_to_end:
  assumes cipher: "byte_reader cread cpending" "\<And>l s. obfs_pending l (enc s) \<Longrightarrow> cpending (cipher l) s"
    and ends: "obfs_ends a b" and ready: "proto_ready (sum_list (map (nframes 2800) bs) + k) e d"
  shows "\<exists>st wire. write_all e now r bs = Ret (st, wire) \<and>
    (\<forall>pieces now' q ms. concat pieces = enc wire \<longrightarrow> chunks_of (obfs_net b) (fst (obfs_write_all a now' q pieces)) \<longrightarrow>
      (let c = ssr_over d (cipher b); read = stack_Read cread
       in (\<exists>x t c'. reads read c ms = Ret (x, None, c') \<and> concat bs = x @ t) \<or>
          (reads read c ms = Hang \<and> (\<exists>ms1 ms2 c'. ms = ms1 @ ms2 \<and> reads read c ms1 = Ret (concat bs, None, c')))))"
proof -
  from write_all_ready[OF ready, of now r] obtain st wire d' where w: "write_all e now r bs = Ret (st, wire)"
    "proto_Decode d [] wire = Ret (None, d', concat bs, [])" by (auto dest: spec[of _ "[]"])
  let ?c = "ssr_over d (cipher b)" and ?read = "stack_Read cread"
  have "(\<exists>x t c'. reads ?read ?c ms = Ret (x, None, c') \<and> concat bs = x @ t) \<or>
      (reads ?read ?c ms = Hang \<and> (\<exists>ms1 ms2 c'. ms = ms1 @ ms2 \<and> reads ?read ?c ms1 = Ret (concat bs, None, c')))"
    if enc: "concat pieces = enc wire" and net: "chunks_of (obfs_net b) (fst (obfs_write_all a now' q pieces))"
    for pieces now' q ms
  proof -
    from obfs_ends_pending[OF ends net] enc cipher(2) have "cpending (cipher b) wire" by simp
    from byte_reader.reads_deliver[OF stack_byte_reader[OF cipher(1)] stack_pending_start[of cpending, OF this w(2)], of ms]
    show ?thesis by fast
  qed
  with w(1) show ?thesis unfolding Let_def by blast
qed

text \<open>A cipher for the example, which inverts every byte.\<close>

definition flip_Read :: "obfs_conn \<Rightarrow> nat \<Rightarrow> ((obfs_error + bytes) \<times> obfs_conn) go" where
  "flip_Read c m = go_bind (obfs_app_Read 0 \<lparr>draws = \<lambda>n. n, rpos = 0\<rparr> c m) (\<lambda>(res, c').
     Ret (map_sum id (map (\<lambda>x. 255 - x)) res, c'))"

interpretation flip: byte_reader flip_Read "\<lambda>c s. obfs_pending c (map (\<lambda>x. 255 - x) s)"
proof
  fix c s m assume "obfs_pending c (map (\<lambda>x. 255 - x) s)"
  from obfs.read_step[OF this, of 0 "\<lparr>draws = \<lambda>n. n, rpos = 0\<rparr>" m]
  show "(flip_Read c m = Hang \<and> s = []) \<or>
    (\<exists>x t c'. flip_Read c m = Ret (Inr x, c') \<and> s = x @ t \<and> obfs_pending c' (map (\<lambda>x. 255 - x) t))"
    by (auto simp: flip_Read_def map_eq_append_conv comp_def)
qed

theorem ssr_end_to_end_witness:
  "\<exists>st wire. write_all (AuthAES128 (ae_example\<lparr>ae_hasSentHeader := True\<rparr>)) 0 \<lparr>draws = \<lambda>n. n, rpos = 0\<rparr> [[1, 2], [3]] =
       Ret (st, wire) \<and>
     (\<exists>x t c'. reads (stack_Read flip_Read) (ssr_over (AuthAES128 ae_example) (Conn_plain [Inr (map (\<lambda>x. 255 - x) wire)])) [4, 4] =
        Ret (x, None, c') \<and> [1, 2, 3] = x @ t \<or>
      reads (stack_Read flip_Read) (ssr_over (AuthAES128 ae_example) (Conn_plain [Inr (map (\<lambda>x. 255 - x) wire)])) [4, 4] = Hang)"
proof -
  let ?r = "\<lparr>draws = \<lambda>n. n, rpos = 0\<rparr>"
  have ready: "proto_ready (sum_list (map (nframes 2800) [[1, 2], [3]]) + 0)
      (AuthAES128 (ae_example\<lparr>ae_hasSentHeader := True\<rparr>)) (AuthAES128 ae_example)"
    by (simp add: ae_example_def aes_sync_def aes_functions_def)
  from write_all_ready[OF ready, of 0 ?r] obtain st wire where
    w: "write_all (AuthAES128 (ae_example\<lparr>ae_hasSentHeader := True\<rparr>)) 0 ?r [[1, 2], [3]] = Ret (st, wire)" by blast
  let ?b = "Conn_plain [Inr (map (\<lambda>x. 255 - x) wire)]"
  have ends: "obfs_ends (Conn_plain []) ?b" by simp
  have net: "chunks_of (obfs_net ?b) (fst (obfs_write_all (Conn_plain []) 0 ?r [map (\<lambda>x. 255 - x) wire]))"
    by (simp add: chunks_of_Cons)
  from ssr_end_to_end[OF flip.byte_reader_axioms, where enc = "map (\<lambda>x. 255 - x)" and cipher = "\<lambda>c. c",
      OF _ ends ready, of 0 ?r] w net
  have "(\<exists>x t c'. reads (stack_Read flip_Read) (ssr_over (AuthAES128 ae_example) ?b) [4, 4] = Ret (x, None, c') \<and> [1, 2, 3] = x @ t) \<or>
      reads (stack_Read flip_Read) (ssr_over (AuthAES128 ae_example) ?b) [4, 4] = Hang"
    by (auto simp: Let_def simp del: reads.simps write_all.simps dest!: spec[of _ "[map (\<lambda>x. 255 - x) wire]"])
  with w show ?thesis by blast
qed

end
