(* ===== verification/Simple_Obfs_HTTP.thy ===== *)
theory Simple_Obfs_HTTP
  imports Obfs_HTTP Crypto
begin

text \<open>
  The simple-obfs disguise \<^verbatim>\<open>http\<close> (\<^verbatim>\<open>transport/simple-obfs/http.go\<close>): the first
  write is the body of a request to upgrade to a websocket, the head of the first response is skipped.
  The request is written by Go's \<^verbatim>\<open>net/http\<close>, whose \<^verbatim>\<open>Request.Write\<close> is written out
  here; what its URL parser makes of the host is an argument. The reader is the one of
  \<^verbatim>\<open>http_simple\<close> with another representation of the bytes left over, and refines it.
\<close>

record HTTPObfs =
  so_net :: net
  so_host :: bytes
  so_port :: bytes
  so_buf :: "bytes option"
  so_offset :: nat
  so_firstRequest :: bool
  so_firstResponse :: bool

definition NewHTTPObfs :: "net \<Rightarrow> bytes \<Rightarrow> bytes \<Rightarrow> HTTPObfs" where
  "NewHTTPObfs conn host port = \<lparr>so_net = conn, so_host = host, so_port = port, so_buf = None,
     so_offset = 0, so_firstRequest = True, so_firstResponse = True\<rparr>"

definition so_Read :: "HTTPObfs \<Rightarrow> nat \<Rightarrow> ((io_error + bytes) \<times> HTTPObfs) go" where
  "so_Read c m =
     (case so_buf c of
        Some x \<Rightarrow>
          let n = min m (length x - so_offset c);
              c1 = c\<lparr>so_offset := so_offset c + n\<rparr>
          in Ret (Inr (take n (drop (so_offset c) x)),
               if so_offset c1 = length x then c1\<lparr>so_buf := None\<rparr> else c1)
      | None \<Rightarrow>
          if so_firstResponse c
          then go_bind (net_read RelayBufferSize (so_net c)) (\<lambda>(res, net).
            let c1 = c\<lparr>so_net := net\<rparr> in
            case res of
              Inl e \<Rightarrow> Ret (Inl e, c1)
            | Inr buf \<Rightarrow>
                (case Index buf (CRLF @ CRLF) of
                   None \<Rightarrow> Ret (Inl EOF, c1)
                 | Some idx \<Rightarrow>
                     let len = length buf - (idx + 4);
                         n = min m len;
                         c2 = c1\<lparr>so_firstResponse := False\<rparr>
                     in Ret (Inr (take n (drop (idx + 4) buf)),
                          if len > n then c2\<lparr>so_buf := Some (take (idx + 4 + len) buf), so_offset := idx + 4 + n\<rparr>
                          else c2)))
          else go_bind (net_read m (so_net c)) (\<lambda>(res, net). Ret (res, c\<lparr>so_net := net\<rparr>)))"

section \<open>Writing\<close>

text \<open>
  \<^verbatim>\<open>Request.Write\<close>: request line, host, user agent, the length of the body unless there is none,
  the other headers by name, a blank line and the body.
\<close>

definition header_line :: "string \<Rightarrow> bytes \<Rightarrow> bytes" where
  "header_line name v = str name @ str '': '' @ v"

definition http_lines :: "bytes \<Rightarrow> bytes \<Rightarrow> bytes \<Rightarrow> bytes \<Rightarrow> bytes \<Rightarrow> bytes list" where
  "http_lines uri host agent key body =
     [str ''GET '' @ uri @ str '' HTTP/1.1'', header_line ''Host'' host, header_line ''User-Agent'' agent] @
     (if body = [] then [] else [header_line ''Content-Length'' (Itoa (int (length body)))]) @
     [header_line ''Connection'' (str ''Upgrade''), header_line ''Sec-Websocket-Key'' key,
      header_line ''Upgrade'' (str ''websocket'')]"

definition http_message :: "bytes list \<Rightarrow> bytes \<Rightarrow> bytes" where
  "http_message lines body = concat (map (\<lambda>l. l @ CRLF) lines) @ CRLF @ body"

text \<open>\<^verbatim>\<open>base64.URLEncoding\<close> differs from the standard one in two characters.\<close>

definition b64url_encode :: "bytes \<Rightarrow> bytes" where
  "b64url_encode s = map (\<lambda>c. if c = 43 then 45 else if c = 47 then 95 else c) (b64_encode s)"

text \<open>
  \<open>lib host hdr\<close> is the standard library's part: the request URI it makes of the URL
  \<^verbatim>\<open>http://host/\<close> and what it writes for the Host header \<open>hdr\<close>, or \<open>None\<close> when the URL does not
  parse; the request is then nil, and setting a header of it panics.
\<close>

definition so_Write ::
  "(bytes \<Rightarrow> bytes \<Rightarrow> (bytes \<times> bytes) option) \<Rightarrow> HTTPObfs \<Rightarrow> rng \<Rightarrow> io_error option \<Rightarrow> bytes \<Rightarrow>
     ((nat \<times> io_error option) \<times> HTTPObfs \<times> bytes \<times> rng) go" where
  "so_Write lib c r werr b =
     (if so_firstRequest c
      then (case rand_bytes 16 r of (randBytes, r1) \<Rightarrow>
        let hdr = (if so_port c \<noteq> str ''80'' then so_host c @ str '':'' @ so_port c else so_host c) in
        case lib (so_host c) hdr of
          None \<Rightarrow> Panic
        | Some (uri, host) \<Rightarrow>
            (case Intn 54 r1 of (x, r2) \<Rightarrow> case Intn 2 r2 of (y, r3) \<Rightarrow>
               let agent = str ''curl/7.'' @ Itoa (int x) @ str ''.'' @ Itoa (int y)
               in Ret ((length b, werr), c\<lparr>so_firstRequest := False\<rparr>,
                    http_message (http_lines uri host agent (b64url_encode randBytes) b) b, r3)))
      else Ret ((length b, werr), c, b, r))"

section \<open>The reader refines the one of http\_simple\<close>

definition so_wf :: "HTTPObfs \<Rightarrow> bool" where
  "so_wf c \<longleftrightarrow> (case so_buf c of None \<Rightarrow> True | Some x \<Rightarrow> so_offset c < length x \<and> \<not> so_firstResponse c)"

definition so_abs :: "httpObfs \<Rightarrow> HTTPObfs \<Rightarrow> httpConn" where
  "so_abs h c = \<lparr>hc_net = so_net c, hc_obfs = h, hc_hasSentHeader = \<not> so_firstRequest c,
     hc_hasRecvHeader = \<not> so_firstResponse c, hc_buf = map_option (drop (so_offset c)) (so_buf c)\<rparr>"

lemma so_Read_refines:
  assumes "so_wf c"
  shows "http_Read (so_abs h c) m = go_bind (so_Read c m) (\<lambda>(res, c'). Ret (res, so_abs h c'))"
proof (cases "so_buf c")
  case (Some x)
  with assms show ?thesis
    by (auto simp: so_Read_def http_Read_def so_abs_def so_wf_def Let_def add.commute)
next
  case None
  then show ?thesis
    by (cases "so_firstResponse c"; cases "net_read RelayBufferSize (so_net c)"; cases "net_read m (so_net c)")
      (auto simp: so_Read_def http_Read_def so_abs_def Let_def add.commute split: sum.splits option.splits)
qed

lemma so_Read_wf:
  assumes wf: "so_wf c" and rd: "so_Read c m = Ret (res, c')"
  shows "so_wf c'"
proof (cases "so_buf c")
  case (Some x)
  with assms show ?thesis by (auto simp: so_Read_def so_wf_def Let_def split: if_splits)
next
  case None
  show ?thesis
  proof (cases "so_firstResponse c")
    case True
    with rd None obtain res1 net where n: "net_read RelayBufferSize (so_net c) = Ret (res1, net)"
      by (auto simp: so_Read_def go_bind_Ret_iff)
    show ?thesis
    proof (cases res1)
      case (Inl e)
      with rd None True n show ?thesis by (auto simp: so_Read_def so_wf_def)
    next
      case (Inr x)
      with rd None True n show ?thesis
        by (cases "Index x (CRLF @ CRLF)") (auto simp: so_Read_def so_wf_def Let_def split: if_splits)
    qed
  next
    case False
    with rd None show ?thesis by (auto simp: so_Read_def so_wf_def go_bind_Ret_iff)
  qed
qed

definition so_pending :: "HTTPObfs \<Rightarrow> bytes \<Rightarrow> bool" where
  "so_pending c s \<longleftrightarrow> so_wf c \<and> (\<exists>h. http_pending (so_abs h c) s)"

interpretation httpobfs: byte_reader so_Read so_pending
proof
  fix c s m assume "so_pending c s"
  then obtain h where wf: "so_wf c" and p: "http_pending (so_abs h c) s" by (auto simp: so_pending_def)
  note sim = so_Read_refines[OF wf, of h m]
  from http.read_step[OF p, of m] show "(so_Read c m = Hang \<and> s = []) \<or>
    (\<exists>x t c'. so_Read c m = Ret (Inr x, c') \<and> s = x @ t \<and> so_pending c' t)"
  proof
    assume "http_Read (so_abs h c) m = Hang \<and> s = []"
    with sim show ?thesis by (cases "so_Read c m") auto
  next
    assume "\<exists>x t d. http_Read (so_abs h c) m = Ret (Inr x, d) \<and> s = x @ t \<and> http_pending d t"
    then obtain x t d where "http_Read (so_abs h c) m = Ret (Inr x, d)" "s = x @ t" "http_pending d t" by blast
    moreover with sim obtain c' where "so_Read c m = Ret (Inr x, c')" "d = so_abs h c'"
      by (cases "so_Read c m") auto
    ultimately show ?thesis using so_Read_wf[OF wf] unfolding so_pending_def by blast
  qed
qed

section \<open>The end of a request's head\<close>

text \<open>A line is not empty and has no carriage return.\<close>

definition is_line :: "bytes \<Rightarrow> bool" where
  "is_line l \<longleftrightarrow> l \<noteq> [] \<and> 13 \<notin> set l"

lemma Index_skip: "13 \<notin> set l \<Longrightarrow> Index (l @ s) (13 # sep) = map_option (\<lambda>k. length l + k) (Index s (13 # sep))"
proof (induction l)
  case (Cons x l)
  then have "Index ((x # l) @ s) (13 # sep) = map_option Suc (Index (l @ s) (13 # sep))"
    by (subst Index.simps) simp
  with Cons show ?case by (simp add: option.map_comp comp_def)
next
  case Nil
  then show ?case by (cases "Index s (13 # sep)") auto
qed

lemma Index_CRLF_line: "y \<noteq> 13 \<Longrightarrow> Index (13 # 10 # y # s) [13, 10, 13, 10] = map_option (\<lambda>k. k + 2) (Index (y # s) [13, 10, 13, 10])"
  by (subst Index.simps, simp, subst Index.simps) (simp add: option.map_comp comp_def)

lemma Index_http_message:
  "lines \<noteq> [] \<Longrightarrow> \<forall>l \<in> set lines. is_line l \<Longrightarrow>
   Index (http_message lines body) (CRLF @ CRLF) = Some (length (concat (map (\<lambda>l. l @ CRLF) lines)) - 2)"
proof (induction lines)
  case (Cons l lines)
  then have l: "13 \<notin> set l" by (simp add: is_line_def)
  have crlf: "CRLF @ CRLF = [13, 10, 13, 10]" by (simp add: CRLF_def)
  show ?case
  proof (cases lines)
    case Nil
    have "Index ([13, 10, 13, 10] @ body) [13, 10, 13, 10] = Some 0" by (subst Index.simps) simp
    with Index_skip[OF l, of "[13, 10, 13, 10] @ body" "[10, 13, 10]"] Nil show ?thesis
      by (simp add: http_message_def CRLF_def)
  next
    case (Cons l2 lines2)
    with Cons.prems obtain y u where y: "l2 = y # u" "y \<noteq> 13" by (cases l2) (auto simp: is_line_def)
    let ?rest = "http_message lines body"
    obtain v where v: "?rest = y # v" using Cons y by (simp add: http_message_def)
    have "Index ?rest [13, 10, 13, 10] = Some (length (concat (map (\<lambda>l. l @ CRLF) lines)) - 2)"
      using Cons.IH Cons.prems Cons by (simp add: crlf)
    with Index_CRLF_line[OF y(2), of v] v have
      "Index ([13, 10] @ ?rest) [13, 10, 13, 10] = Some (length (concat (map (\<lambda>l. l @ CRLF) lines)) - 2 + 2)" by simp
    with Index_skip[OF l, of "[13, 10] @ ?rest" "[10, 13, 10]"] Cons show ?thesis
      by (simp add: http_message_def CRLF_def)
  qed
qed simp

lemma Itoa_line: "13 \<notin> set (Itoa (int n))"
  using nat_digits_range[of 13 n] by (auto simp: Itoa_def)

lemma b64_char_range: "b64_char n \<noteq> 13"
proof -
  have "b64_char n \<in> set b64_alphabet" unfolding b64_char_def by (rule nth_mem) (simp add: b64_alphabet_def str_def)
  moreover have "13 \<notin> set b64_alphabet" by (simp add: b64_alphabet_def str_def)
  ultimately show ?thesis by metis
qed

lemma b64_line: "13 \<notin> set (b64url_encode s)"
proof -
  have "13 \<notin> set (b64_encode s)"
    by (induction s rule: b64_encode.induct) (simp_all add: b64_char_range[symmetric])
  then show ?thesis by (auto simp: b64url_encode_def)
qed

lemma http_lines_ok:
  assumes "13 \<notin> set uri" "13 \<notin> set host" "13 \<notin> set agent"
  shows "http_lines uri host agent (b64url_encode key) body \<noteq> []"
    and "\<forall>l \<in> set (http_lines uri host agent (b64url_encode key) body). is_line l"
  using assms b64_line[of key] Itoa_line[of "length body"]
  by (auto simp: http_lines_def is_line_def header_line_def str_def)

section \<open>Properties\<close>

text \<open>
  The first \<open>Write\<close> sends a request whose first blank line is followed by exactly the data, and whose
  head gives the length of the data when there is any; every later \<open>Write\<close> is passed through. Of the
  standard library it is assumed that the request URI and host it writes have no carriage return.
\<close>

theorem simple_obfs_http_Write:
  assumes lib: "lib (so_host c) (if so_port c \<noteq> str ''80'' then so_host c @ str '':'' @ so_port c else so_host c) = Some (uri, host)"
    and "13 \<notin> set uri" "13 \<notin> set host"
  shows "\<exists>w r'. so_Write lib c r werr b = Ret ((length b, werr), c\<lparr>so_firstRequest := False\<rparr>, w, r') \<and>
    (if so_firstRequest c
     then \<exists>k. Index w (CRLF @ CRLF) = Some k \<and> drop (k + 4) w = b \<and>
       (\<exists>head. take (k + 2) w = str ''GET '' @ uri @ str '' HTTP/1.1'' @ CRLF @ str ''Host: '' @ host @ CRLF @ head \<and>
         (b \<noteq> [] \<longrightarrow> (\<exists>x y. head = x @ str ''Content-Length: '' @ Itoa (int (length b)) @ CRLF @ y)))
     else w = b)"
proof (cases "so_firstRequest c")
  case True
  obtain key r1 where key: "rand_bytes 16 r = (key, r1)" by (cases "rand_bytes 16 r")
  obtain x r2 where x: "Intn 54 r1 = (x, r2)" by (cases "Intn 54 r1")
  obtain y r3 where y: "Intn 2 r2 = (y, r3)" by (cases "Intn 2 r2")
  define agent where "agent = str ''curl/7.'' @ Itoa (int x) @ str ''.'' @ Itoa (int y)"
  have agent: "13 \<notin> set agent" using Itoa_line[of x] Itoa_line[of y] by (simp add: agent_def str_def)
  define lines where "lines = http_lines uri host agent (b64url_encode key) b"
  define head where "head = concat (map (\<lambda>l. l @ CRLF) lines)"
  let ?w = "http_message lines b"
  have wr: "so_Write lib c r werr b = Ret ((length b, werr), c\<lparr>so_firstRequest := False\<rparr>, ?w, r3)"
    using True key x y lib by (simp add: so_Write_def Let_def lines_def agent_def)
  have hd: "head = str ''GET '' @ uri @ str '' HTTP/1.1'' @ CRLF @ str ''Host: '' @ host @ CRLF @
      (str ''User-Agent: '' @ agent @ CRLF @
       (if b = [] then [] else str ''Content-Length: '' @ Itoa (int (length b)) @ CRLF) @
       str ''Connection: Upgrade'' @ CRLF @ header_line ''Sec-Websocket-Key'' (b64url_encode key) @ CRLF @
       str ''Upgrade: websocket'' @ CRLF)"
    by (simp add: head_def lines_def http_lines_def header_line_def str_def)
  have k: "Index ?w (CRLF @ CRLF) = Some (length head - 2)"
    unfolding head_def lines_def by (rule Index_http_message[OF http_lines_ok[OF assms(2,3) agent]])
  have hl: "2 \<le> length head" by (simp add: hd CRLF_def)
  have w: "?w = head @ CRLF @ b" by (simp add: http_message_def head_def)
  have "drop (length head - 2 + 4) ?w = b" "take (length head - 2 + 2) ?w = head"
    using hl by (simp_all add: w CRLF_def)
  moreover have "\<exists>x y. (str ''User-Agent: '' @ agent @ CRLF @
       (if b = [] then [] else str ''Content-Length: '' @ Itoa (int (length b)) @ CRLF) @
       str ''Connection: Upgrade'' @ CRLF @ header_line ''Sec-Websocket-Key'' (b64url_encode key) @ CRLF @
       str ''Upgrade: websocket'' @ CRLF) = x @ str ''Content-Length: '' @ Itoa (int (length b)) @ CRLF @ y" if "b \<noteq> []"
    using that by (intro exI[of _ "str ''User-Agent: '' @ agent @ CRLF"] exI[of _ "str ''Connection: Upgrade'' @ CRLF @
      header_line ''Sec-Websocket-Key'' (b64url_encode key) @ CRLF @ str ''Upgrade: websocket'' @ CRLF"]) simp
  ultimately show ?thesis using True wr k hd by auto
next
  case False
  then have "c\<lparr>so_firstRequest := False\<rparr> = c" by simp
  with False show ?thesis by (simp add: so_Write_def)
qed

theorem simple_obfs_http_Write_witness:
  "\<exists>w r' k. so_Write (\<lambda>h hdr. Some (str ''/'', hdr)) (NewHTTPObfs [] (str ''a.io'') (str ''80''))
      \<lparr>draws = \<lambda>n. n, rpos = 0\<rparr> None [1, 2] = Ret ((2, None), (NewHTTPObfs [] (str ''a.io'') (str ''80''))\<lparr>so_firstRequest := False\<rparr>, w, r') \<and>
    drop (k + 4) w = [1, 2]"
proof -
  let ?c = "NewHTTPObfs [] (str ''a.io'') (str ''80'')" let ?lib = "\<lambda>h hdr. Some (str ''/'', hdr)"
  have "?lib (so_host ?c) (if so_port ?c \<noteq> str ''80'' then so_host ?c @ str '':'' @ so_port ?c else so_host ?c) =
      Some (str ''/'', str ''a.io'')" "13 \<notin> set (str ''/'')" "13 \<notin> set (str ''a.io'')"
    by (simp_all add: NewHTTPObfs_def str_def)
  from simple_obfs_http_Write[of ?lib ?c, OF this, of "\<lparr>draws = \<lambda>n. n, rpos = 0\<rparr>" None "[1, 2]"]
  show ?thesis by (auto simp: NewHTTPObfs_def)
qed

text \<open>
  The reader is the one of \<open>http_simple\<close> under another representation: from a state whose offset is
  inside its buffer, every read gives the same result, and the states correspond again. (So a response
  head that is split over two reads is the end of the stream here too.)
\<close>

theorem simple_obfs_http_Read:
  assumes "so_wf c"
  shows "http_Read (so_abs h c) m = go_bind (so_Read c m) (\<lambda>(res, c'). Ret (res, so_abs h c')) \<and>
    (\<forall>res c'. so_Read c m = Ret (res, c') \<longrightarrow> so_wf c')"
  using so_Read_refines[OF assms] so_Read_wf[OF assms] by blast+

theorem simple_obfs_http_Read_witness:
  "so_Read (NewHTTPObfs [Inr [13, 10, 13, 10, 7, 8]] [] []) 1 =
     Ret (Inr [7], (NewHTTPObfs [] [] [])\<lparr>so_firstResponse := False, so_buf := Some [13, 10, 13, 10, 7, 8], so_offset := 5\<rparr>) \<and>
   http_Read (so_abs (newHTTPSimple \<lparr>Host = [], Port = 80, ob_Key = [], IVSize = 16, ob_Param = []\<rparr>)
     (NewHTTPObfs [Inr [13, 10, 13, 10, 7, 8]] [] [])) 1 \<noteq> Hang"
proof -
  let ?c = "NewHTTPObfs [Inr [13, 10, 13, 10, 7, 8]] [] []"
  let ?h = "newHTTPSimple \<lparr>Host = [], Port = 80, ob_Key = [], IVSize = 16, ob_Param = []\<rparr>"
  have r: "so_Read ?c 1 = Ret (Inr [7], (NewHTTPObfs [] [] [])\<lparr>so_firstResponse := False,
      so_buf := Some [13, 10, 13, 10, 7, 8], so_offset := 5\<rparr>)"
    by (simp add: so_Read_def NewHTTPObfs_def RelayBufferSize_def Index.simps CRLF_def Let_def)
  have "so_wf ?c" by (simp add: so_wf_def NewHTTPObfs_def)
  from simple_obfs_http_Read[OF this, of ?h 1] r have "http_Read (so_abs ?h ?c) 1 \<noteq> Hang" by simp
  with r show ?thesis by blast
qed

end
