(* ===== verification/Simple_Obfs_TLS.thy ===== *)
theory Simple_Obfs_TLS
  imports Net Obfs_TLS_Ticket
begin

text \<open>
  The simple-obfs disguise \<^verbatim>\<open>tls\<close> (\<^verbatim>\<open>transport/simple-obfs/tls.go\<close>): the first
  chunk of the first write travels in the session ticket of a client hello, everything else in TLS
  application records. A server's answer begins with 105 bytes that are skipped. The reader keeps
  how much of a record is left; it provides the contract of a byte reader over the stream of records.
\<close>

definition chunkSize :: nat where
  "chunkSize = 2 ^ 14"

record TLSObfs =
  to_net :: net
  to_server :: bytes
  to_remain :: nat
  to_firstRequest :: bool
  to_firstResponse :: bool

definition NewTLSObfs :: "net \<Rightarrow> bytes \<Rightarrow> TLSObfs" where
  "NewTLSObfs conn server = \<lparr>to_net = conn, to_server = server, to_remain = 0,
     to_firstRequest = True, to_firstResponse = True\<rparr>"

section \<open>Reading\<close>

text \<open>
  A result is the bytes put in the caller's buffer of \<open>m\<close> bytes and an error, if there is one. An
  error while the length is read is returned as no error, and a record that does not fit is begun
  with one read of the network.
\<close>

definition to_read :: "TLSObfs \<Rightarrow> nat \<Rightarrow> nat \<Rightarrow> (bytes \<times> io_error option \<times> TLSObfs) go" where
  "to_read c m discardN =
     go_bind (ReadFull discardN (to_net c)) (\<lambda>(_, err, net).
       case err of
         Some e \<Rightarrow> Ret ([], Some e, c\<lparr>to_net := net\<rparr>)
       | None \<Rightarrow> go_bind (ReadFull 2 net) (\<lambda>(sizeBuf, err, net).
           case err of
             Some e \<Rightarrow> Ret ([], None, c\<lparr>to_net := net\<rparr>)
           | None \<Rightarrow>
               let len = unat (rd_be16 sizeBuf) in
               if len > m
               then go_bind (net_read m net) (\<lambda>(res, net).
                 case res of
                   Inl e \<Rightarrow> Ret ([], Some e, c\<lparr>to_net := net\<rparr>)
                 | Inr x \<Rightarrow> Ret (x, None, c\<lparr>to_net := net, to_remain := len - length x\<rparr>))
               else go_bind (ReadFull len net) (\<lambda>(x, err, net). Ret (x, err, c\<lparr>to_net := net\<rparr>))))"

definition to_Read :: "TLSObfs \<Rightarrow> nat \<Rightarrow> (bytes \<times> io_error option \<times> TLSObfs) go" where
  "to_Read c m =
     (if to_remain c > 0
      then go_bind (ReadFull (min (to_remain c) m) (to_net c)) (\<lambda>(x, err, net).
        Ret (x, err, c\<lparr>to_net := net, to_remain := to_remain c - length x\<rparr>))
      else if to_firstResponse c then to_read (c\<lparr>to_firstResponse := False\<rparr>) m 105
      else to_read c m 3)"

section \<open>Writing\<close>

definition hello_ciphers :: bytes where
  "hello_ciphers = [
     0xc0, 0x2c, 0xc0, 0x30, 0x00, 0x9f, 0xcc, 0xa9, 0xcc, 0xa8, 0xcc, 0xaa, 0xc0, 0x2b, 0xc0, 0x2f,
     0x00, 0x9e, 0xc0, 0x24, 0xc0, 0x28, 0x00, 0x6b, 0xc0, 0x23, 0xc0, 0x27, 0x00, 0x67, 0xc0, 0x0a,
     0xc0, 0x14, 0x00, 0x39, 0xc0, 0x09, 0xc0, 0x13, 0x00, 0x33, 0x00, 0x9d, 0x00, 0x9c, 0x00, 0x3d,
     0x00, 0x3c, 0x00, 0x35, 0x00, 0x2f, 0x00, 0xff]"

definition hello_tail :: bytes where
  "hello_tail =
     [0x00, 0x0b, 0x00, 0x04, 0x03, 0x01, 0x00, 0x02] @
     [0x00, 0x0a, 0x00, 0x0a, 0x00, 0x08, 0x00, 0x1d, 0x00, 0x17, 0x00, 0x19, 0x00, 0x18] @
     [0x00, 0x0d, 0x00, 0x20, 0x00, 0x1e, 0x06, 0x01, 0x06, 0x02, 0x06, 0x03, 0x05,
      0x01, 0x05, 0x02, 0x05, 0x03, 0x04, 0x01, 0x04, 0x02, 0x04, 0x03, 0x03, 0x01,
      0x03, 0x02, 0x03, 0x03, 0x02, 0x01, 0x02, 0x02, 0x02, 0x03] @
     [0x00, 0x16, 0x00, 0x00] @ [0x00, 0x17, 0x00, 0x00]"

definition makeClientHelloMsg :: "bytes \<Rightarrow> bytes \<Rightarrow> uint32 \<Rightarrow> rng \<Rightarrow> bytes \<times> rng" where
  "makeClientHelloMsg data server now r =
     (case rand_bytes 28 r of (random, r1) \<Rightarrow>
      case rand_bytes 32 r1 of (sessionID, r2) \<Rightarrow>
      let len = of_nat (212 + length data + length server) :: uint16 in
      ([22, 0x03, 0x01] @ [ucast (drop_bit 8 len), ucast (len AND 0xff)] @
       [1, 0] @ be16 (of_nat (208 + length data + length server)) @ [0x03, 0x03] @
       be32 now @ random @ [32] @ sessionID @ [0x00, 0x38] @ hello_ciphers @ [0x01, 0x00] @
       be16 (of_nat (79 + length data + length server)) @
       [0x00, 0x23] @ be16 (of_nat (length data)) @ data @
       [0x00, 0x00] @ be16 (of_nat (length server + 5)) @ be16 (of_nat (length server + 3)) @ [0] @
       be16 (of_nat (length server)) @ server @ hello_tail, r2))"

text \<open>One chunk, given the outcome of the network's \<^verbatim>\<open>Write\<close>; what is sent is the third component.\<close>

definition to_write ::
  "TLSObfs \<Rightarrow> uint32 \<Rightarrow> rng \<Rightarrow> io_error option \<Rightarrow> bytes \<Rightarrow> (nat \<times> io_error option) \<times> TLSObfs \<times> bytes \<times> rng" where
  "to_write c now r werr b =
     (if to_firstRequest c
      then (case makeClientHelloMsg b (to_server c) now r of (hello, r') \<Rightarrow>
              ((length b, werr), c\<lparr>to_firstRequest := False\<rparr>, hello, r'))
      else ((length b, werr), c, [0x17, 0x03, 0x03] @ be16 (of_nat (length b)) @ b, r))"

text \<open>
  \<open>Write\<close>: chunk by chunk until one fails; \<open>errs\<close> has the outcome of each \<^verbatim>\<open>Write\<close> of the
  network, counted from \<open>k\<close>.
\<close>

function to_write_loop ::
  "TLSObfs \<Rightarrow> uint32 \<Rightarrow> rng \<Rightarrow> (nat \<Rightarrow> io_error option) \<Rightarrow> nat \<Rightarrow> bytes \<Rightarrow>
     (nat \<times> io_error) option \<times> TLSObfs \<times> bytes \<times> rng" where
  "to_write_loop c now r errs k b =
     (if b = [] then (None, c, [], r)
      else case to_write c now r (errs k) (take chunkSize b) of ((n, err), c', w, r') \<Rightarrow>
        case err of
          Some e \<Rightarrow> (Some (n, e), c', w, r')
        | None \<Rightarrow> (case to_write_loop c' now r' errs (Suc k) (drop chunkSize b) of
            (res, c'', w', r'') \<Rightarrow> (res, c'', w @ w', r'')))"
  by pat_completeness auto
termination
  by (relation "measure (\<lambda>(c, now, r, errs, k, b). length b)") (auto simp: chunkSize_def)

declare to_write_loop.simps [simp del]

definition to_Write ::
  "TLSObfs \<Rightarrow> uint32 \<Rightarrow> rng \<Rightarrow> (nat \<Rightarrow> io_error option) \<Rightarrow> bytes \<Rightarrow>
     (nat \<times> io_error option) \<times> TLSObfs \<times> bytes \<times> rng" where
  "to_Write c now r errs b =
     (case to_write_loop c now r errs 0 b of (res, c', w, r') \<Rightarrow>
        ((case res of Some (n, e) \<Rightarrow> (n, Some e) | None \<Rightarrow> (length b, None)), c', w, r'))"

section \<open>The reader's contract\<close>

lemma ReadFull_short:
  assumes "chunks_of net s" "length s < n"
  shows "ReadFull n net = Hang"
proof -
  have "read_full_loop n got net = Hang" if "chunks_of net s" "length got + length s < n" for got
    using that
  proof (induction n got net arbitrary: s rule: read_full_loop.induct)
    case (3 n got x rest)
    from 3(2) obtain t where t: "s = x @ t" "chunks_of rest t" by (auto simp: chunks_of_Cons)
    then show ?case using 3(1)[of "n - length got" t] 3(3) by (simp add: Let_def)
  qed (auto simp: chunks_of_Cons)
  from this[of "[]"] assms show ?thesis by (simp add: ReadFull_def)
qed

text \<open>The stream of an answer: records, each behind a head of the right length and its size.\<close>

fun obfs_records :: "nat \<Rightarrow> bytes list \<Rightarrow> bytes list \<Rightarrow> bytes \<Rightarrow> bool" where
  "obfs_records n [] [] s = (s = [])"
| "obfs_records n (h # hs) (d # ds) s = (length h = n \<and> length d < 65536 \<and>
     (\<exists>t. s = h @ be16 (of_nat (length d)) @ d @ t \<and> obfs_records 3 hs ds t))"
| "obfs_records n _ _ s = False"

text \<open>What is still to be delivered: the rest of a record, then the records to come.\<close>

definition to_pending :: "TLSObfs \<Rightarrow> bytes \<Rightarrow> bool" where
  "to_pending c s \<longleftrightarrow> (\<exists>first hs ds stream. chunks_of (to_net c) (first @ stream) \<and>
     length first = to_remain c \<and> s = first @ concat ds \<and> (to_firstResponse c \<longrightarrow> to_remain c = 0) \<and>
     obfs_records (if to_firstResponse c then 105 else 3) hs ds stream)"

definition to_app_Read :: "TLSObfs \<Rightarrow> nat \<Rightarrow> ((io_error + bytes) \<times> TLSObfs) go" where
  "to_app_Read c m = go_bind (to_Read c m) (\<lambda>(x, err, c'). Ret (case err of Some e \<Rightarrow> Inl e | None \<Rightarrow> Inr x, c'))"

lemma to_read_record:
  assumes net: "chunks_of (to_net c) (h @ be16 (of_nat (length d)) @ d @ t)" and h: "length h = n" "length d < 65536"
    and c: "to_remain c = 0"
  shows "\<exists>x y net'. to_read c m n = Ret (x, None, c\<lparr>to_net := net', to_remain := length y\<rparr>) \<and> d = x @ y \<and>
    chunks_of net' (y @ t)"
proof -
  let ?s = "h @ be16 (of_nat (length d)) @ d @ t"
  obtain n1 where n1: "ReadFull n (to_net c) = Ret (take n ?s, None, n1)" "chunks_of n1 (drop n ?s)"
    using ReadFull_chunks[OF net, of n] h by auto
  then have "chunks_of n1 (be16 (of_nat (length d)) @ d @ t)" using h by simp
  from ReadFull_chunks[OF this, of 2] obtain n2 where n2: "ReadFull 2 n1 = Ret (be16 (of_nat (length d)), None, n2)"
    "chunks_of n2 (d @ t)" by auto
  have len: "unat (rd_be16 (be16 (of_nat (length d)))) = length d" using h(2) by (simp add: unat_uint16_of_nat)
  show ?thesis
  proof (cases "length d > m")
    case True
    from net_read_chunks[OF n2(2), of m] True n2(2) obtain x u n3 where x: "net_read m n2 = Ret (Inr x, n3)"
      "d @ t = x @ u" "chunks_of n3 u" "length x \<le> m" by auto
    with True obtain y where y: "d = x @ y" "u = y @ t" by (auto simp: append_eq_append_conv2)
    have "to_read c m n = Ret (x, None, c\<lparr>to_net := n3, to_remain := length y\<rparr>)"
      using n1(1) n2(1) len True x(1) y(1) by (simp add: to_read_def Let_def)
    with y x(3) show ?thesis by blast
  next
    case False
    from ReadFull_chunks[OF n2(2), of "length d"] obtain n3 where n3: "ReadFull (length d) n2 = Ret (d, None, n3)"
      "chunks_of n3 t" by auto
    have "to_read c m n = Ret (d, None, c\<lparr>to_net := n3\<rparr>)"
      using n1(1) n2(1) len False n3(1) by (simp add: to_read_def Let_def)
    moreover have "c\<lparr>to_net := n3\<rparr> = c\<lparr>to_net := n3, to_remain := length ([] :: bytes)\<rparr>" using c by simp
    ultimately show ?thesis using n3(2) by (metis append_Nil append_Nil2)
  qed
qed

interpretation tlsobfs: byte_reader to_app_Read to_pending
proof
  fix c s m assume "to_pending c s"
  then obtain first hs ds stream where p: "chunks_of (to_net c) (first @ stream)" "length first = to_remain c"
    "s = first @ concat ds" "to_firstResponse c \<longrightarrow> to_remain c = 0"
    "obfs_records (if to_firstResponse c then 105 else 3) hs ds stream" by (auto simp: to_pending_def)
  let ?n = "if to_firstResponse c then 105 else 3 :: nat"
  show "(to_app_Read c m = Hang \<and> s = []) \<or>
    (\<exists>x t c'. to_app_Read c m = Ret (Inr x, c') \<and> s = x @ t \<and> to_pending c' t)"
  proof (cases "to_remain c > 0")
    case True
    let ?k = "min (to_remain c) m"
    have k: "?k \<le> length (first @ stream)" "take ?k (first @ stream) = take ?k first"
      "drop ?k (first @ stream) = drop ?k first @ stream" using p(2) by simp_all
    obtain net where
      net: "ReadFull ?k (to_net c) = Ret (take ?k first, None, net)" "chunks_of net (drop ?k first @ stream)"
      using ReadFull_chunks[OF p(1) k(1)] unfolding k(2,3) by blast
    let ?c = "c\<lparr>to_net := net, to_remain := to_remain c - length (take ?k first)\<rparr>"
    have "to_app_Read c m = Ret (Inr (take ?k first), ?c)"
      using True net(1) by (simp add: to_app_Read_def to_Read_def)
    moreover have "s = take ?k first @ drop ?k first @ concat ds" using p(3) by simp
    moreover have "to_pending ?c (drop ?k first @ concat ds)"
      unfolding to_pending_def using net(2) p True
      by (intro exI[of _ "drop ?k first"] exI[of _ hs] exI[of _ ds] exI[of _ stream]) auto
    ultimately show ?thesis by blast
  next
    case False
    then have c0: "to_remain c = 0" "first = []" using p(2) by auto
    let ?c = "if to_firstResponse c then c\<lparr>to_firstResponse := False\<rparr> else c"
    have c: "to_Read c m = to_read ?c m ?n" "to_net ?c = to_net c" "to_remain ?c = 0" "\<not> to_firstResponse ?c"
      using c0 by (simp_all add: to_Read_def)
    show ?thesis
    proof (cases ds)
      case Nil
      with p(5) have "stream = []" by (cases hs) auto
      with p(1) c0 have "ReadFull ?n (to_net c) = Hang" by (intro ReadFull_short[of _ "[]"]) auto
      with c have "to_app_Read c m = Hang" by (simp add: to_app_Read_def to_read_def)
      with p(3) c0 Nil show ?thesis by simp
    next
      case (Cons d ds')
      with p(5) obtain h hs' t where r: "hs = h # hs'" "length h = ?n" "length d < 65536"
        "stream = h @ be16 (of_nat (length d)) @ d @ t" "obfs_records 3 hs' ds' t" by (cases hs) auto
      with p(1) c0 c(2) have "chunks_of (to_net ?c) (h @ be16 (of_nat (length d)) @ d @ t)" by simp
      from to_read_record[OF this r(2,3) c(3), of m] obtain x y net where
        x: "to_read ?c m ?n = Ret (x, None, ?c\<lparr>to_net := net, to_remain := length y\<rparr>)" "d = x @ y"
        "chunks_of net (y @ t)" by blast
      let ?d = "?c\<lparr>to_net := net, to_remain := length y\<rparr>"
      have "to_app_Read c m = Ret (Inr x, ?d)" using c(1) x(1) by (simp add: to_app_Read_def)
      moreover have "s = x @ y @ concat ds'" using p(3) c0 Cons x(2) by simp
      moreover have "to_pending ?d (y @ concat ds')"
        unfolding to_pending_def using x(3) r(5) c(4)
        by (intro exI[of _ y] exI[of _ hs'] exI[of _ ds'] exI[of _ t]) auto
      ultimately show ?thesis by blast
    qed
  qed
qed

section \<open>What is written\<close>

text \<open>
  What a server reads off a hello: the lengths of record, handshake, extensions and names, and the
  data in the session ticket.
\<close>

definition obfs_hello :: "bytes \<Rightarrow> bytes \<Rightarrow> uint32 \<Rightarrow> bytes \<Rightarrow> bool" where
  "obfs_hello data server now h \<longleftrightarrow>
     take 3 h = [22, 3, 1] \<and> unat (rd_be16 (sub 3 2 h)) = length h - 5 \<and>
     sub 5 2 h = [1, 0] \<and> unat (rd_be16 (sub 7 2 h)) = length h - 9 \<and> sub 11 4 h = be32 now \<and>
     unat (rd_be16 (sub 136 2 h)) = length h - 138 \<and>
     sub 138 2 h = [0, 0x23] \<and> unat (rd_be16 (sub 140 2 h)) = length data \<and> sub 142 (length data) h = data \<and>
     (let r = drop (142 + length data) h in
        take 2 r = [0, 0] \<and> unat (rd_be16 (sub 7 2 r)) = length server \<and> sub 9 (length server) r = server)"

lemma be16_bytes: "[ucast (drop_bit 8 (w :: uint16)), ucast (w AND 0xff)] = be16 w"
proof -
  have "bit (255 :: nat) n \<and> bit (255 :: int) n" if "n < 8" for n
  proof -
    from that have "n \<in> {0, 1, 2, 3, 4, 5, 6, 7}" by auto
    then show ?thesis by (auto simp: bit_0)
  qed
  then show ?thesis by (simp add: be16_def) (rule bit_word_eqI, auto simp: bit_simps)
qed

lemma makeClientHelloMsg_ok:
  assumes hello: "makeClientHelloMsg data server now r = (h, r')"
    and short: "length data + length server < 65000"
  shows "obfs_hello data server now h"
proof -
  obtain x r1 where x: "rand_bytes 28 r = (x, r1)" by (cases "rand_bytes 28 r")
  obtain y r2 where y: "rand_bytes 32 r1 = (y, r2)" by (cases "rand_bytes 32 r1")
  define n where "n = length data + length server"
  define a where "a = [22, 0x03, 0x01] @ be16 (of_nat (212 + n)) @ [1, 0] @ be16 (of_nat (208 + n)) @ [0x03, 0x03] @ be32 now"
  define b where "b = x @ [32] @ y @ [0x00, 0x38] @ hello_ciphers @ [0x01, 0x00]"
  define d where "d = be16 (of_nat (79 + n)) @ [0x00, 0x23] @ be16 (of_nat (length data))"
  define e where "e = [0x00, 0x00] @ be16 (of_nat (length server + 5)) @ be16 (of_nat (length server + 3)) @ [0] @
     be16 (of_nat (length server))"
  have h: "h = a @ b @ d @ data @ e @ server @ hello_tail"
    using hello x y by (simp add: makeClientHelloMsg_def Let_def be16_bytes a_def b_def d_def e_def n_def add.assoc)
  have l: "length a = 15" "length b = 121" "length d = 6" "length e = 9" "length hello_tail = 66"
    using length_rand_bytes'[OF x] length_rand_bytes'[OF y]
    by (simp_all add: a_def b_def d_def e_def hello_ciphers_def hello_tail_def)
  have lh: "length h = 217 + n" using l by (simp add: h n_def)
  have pa: "take 3 h = [22, 3, 1]" "sub 3 2 h = be16 (of_nat (212 + n))" "sub 5 2 h = [1, 0]"
    "sub 7 2 h = be16 (of_nat (208 + n))" "sub 11 4 h = be32 now"
    by (simp_all add: h a_def)
  have pd: "sub 136 2 h = be16 (of_nat (79 + n))" "sub 138 2 h = [0, 0x23]" "sub 140 2 h = be16 (of_nat (length data))"
    "sub 142 (length data) h = data"
    using l by (simp_all add: h d_def)
  have "drop (142 + length data) ((a @ b @ d @ data) @ e @ server @ hello_tail) = e @ server @ hello_tail"
    using l by simp
  then have pr: "drop (142 + length data) h = e @ server @ hello_tail" by (simp add: h)
  have pe: "take 2 (e @ server @ hello_tail) = [0, 0]" "sub 7 2 (e @ server @ hello_tail) = be16 (of_nat (length server))"
    "sub 9 (length server) (e @ server @ hello_tail) = server"
    using l by (simp_all add: e_def)
  have u: "unat (of_nat (212 + n) :: uint16) = 212 + n" "unat (of_nat (208 + n) :: uint16) = 208 + n"
    "unat (of_nat (79 + n) :: uint16) = 79 + n" "unat (of_nat (length data) :: uint16) = length data"
    "unat (of_nat (length server) :: uint16) = length server"
    using short by (simp_all only: n_def unat_uint16_of_nat)
  show ?thesis unfolding obfs_hello_def pa pd pr pe lh rd_be16_be16 u Let_def by simp
qed

lemma length_makeClientHelloMsg:
  "makeClientHelloMsg data server now r = (h, r') \<Longrightarrow> h \<noteq> []"
  by (auto simp: makeClientHelloMsg_def Let_def split: prod.splits)

lemma to_write_loop_records:
  "\<not> to_firstRequest c \<Longrightarrow> to_write_loop c now r (\<lambda>_. None) k b = (res, c', w, r') \<Longrightarrow>
   res = None \<and> c' = c \<and> r' = r \<and> tt_carries w b"
proof (induction c now r "\<lambda>_ :: nat. None :: io_error option" k b arbitrary: res c' w r' rule: to_write_loop.induct)
  case (1 c now r k b)
  show ?case
  proof (cases "b = []")
    case True
    with 1(3) show ?thesis by (simp add: to_write_loop.simps tt_carries_nil)
  next
    case False
    let ?x = "take chunkSize b"
    have x: "length ?x < 65536" "?x \<noteq> []" using False by (simp_all add: chunkSize_def)
    have one: "to_write c now r None ?x = ((length ?x, None), c, tt_packData [] ?x, r)"
      using 1(2) by (simp add: to_write_def tt_packData_def)
    obtain res2 c2 w2 r2 where rest: "to_write_loop c now r (\<lambda>_. None) (Suc k) (drop chunkSize b) = (res2, c2, w2, r2)"
      by (rule prod_cases4)
    from 1(1)[OF False one[symmetric] refl refl refl refl 1(2) rest]
    have r2: "res2 = None" "c2 = c" "r2 = r" "tt_carries w2 (drop chunkSize b)" by auto
    have "tt_carries (tt_packData [] ?x) ?x" using tt_records_packData[OF x] by (simp add: tt_carries_def)
    from tt_carries_append[OF this r2(4)] have "tt_carries (tt_packData [] ?x @ w2) b" by simp
    moreover have "(res, c', w, r') = (None, c, tt_packData [] ?x @ w2, r)"
      using 1(3) False one rest r2(1-3) by (simp add: to_write_loop.simps[of c now r _ k b])
    ultimately show ?thesis by simp
  qed
qed

section \<open>Properties\<close>

text \<open>
  C32: The first \<open>Write\<close> of some data on a simple-obfs connection sends a hello whose lengths are right
  and whose session ticket holds the first chunk of 16384 bytes, and behind it records that decode to
  the rest of the data; every later \<open>Write\<close> sends records of its data only.
\<close>

theorem simple_obfs_tls_Write:
  assumes w: "to_Write c now r (\<lambda>_. None) b = (res, c', w, r')" and b: "b \<noteq> []"
    and server: "length (to_server c) < 48000"
  shows "res = (length b, None) \<and> \<not> to_firstRequest c' \<and>
    (if to_firstRequest c
     then \<exists>h f. w = h @ f \<and> obfs_hello (take chunkSize b) (to_server c) now h \<and>
       tt_records [] f = (None, drop chunkSize b, [])
     else tt_records [] w = (None, b, []))"
proof (cases "to_firstRequest c")
  case True
  let ?x = "take chunkSize b"
  obtain h r1 where h: "makeClientHelloMsg ?x (to_server c) now r = (h, r1)" by fastforce
  have ok: "obfs_hello ?x (to_server c) now h"
    using server by (intro makeClientHelloMsg_ok[OF h]) (simp add: chunkSize_def)
  let ?c = "c\<lparr>to_firstRequest := False\<rparr>"
  obtain res2 c2 f r2 where f: "to_write_loop ?c now r1 (\<lambda>_. None) 1 (drop chunkSize b) = (res2, c2, f, r2)"
    by (rule prod_cases4)
  have rec: "res2 = None" "c2 = ?c" "tt_carries f (drop chunkSize b)"
    using to_write_loop_records[OF _ f] by simp_all
  have "(res, c', w, r') = ((length b, None), ?c, h @ f, r2)"
    using w True b h f rec(1,2) by (simp add: to_Write_def to_write_def to_write_loop.simps[of c])
  with True ok tt_carries_records[OF rec(3), of "[]"] show ?thesis by auto
next
  case False
  obtain res2 c2 f r2 where f: "to_write_loop c now r (\<lambda>_. None) 0 b = (res2, c2, f, r2)" by (rule prod_cases4)
  from to_write_loop_records[OF False f] have rec: "res2 = None" "c2 = c" "tt_carries f b" by simp_all
  then have "(res, c', w, r') = ((length b, None), c, f, r2)" using w f by (simp add: to_Write_def)
  with False tt_carries_records[OF rec(3), of "[]"] show ?thesis by simp
qed

theorem simple_obfs_tls_Write_witness:
  "\<exists>c' w r'. to_Write (NewTLSObfs [] [104]) 0 \<lparr>draws = \<lambda>n. n, rpos = 0\<rparr> (\<lambda>_. None) [1, 2, 3] = ((3, None), c', w, r') \<and>
     \<not> to_firstRequest c'"
proof -
  let ?c = "NewTLSObfs [] [104]" let ?r = "\<lparr>draws = \<lambda>n. n, rpos = 0\<rparr>"
  obtain res c' w r' where w: "to_Write ?c 0 ?r (\<lambda>_. None) [1, 2, 3] = (res, c', w, r')" by (rule prod_cases4)
  have "length (to_server ?c) < 48000" by (simp add: NewTLSObfs_def)
  from simple_obfs_tls_Write[OF w _ this] have "res = (3, None)" "\<not> to_firstRequest c'" by simp_all
  with w show ?thesis by blast
qed

text \<open>
  C33: An answer of a head of 105 bytes and records behind it is read as the data of the records, in
  order, however the network cuts it and whatever sizes are read; a read blocks only when all of it
  has been delivered.
\<close>

theorem simple_obfs_tls_Read:
  assumes "obfs_records 105 hs ds stream" "chunks_of net stream"
  shows "(\<exists>x t c'. reads to_app_Read (NewTLSObfs net server) ms = Ret (x, None, c') \<and> concat ds = x @ t) \<or>
    (reads to_app_Read (NewTLSObfs net server) ms = Hang \<and>
      (\<exists>ms1 ms2 c'. ms = ms1 @ ms2 \<and> reads to_app_Read (NewTLSObfs net server) ms1 = Ret (concat ds, None, c')))"
proof -
  have "to_pending (NewTLSObfs net server) (concat ds)"
    unfolding to_pending_def using assms
    by (intro exI[of _ "[]"] exI[of _ hs] exI[of _ ds] exI[of _ stream]) (simp add: NewTLSObfs_def)
  from tlsobfs.reads_deliver[OF this, of ms] show ?thesis by blast
qed

theorem simple_obfs_tls_Read_witness:
  "\<exists>c'. reads to_app_Read (NewTLSObfs [Inr (replicate 105 0), Inr [0, 2, 7], Inr [8, 0x17, 3, 3, 0, 1, 9]] []) [1, 4, 4] =
     Ret ([7, 8, 9], None, c')"
proof -
  let ?hs = "[replicate 105 (0 :: byte), [0x17, 3, 3]]" and ?ds = "[[7, 8], [9 :: byte]]"
  let ?s = "replicate 105 0 @ [0, 2, 7, 8, 0x17, 3, 3, 0, 1, 9 :: byte]"
  let ?net = "[Inr (replicate 105 0), Inr [0, 2, 7], Inr [8, 0x17, 3, 3, 0, 1, 9]] :: net"
  have r: "obfs_records 105 ?hs ?ds ?s" by (simp add: be16_def)
  have n: "chunks_of ?net ?s" by (simp add: chunks_of_Cons)
  from simple_obfs_tls_Read[OF r n, of "[]" "[1, 4, 4]"] show ?thesis
    by (simp add: to_app_Read_def to_Read_def to_read_def NewTLSObfs_def ReadFull_def Let_def rd_be16_def
        )
qed

text \<open>
  When the network fails between the head of a record and its length, \<open>Read\<close> reports no bytes and
  no error, whatever the failure is; the reader learns nothing of the end of the stream from it.
\<close>

theorem simple_obfs_size_error:
  assumes "length x = 105"
  shows "to_Read (NewTLSObfs (Inr x # Inl e # rest) server) m =
    Ret ([], None, (NewTLSObfs rest server)\<lparr>to_firstResponse := False\<rparr>)"
  using assms by (simp add: to_Read_def to_read_def NewTLSObfs_def ReadFull_def Let_def)

theorem simple_obfs_size_error_witness:
  "\<exists>c. to_Read (NewTLSObfs [Inr (replicate 105 0), Inl EOF] []) 16 = Ret ([], None, c)"
proof -
  have "length (replicate 105 (0 :: byte)) = 105" by simp
  from simple_obfs_size_error[OF this, of EOF "[]" "[]" 16] show ?thesis by blast
qed

end
