(* ===== verification/Simple_Obfs_Plugin.thy ===== *)
theory Simple_Obfs_Plugin
  imports Simple_Obfs_HTTP Simple_Obfs_TLS
begin

text \<open>
  The plug-in \<^verbatim>\<open>obfs-local\<close> (\<^verbatim>\<open>clash/obfs.go\<close>): the choice of the disguise from the
  options, whose parser is the outbound library's and an argument, and the dispatch over the two
  disguises.
\<close>

record obfsLocalPlugin =
  lp_tls :: bool
  lp_host :: bytes
  lp_port :: bytes

datatype obfs_local_error = OptionsError | UnknownMode bytes

definition InitStreamPlugin ::
  "(bytes \<Rightarrow> (bytes \<Rightarrow> bytes option) option) \<Rightarrow> obfsLocalPlugin \<Rightarrow> bytes \<Rightarrow> bytes \<Rightarrow>
     obfs_local_error option \<times> obfsLocalPlugin" where
  "InitStreamPlugin parse p remotePort pluginOpts =
     (case parse pluginOpts of
        None \<Rightarrow> (Some OptionsError, p)
      | Some options \<Rightarrow>
          let mode = (case options (str ''obfs'') of Some s \<Rightarrow> s | None \<Rightarrow> str ''http'');
              p1 = p\<lparr>lp_host := (case options (str ''obfs-host'') of Some s \<Rightarrow> s | None \<Rightarrow> str ''cloudfront.net'')\<rparr>
          in if mode = str ''http'' then (None, p1\<lparr>lp_port := remotePort\<rparr>)
             else if mode = str ''tls'' then (None, p1\<lparr>lp_tls := True, lp_port := remotePort\<rparr>)
             else (Some (UnknownMode mode), p1))"

text \<open>The other way to initialise it panics; closing it does nothing.\<close>

definition local_Init :: "obfsLocalPlugin \<Rightarrow> (bytes option \<times> obfsLocalPlugin) go" where
  "local_Init p = Panic"

definition local_Close :: "obfsLocalPlugin \<Rightarrow> bytes option \<times> obfsLocalPlugin" where
  "local_Close p = (None, p)"

datatype local_conn = LocalHTTP HTTPObfs | LocalTLS TLSObfs

definition local_StreamConn :: "obfsLocalPlugin \<Rightarrow> net \<Rightarrow> local_conn" where
  "local_StreamConn p conn =
     (if \<not> lp_tls p then LocalHTTP (NewHTTPObfs conn (lp_host p) (lp_port p))
      else LocalTLS (NewTLSObfs conn (lp_host p)))"

primrec local_Read :: "local_conn \<Rightarrow> nat \<Rightarrow> ((io_error + bytes) \<times> local_conn) go" where
  "local_Read (LocalHTTP c) m = go_bind (so_Read c m) (\<lambda>(res, c'). Ret (res, LocalHTTP c'))"
| "local_Read (LocalTLS c) m = go_bind (to_app_Read c m) (\<lambda>(res, c'). Ret (res, LocalTLS c'))"

primrec local_pending :: "local_conn \<Rightarrow> bytes \<Rightarrow> bool" where
  "local_pending (LocalHTTP c) s = so_pending c s"
| "local_pending (LocalTLS c) s = to_pending c s"

interpretation local_obfs: byte_reader local_Read local_pending
proof
  fix c s m assume p: "local_pending c s"
  show "(local_Read c m = Hang \<and> s = []) \<or>
    (\<exists>x t c'. local_Read c m = Ret (Inr x, c') \<and> s = x @ t \<and> local_pending c' t)"
  proof (cases c)
    case (LocalHTTP h)
    with p httpobfs.read_step[of h s m] show ?thesis by force
  next
    case (LocalTLS h)
    with p tlsobfs.read_step[of h s m] show ?thesis by force
  qed
qed

text \<open>What a server answers under each disguise: a head to be skipped, and the data.\<close>

definition answer_of :: "bool \<Rightarrow> bytes \<Rightarrow> net \<Rightarrow> bool" where
  "answer_of tls s net \<longleftrightarrow>
     (if tls then \<exists>hs ds stream. s = concat ds \<and> obfs_records 105 hs ds stream \<and> chunks_of net stream
      else \<exists>x rest pos t. net = Inr x # rest \<and> Index x (CRLF @ CRLF) = Some pos \<and> length x \<le> RelayBufferSize \<and>
        chunks_of rest t \<and> s = drop (pos + 4) x @ t)"

text \<open>
  The plug-in takes the mode from the options, \<^verbatim>\<open>http\<close> when there is none, and refuses any
  other; the connection it then makes over a network that carries an answer in that disguise delivers
  the answer's data in order, whatever sizes are read.
\<close>

theorem obfs_local_answer:
  assumes init: "InitStreamPlugin (\<lambda>_. Some options) \<lparr>lp_tls = False, lp_host = [], lp_port = []\<rparr> port opts = (err, p)"
  shows "(err = None \<longleftrightarrow> options (str ''obfs'') \<in> {None, Some (str ''http''), Some (str ''tls'')}) \<and>
    (err = None \<longrightarrow> (\<forall>net s ms. answer_of (options (str ''obfs'') = Some (str ''tls'')) s net \<longrightarrow>
      (let c = local_StreamConn p net in
       (\<exists>x t c'. reads local_Read c ms = Ret (x, None, c') \<and> s = x @ t) \<or>
       (reads local_Read c ms = Hang \<and> (\<exists>ms1 ms2 c'. ms = ms1 @ ms2 \<and> reads local_Read c ms1 = Ret (s, None, c'))))))"
proof -
  have ne: "str ''http'' \<noteq> str ''tls''" by (simp add: str_def)
  let ?m = "options (str ''obfs'')"
  have modes: "err = None \<longleftrightarrow> ?m \<in> {None, Some (str ''http''), Some (str ''tls'')}"
    and tls: "err = None \<longrightarrow> lp_tls p = (?m = Some (str ''tls''))"
    using init ne by (auto simp: InitStreamPlugin_def Let_def split: option.splits if_splits)
  have "local_pending (local_StreamConn p net) s" if e: "err = None" and a: "answer_of (?m = Some (str ''tls'')) s net" for net s
  proof (cases "lp_tls p")
    case True
    with a tls e obtain hs ds stream where "s = concat ds" "obfs_records 105 hs ds stream" "chunks_of net stream"
      by (auto simp: answer_of_def)
    then have "to_pending (NewTLSObfs net (lp_host p)) s"
      unfolding to_pending_def
      by (intro exI[of _ "[]"] exI[of _ hs] exI[of _ ds] exI[of _ stream]) (simp add: NewTLSObfs_def)
    with True show ?thesis by (simp add: local_StreamConn_def)
  next
    case False
    with a tls e obtain x rest pos t where "net = Inr x # rest" "Index x (CRLF @ CRLF) = Some pos"
      "length x \<le> RelayBufferSize" "chunks_of rest t" "s = drop (pos + 4) x @ t"
      by (auto simp: answer_of_def)
    with False show ?thesis
      by (auto simp: local_StreamConn_def so_pending_def so_wf_def so_abs_def NewHTTPObfs_def http_pending_def)
  qed
  from local_obfs.reads_deliver[OF this] modes show ?thesis unfolding Let_def by blast
qed

theorem obfs_local_answer_witness:
  "\<exists>p c'. InitStreamPlugin (\<lambda>_. Some (\<lambda>_. None)) \<lparr>lp_tls = False, lp_host = [], lp_port = []\<rparr> [] [] = (None, p) \<and>
     reads local_Read (local_StreamConn p [Inr [13, 10, 13, 10, 7], Inr [8]]) [4, 4] = Ret ([7, 8], None, c')"
proof -
  let ?p = "\<lparr>lp_tls = False, lp_host = str ''cloudfront.net'', lp_port = []\<rparr>"
  let ?net = "[Inr [13, 10, 13, 10, 7], Inr [8 :: byte]] :: net"
  have init: "InitStreamPlugin (\<lambda>_. Some (\<lambda>_. None)) \<lparr>lp_tls = False, lp_host = [], lp_port = []\<rparr> [] [] = (None, ?p)"
    by (simp add: InitStreamPlugin_def)
  have "answer_of ((\<lambda>_. None :: bytes option) (str ''obfs'') = Some (str ''tls'')) [7, 8] ?net"
    by (simp add: answer_of_def Index.simps CRLF_def RelayBufferSize_def chunks_of_Cons)
  with obfs_local_answer[OF init]
  have "(\<exists>x t c'. reads local_Read (local_StreamConn ?p ?net) [4, 4] = Ret (x, None, c') \<and> [7, 8] = x @ t) \<or>
     reads local_Read (local_StreamConn ?p ?net) [4, 4] = Hang" unfolding Let_def by blast
  moreover have "\<exists>c'. reads local_Read (local_StreamConn ?p ?net) [4, 4] = Ret ([7, 8], None, c')"
    by (simp add: local_StreamConn_def so_Read_def NewHTTPObfs_def RelayBufferSize_def Index.simps CRLF_def Let_def)
  ultimately show ?thesis using init by blast
qed

end
