(* ===== verification/TCP_NAT.thy ===== *)
theory TCP_NAT
  imports Prelude Machine
begin

text \<open>
  The table of TCP sessions of the system tun (\<^verbatim>\<open>nat/tcpnat.go\<close>): a pair of addresses is
  given a port, the port leads back to the pair, and sessions that are idle too long are dropped.
  Times are nanoseconds. The table's two maps have a lock each, so the operations of the goroutines
  interleave between the critical sections; \<open>nat_step\<close> has one step for each of them.
\<close>

section \<open>Addresses\<close>

text \<open>\<^verbatim>\<open>netip.Addr\<close> without zones; the two families are never equal.\<close>

datatype Addr = Addr4 "32 word" | Addr16 "128 word"

type_synonym AddrPort = "Addr \<times> uint16"

text \<open>\<^verbatim>\<open>Addr.Next\<close>: not valid behind the last address.\<close>

fun Addr_Next :: "Addr \<Rightarrow> Addr option" where
  "Addr_Next (Addr4 a) = (if a = - 1 then None else Some (Addr4 (a + 1)))"
| "Addr_Next (Addr16 a) = (if a = - 1 then None else Some (Addr16 (a + 1)))"

lemma Addr_Next_neq: "Addr_Next a = Some b \<Longrightarrow> b \<noteq> a"
  by (cases a) (auto split: if_splits)

section \<open>The table\<close>

datatype natKey = NatKey (key_source: AddrPort) (key_destination: AddrPort)

record session =
  source :: AddrPort
  destination :: AddrPort
  lastActive :: int

abbreviation session_key :: "session \<Rightarrow> natKey" where
  "session_key s \<equiv> NatKey (source s) (destination s)"

record tcpNAT =
  nat_timeout :: int
  portIndex :: uint16
  addrMap :: "natKey \<rightharpoonup> uint16"
  portMap :: "uint16 \<rightharpoonup> session"

definition newTCPNAT :: "int \<Rightarrow> tcpNAT" where
  "newTCPNAT t = \<lparr>nat_timeout = t, portIndex = 10000, addrMap = Map.empty, portMap = Map.empty\<rparr>"

text \<open>
  \<open>checkTimeout\<close> visits the ports in the order in which Go ranges over the map, which is not
  specified: it is an argument.
\<close>

definition expired :: "tcpNAT \<Rightarrow> int \<Rightarrow> session \<Rightarrow> bool" where
  "expired n now s \<longleftrightarrow> now - lastActive s > nat_timeout n"

definition expire_port :: "int \<Rightarrow> tcpNAT \<Rightarrow> uint16 \<Rightarrow> tcpNAT" where
  "expire_port now n p =
     (case portMap n p of
        Some s \<Rightarrow> if expired n now s
          then n\<lparr>addrMap := (addrMap n)(session_key s := None), portMap := (portMap n)(p := None)\<rparr> else n
      | None \<Rightarrow> n)"

definition checkTimeout :: "int \<Rightarrow> uint16 list \<Rightarrow> tcpNAT \<Rightarrow> tcpNAT" where
  "checkTimeout now order n = foldl (expire_port now) n order"

definition LookupInverse :: "int \<Rightarrow> uint16 \<Rightarrow> tcpNAT \<Rightarrow> session option \<times> tcpNAT" where
  "LookupInverse now port n =
     (case portMap n port of
        None \<Rightarrow> (None, n)
      | Some s \<Rightarrow>
          let s' = (if now - lastActive s > 1000000000 then s\<lparr>lastActive := now\<rparr> else s)
          in (Some s', n\<lparr>portMap := (portMap n)(port \<mapsto> s')\<rparr>))"

text \<open>The two critical sections of \<open>Lookup\<close> that write, and the whole.\<close>

definition next_port :: "tcpNAT \<Rightarrow> uint16" where
  "next_port n = (if portIndex n = 0 then 10000 else portIndex n)"

definition Lookup_alloc :: "natKey \<Rightarrow> tcpNAT \<Rightarrow> uint16 \<times> tcpNAT" where
  "Lookup_alloc key n =
     (let nextPort = portIndex n;
          (nextPort, index) = (if nextPort = 0 then (10000, 10001) else (nextPort, nextPort + 1))
      in (nextPort, n\<lparr>portIndex := index, addrMap := (addrMap n)(key \<mapsto> nextPort)\<rparr>))"

definition Lookup_publish :: "int \<Rightarrow> natKey \<Rightarrow> uint16 \<Rightarrow> tcpNAT \<Rightarrow> tcpNAT" where
  "Lookup_publish now key port n =
     n\<lparr>portMap := (portMap n)(port \<mapsto> \<lparr>source = key_source key, destination = key_destination key, lastActive = now\<rparr>)\<rparr>"

definition Lookup :: "int \<Rightarrow> natKey \<Rightarrow> tcpNAT \<Rightarrow> uint16 \<times> tcpNAT" where
  "Lookup now key n =
     (case addrMap n key of
        Some port \<Rightarrow> (port, n)
      | None \<Rightarrow> (case Lookup_alloc key n of (port, n1) \<Rightarrow> (port, Lookup_publish now key port n1)))"

lemma Lookup_alloc_eq:
  "Lookup_alloc key n = (next_port n, n\<lparr>portIndex := next_port n + 1, addrMap := (addrMap n)(key \<mapsto> next_port n)\<rparr>)"
  by (simp add: Lookup_alloc_def next_port_def Let_def)

lemma Lookup_loaded [simp]: "addrMap n key = Some port \<Longrightarrow> Lookup now key n = (port, n)"
  by (simp add: Lookup_def)

lemma Lookup_new:
  "addrMap n key = None \<Longrightarrow> Lookup now key n =
     (next_port n, n\<lparr>portIndex := next_port n + 1, addrMap := (addrMap n)(key \<mapsto> next_port n),
        portMap := (portMap n)(next_port n \<mapsto> \<lparr>source = key_source key, destination = key_destination key, lastActive = now\<rparr>)\<rparr>)"
  by (simp add: Lookup_def Lookup_alloc_eq Lookup_publish_def)

section \<open>The invariant\<close>

text \<open>The two maps are inverse to each other, and ports below 10000 are not used.\<close>

definition inverse_maps :: "('k \<rightharpoonup> 'p) \<Rightarrow> ('p \<rightharpoonup> 'k) \<Rightarrow> bool" where
  "inverse_maps A K \<longleftrightarrow> (\<forall>k p. A k = Some p \<longleftrightarrow> K p = Some k)"

lemma inverse_maps_empty [simp]: "inverse_maps Map.empty Map.empty"
  by (simp add: inverse_maps_def)

lemma inverse_maps_delete:
  "inverse_maps A K \<Longrightarrow> K p = Some k \<Longrightarrow> inverse_maps (A(k := None)) (K(p := None))"
  unfolding inverse_maps_def by (metis fun_upd_apply option.distinct(1) option.inject)

lemma inverse_maps_insert:
  assumes "inverse_maps A K" "A k = None" "K p = None"
  shows "inverse_maps (A(k \<mapsto> p)) (K(p \<mapsto> k))"
proof -
  have inv: "(A x = Some y) = (K y = Some x)" for x y using assms(1) by (simp add: inverse_maps_def)
  have "((A(k \<mapsto> p)) x = Some y) = ((K(p \<mapsto> k)) y = Some x)" for x y
    using inv[of x y] inv[of k y] inv[of x p] assms(2,3) by auto
  then show ?thesis by (simp add: inverse_maps_def)
qed

text \<open>What a port leads back to.\<close>

definition nat_keys :: "tcpNAT \<Rightarrow> uint16 \<rightharpoonup> natKey" where
  "nat_keys n p = map_option session_key (portMap n p)"

definition nat_ok :: "tcpNAT \<Rightarrow> bool" where
  "nat_ok n \<longleftrightarrow> inverse_maps (addrMap n) (nat_keys n) \<and> (\<forall>p. nat_keys n p \<noteq> None \<longrightarrow> 10000 \<le> p)"

lemma nat_ok_new [simp]: "nat_ok (newTCPNAT t)"
  by (simp add: nat_ok_def newTCPNAT_def inverse_maps_def nat_keys_def)

lemma nat_keys_upd: "portMap n' = (portMap n)(p := x) \<Longrightarrow> nat_keys n' = (nat_keys n)(p := map_option session_key x)"
  by (rule ext) (simp add: nat_keys_def)

lemma nat_ok_expire_port:
  assumes ok: "nat_ok n"
  shows "nat_ok (expire_port now n p)"
proof (cases "portMap n p")
  case (Some s)
  show ?thesis
  proof (cases "expired n now s")
    case True
    let ?n = "expire_port now n p"
    have n': "addrMap ?n = (addrMap n)(session_key s := None)" "portMap ?n = (portMap n)(p := None)"
      using Some True by (simp_all add: expire_port_def)
    have k: "nat_keys n p = Some (session_key s)" using Some by (simp add: nat_keys_def)
    from ok have inv: "inverse_maps (addrMap n) (nat_keys n)" and low: "\<And>q. nat_keys n q \<noteq> None \<Longrightarrow> 10000 \<le> q"
      unfolding nat_ok_def by blast+
    have K: "nat_keys ?n = (nat_keys n)(p := None)" using nat_keys_upd[OF n'(2)] by (simp only: option.map(1))
    have "inverse_maps (addrMap ?n) (nat_keys ?n)"
      unfolding K n'(1) by (rule inverse_maps_delete[OF inv k])
    moreover have "10000 \<le> q" if "nat_keys ?n q \<noteq> None" for q
      using that low[of q] unfolding K fun_upd_apply by (cases "q = p") simp_all
    ultimately show ?thesis unfolding nat_ok_def by blast
  qed (use ok Some in \<open>simp add: expire_port_def\<close>)
qed (use ok in \<open>simp add: expire_port_def\<close>)

lemma nat_ok_checkTimeout: "nat_ok n \<Longrightarrow> nat_ok (checkTimeout now order n)"
  unfolding checkTimeout_def by (induction order arbitrary: n) (simp_all add: nat_ok_expire_port)

lemma LookupInverse_keys:
  assumes "LookupInverse now port n = (res, n')"
  shows "addrMap n' = addrMap n \<and> portIndex n' = portIndex n \<and> nat_timeout n' = nat_timeout n \<and>
    nat_keys n' = nat_keys n \<and> map_option session_key res = nat_keys n port"
proof (cases "portMap n port")
  case None
  with assms show ?thesis by (auto simp: LookupInverse_def nat_keys_def)
next
  case (Some s)
  define s' where "s' = (if now - lastActive s > 1000000000 then s\<lparr>lastActive := now\<rparr> else s)"
  have k: "session_key s' = session_key s" by (simp add: s'_def)
  from assms Some have n': "res = Some s'" "n' = n\<lparr>portMap := (portMap n)(port \<mapsto> s')\<rparr>"
    by (auto simp: LookupInverse_def Let_def s'_def)
  then have "nat_keys n' = (nat_keys n)(port := Some (session_key s'))" using nat_keys_upd by fastforce
  moreover have "nat_keys n port = Some (session_key s)" using Some by (simp add: nat_keys_def)
  ultimately show ?thesis using n' k by (simp add: fun_upd_idem)
qed

lemma nat_ok_LookupInverse:
  assumes "nat_ok n" "LookupInverse now port n = (res, n')"
  shows "nat_ok n'"
  using assms(1) LookupInverse_keys[OF assms(2)] by (simp add: nat_ok_def)

text \<open>A new key needs its port to be free; the port is free until the index has wrapped around.\<close>

definition has_room :: "tcpNAT \<Rightarrow> natKey \<Rightarrow> bool" where
  "has_room n k \<longleftrightarrow> addrMap n k \<noteq> None \<or> (portMap n (next_port n) = None \<and> 10000 \<le> next_port n)"

lemma nat_ok_Lookup:
  assumes ok: "nat_ok n" and room: "has_room n k" and lk: "Lookup now k n = (p, n')"
  shows "nat_ok n' \<and> addrMap n' k = Some p \<and> nat_keys n' p = Some k"
proof (cases "addrMap n k")
  case (Some q)
  then have "nat_keys n q = Some k" using ok unfolding nat_ok_def inverse_maps_def by blast
  with lk ok Some show ?thesis by auto
next
  case None
  from lk None have n': "p = next_port n" "n' = n\<lparr>portIndex := next_port n + 1, addrMap := (addrMap n)(k \<mapsto> next_port n),
      portMap := (portMap n)(next_port n \<mapsto> \<lparr>source = key_source k, destination = key_destination k, lastActive = now\<rparr>)\<rparr>"
    by (auto simp: Lookup_new)
  then have a: "addrMap n' = (addrMap n)(k \<mapsto> p)" and "nat_keys n' = (nat_keys n)(p := Some k)"
    using nat_keys_upd[of n' n p] by simp_all
  moreover from room None have "nat_keys n p = None" "10000 \<le> p" by (simp_all add: has_room_def nat_keys_def n')
  ultimately show ?thesis using ok None inverse_maps_insert[of "addrMap n" "nat_keys n" k p]
    by (simp add: nat_ok_def)
qed

text \<open>Keys looked up before keep their ports.\<close>

lemma Lookup_keeps:
  "Lookup now k n = (p, n') \<Longrightarrow> addrMap n k' = Some p' \<Longrightarrow> addrMap n' k' = Some p'"
  by (cases "addrMap n k") (auto simp: Lookup_new)

section \<open>The interface the forwarder uses\<close>

text \<open>
  A table of translations: looking a key up gives a port that leads back to it, as long as the table
  has room, and no operation spoils the table.
\<close>

locale nat_table =
  fixes lookup :: "int \<Rightarrow> natKey \<Rightarrow> 't \<Rightarrow> uint16 \<times> 't"
    and inverse :: "int \<Rightarrow> uint16 \<Rightarrow> 't \<Rightarrow> session option \<times> 't"
    and ok :: "'t \<Rightarrow> bool" and room :: "'t \<Rightarrow> natKey \<Rightarrow> bool" and maps :: "'t \<Rightarrow> natKey \<Rightarrow> uint16 \<Rightarrow> bool"
  assumes lookup_maps: "ok t \<Longrightarrow> room t k \<Longrightarrow> lookup now k t = (p, t') \<Longrightarrow> ok t' \<and> maps t' k p"
    and lookup_keeps: "ok t \<Longrightarrow> room t k \<Longrightarrow> lookup now k t = (p, t') \<Longrightarrow> maps t k' p' \<Longrightarrow> maps t' k' p'"
    and inverse_maps: "ok t \<Longrightarrow> inverse now p t = (res, t') \<Longrightarrow>
      ok t' \<and> (\<forall>k q. maps t' k q \<longleftrightarrow> maps t k q) \<and> (\<forall>k. maps t k p \<longleftrightarrow> map_option session_key res = Some k)"
begin

text \<open>Two keys never have one port, and a key looked up is found again after any other lookup.\<close>

lemma maps_inj: "ok t \<Longrightarrow> maps t k p \<Longrightarrow> maps t k' p \<Longrightarrow> k = k'"
  using inverse_maps[of t 0 p] by (cases "inverse 0 p t") fastforce

lemma lookup_then_inverse:
  assumes "ok t" "room t k" "lookup now k t = (p, t1)" "inverse now' p t1 = (res, t2)"
  shows "map_option session_key res = Some k \<and> ok t2 \<and> maps t2 k p"
  using lookup_maps[OF assms(1-3)] inverse_maps[OF _ assms(4)] by blast

end

interpretation tcp_nat: nat_table Lookup LookupInverse nat_ok has_room "\<lambda>n k p. nat_keys n p = Some k"
proof
  fix t k now p t' assume a: "nat_ok t" "has_room t k" "Lookup now k t = (p, t')"
  from nat_ok_Lookup[OF a] show "nat_ok t' \<and> nat_keys t' p = Some k" by blast
next
  fix t k now p t' k' p' assume a: "nat_ok t" "has_room t k" "Lookup now k t = (p, t')" "nat_keys t p' = Some k'"
  have "addrMap t k' = Some p'" using a(1,4) unfolding nat_ok_def inverse_maps_def by blast
  from Lookup_keeps[OF a(3) this] nat_ok_Lookup[OF a(1-3)] show "nat_keys t' p' = Some k'"
    unfolding nat_ok_def inverse_maps_def by blast
next
  fix t now p res t' assume a: "nat_ok t" "LookupInverse now p t = (res, t')"
  from nat_ok_LookupInverse[OF a] LookupInverse_keys[OF a(2)]
  show "nat_ok t' \<and> (\<forall>k q. (nat_keys t' q = Some k) = (nat_keys t q = Some k)) \<and>
      (\<forall>k. (nat_keys t p = Some k) = (map_option session_key res = Some k))" by simp
qed

section \<open>Goroutines\<close>

text \<open>
  One goroutine looks keys up, others follow ports back, mark sessions as active and run the timeout.
  The step of \<open>Lookup\<close> that reads, the one that takes a port and the one that publishes the session are
  apart. Marking a session that is gone from the table changes nothing in it. The last component
  counts the ports taken.
\<close>

datatype nat_pc = Idle | Want natKey | Publish natKey uint16

inductive nat_step :: "tcpNAT \<times> nat_pc \<times> nat \<Rightarrow> tcpNAT \<times> nat_pc \<times> nat \<Rightarrow> bool" where
  lookup_hit: "addrMap n k = Some p \<Longrightarrow> nat_step (n, Idle, a) (n, Idle, a)"
| lookup_miss: "addrMap n k = None \<Longrightarrow> nat_step (n, Idle, a) (n, Want k, a)"
| lookup_alloc: "Lookup_alloc k n = (p, n') \<Longrightarrow> nat_step (n, Want k, a) (n', Publish k p, Suc a)"
| lookup_publish: "nat_step (n, Publish k p, a) (Lookup_publish now k p n, Idle, a)"
| inverse_touch: "portMap n p = Some s \<Longrightarrow>
    nat_step (n, pc, a) (n\<lparr>portMap := (portMap n)(p \<mapsto> s\<lparr>lastActive := now\<rparr>)\<rparr>, pc, a)"
| timeout: "nat_step (n, pc, a) (checkTimeout now order n, pc, a)"

inductive_cases nat_stepE: "nat_step s s'"

abbreviation nat_reach :: "int \<Rightarrow> tcpNAT \<times> nat_pc \<times> nat \<Rightarrow> bool" where
  "nat_reach t \<equiv> reaches nat_step (newTCPNAT t, Idle, 0)"

text \<open>
  Until all ports have been taken once: every port leads back to a key that has it, and every key's
  port leads back to it, but for the one about to be published.
\<close>

definition nat_inv :: "tcpNAT \<Rightarrow> nat_pc \<Rightarrow> nat \<Rightarrow> bool" where
  "nat_inv n pc a \<longleftrightarrow> portIndex n = of_nat (10000 + a) \<and>
     (\<forall>p k. nat_keys n p = Some k \<longrightarrow> addrMap n k = Some p) \<and>
     (\<forall>k p. addrMap n k = Some p \<longrightarrow> unat p < 10000 + a \<and> (nat_keys n p = Some k \<or> pc = Publish k p)) \<and>
     (case pc of Idle \<Rightarrow> True | Want k \<Rightarrow> addrMap n k = None
        | Publish k p \<Rightarrow> addrMap n k = Some p \<and> nat_keys n p = None)"

lemma nat_invI:
  assumes "portIndex n = of_nat (10000 + a)" "\<And>p k. nat_keys n p = Some k \<Longrightarrow> addrMap n k = Some p"
    "\<And>k p. addrMap n k = Some p \<Longrightarrow> unat p < 10000 + a \<and> (nat_keys n p = Some k \<or> pc = Publish k p)"
    "case pc of Idle \<Rightarrow> True | Want k \<Rightarrow> addrMap n k = None | Publish k p \<Rightarrow> addrMap n k = Some p \<and> nat_keys n p = None"
  shows "nat_inv n pc a"
  using assms unfolding nat_inv_def by blast

lemma nat_invD:
  assumes "nat_inv n pc a"
  shows "portIndex n = of_nat (10000 + a)" "\<And>p k. nat_keys n p = Some k \<Longrightarrow> addrMap n k = Some p"
    "\<And>k p. addrMap n k = Some p \<Longrightarrow> unat p < 10000 + a \<and> (nat_keys n p = Some k \<or> pc = Publish k p)"
    "case pc of Idle \<Rightarrow> True | Want k \<Rightarrow> addrMap n k = None | Publish k p \<Rightarrow> addrMap n k = Some p \<and> nat_keys n p = None"
  using assms unfolding nat_inv_def by blast+

lemma nat_inv_alloc:
  assumes inv: "nat_inv n (Want k) a" and a: "a < 55536" and al: "Lookup_alloc k n = (p, n')"
  shows "nat_inv n' (Publish k p) (Suc a)"
proof -
  have u: "unat (of_nat (10000 + a) :: uint16) = 10000 + a" using a by (intro unat_uint16_of_nat) simp
  have "portIndex n = of_nat (10000 + a)" by (rule nat_invD[OF inv])
  then have np: "next_port n = of_nat (10000 + a)" using u by (auto simp: next_port_def)
  from al have n': "p = of_nat (10000 + a)" "n' = n\<lparr>portIndex := p + 1, addrMap := (addrMap n)(k \<mapsto> p)\<rparr>"
    by (auto simp: Lookup_alloc_eq np)
  have keys: "nat_keys n' = nat_keys n" by (rule ext) (simp add: nat_keys_def n'(2))
  have up: "unat p = 10000 + a" using n'(1) u by simp
  have old: "addrMap n k' = Some q" "unat q < 10000 + a" if "nat_keys n q = Some k'" for q k'
    using nat_invD(2)[OF inv that] nat_invD(3)[OF inv] by blast+
  have free: "nat_keys n p = None"
  proof (cases "nat_keys n p")
    case (Some x)
    from old(2)[OF this] up show ?thesis by simp
  qed
  have kn: "addrMap n k = None" using nat_invD(4)[OF inv] by simp
  have idx: "portIndex n' = of_nat (10000 + Suc a)" by (simp add: n')
  have c1: "addrMap n' k' = Some q" if "nat_keys n' q = Some k'" for q k'
  proof -
    have "addrMap n k' = Some q" using old(1) that unfolding keys by blast
    moreover from this have "k' \<noteq> k" using kn by auto
    ultimately show ?thesis by (simp add: n'(2))
  qed
  have c2: "unat q < 10000 + Suc a \<and> (nat_keys n' q = Some k' \<or> Publish k p = Publish k' q)"
    if "addrMap n' k' = Some q" for q k'
  proof (cases "k' = k")
    case True
    with that up show ?thesis by (simp add: n')
  next
    case False
    with that have "addrMap n k' = Some q" by (simp add: n')
    from nat_invD(3)[OF inv this] show ?thesis unfolding keys by simp
  qed
  have c3: "addrMap n' k = Some p" "nat_keys n' p = None" using free keys by (simp_all add: n'(2))
  show ?thesis by (rule nat_invI[OF idx c1 c2]) (simp_all only: nat_pc.case c3 simp_thms)
qed

lemma nat_inv_publish:
  assumes inv: "nat_inv n (Publish k p) a"
  shows "nat_inv (Lookup_publish now k p n) Idle a"
proof -
  let ?n = "Lookup_publish now k p n"
  have same: "addrMap ?n = addrMap n" "portIndex ?n = portIndex n" by (simp_all add: Lookup_publish_def)
  have keys: "nat_keys ?n = (nat_keys n)(p \<mapsto> k)"
    using nat_keys_upd[of ?n n p] by (simp add: Lookup_publish_def)
  have k: "addrMap n k = Some p" "nat_keys n p = None" using nat_invD(4)[OF inv] by simp_all
  show ?thesis
  proof (rule nat_invI)
    show "portIndex ?n = of_nat (10000 + a)" unfolding same by (rule nat_invD[OF inv])
  next
    fix q k' assume "nat_keys ?n q = Some k'"
    then show "addrMap ?n k' = Some q"
      unfolding same keys using k(1) nat_invD(2)[OF inv, of q k'] by (cases "q = p") simp_all
  next
    fix k' q assume "addrMap ?n k' = Some q"
    then have "addrMap n k' = Some q" unfolding same .
    from nat_invD(3)[OF inv this] k(2) show "unat q < 10000 + a \<and> (nat_keys ?n q = Some k' \<or> Idle = Publish k' q)"
      unfolding keys by (cases "q = p") auto
  qed simp
qed

lemma nat_inv_delete:
  assumes inv: "nat_inv n pc a" and k: "nat_keys n p = Some k"
    and n': "addrMap n' = (addrMap n)(k := None)" "nat_keys n' = (nat_keys n)(p := None)" "portIndex n' = portIndex n"
  shows "nat_inv n' pc a"
proof -
  show ?thesis
  proof (rule nat_invI)
    show "portIndex n' = of_nat (10000 + a)" unfolding n'(3) by (rule nat_invD[OF inv])
  next
    fix q k' assume "nat_keys n' q = Some k'"
    then have q: "q \<noteq> p" "nat_keys n q = Some k'" by (auto simp: n'(2) split: if_splits)
    with nat_invD(2)[OF inv q(2)] nat_invD(2)[OF inv k] show "addrMap n' k' = Some q"
      unfolding n'(1) by (cases "k' = k") simp_all
  next
    fix k' q assume "addrMap n' k' = Some q"
    then have q: "k' \<noteq> k" "addrMap n k' = Some q" by (auto simp: n'(1) split: if_splits)
    from nat_invD(3)[OF inv q(2)] q(1) k show "unat q < 10000 + a \<and> (nat_keys n' q = Some k' \<or> pc = Publish k' q)"
      unfolding n'(2) by (cases "q = p") auto
  next
    show "case pc of Idle \<Rightarrow> True | Want k \<Rightarrow> addrMap n' k = None
        | Publish k p \<Rightarrow> addrMap n' k = Some p \<and> nat_keys n' p = None"
    proof (cases pc)
      case (Publish x q)
      with nat_invD(4)[OF inv] have x: "addrMap n x = Some q" "nat_keys n q = None" by simp_all
      with k have "q \<noteq> p" by auto
      with x nat_invD(2)[OF inv k] Publish show ?thesis unfolding n' by auto
    qed (use nat_invD(4)[OF inv] in \<open>simp_all add: n'\<close>)
  qed
qed

lemma nat_inv_expire_port: "nat_inv n pc a \<Longrightarrow> nat_inv (expire_port now n p) pc a"
proof (cases "portMap n p")
  case (Some s)
  assume inv: "nat_inv n pc a"
  show ?thesis
  proof (cases "expired n now s")
    case True
    let ?n = "expire_port now n p"
    have n': "addrMap ?n = (addrMap n)(session_key s := None)" "portMap ?n = (portMap n)(p := None)"
      "portIndex ?n = portIndex n" using Some True by (simp_all add: expire_port_def)
    show ?thesis
      using nat_keys_upd[OF n'(2)] Some by (intro nat_inv_delete[OF inv _ n'(1) _ n'(3)]) (simp_all add: nat_keys_def)
  qed (use inv Some in \<open>simp add: expire_port_def\<close>)
qed (simp add: expire_port_def)

lemma nat_inv_checkTimeout: "nat_inv n pc a \<Longrightarrow> nat_inv (checkTimeout now order n) pc a"
  unfolding checkTimeout_def by (induction order arbitrary: n) (simp_all add: nat_inv_expire_port)

lemma nat_inv_keys:
  assumes inv: "nat_inv n pc a" and "nat_keys n' = nat_keys n" "addrMap n' = addrMap n" "portIndex n' = portIndex n"
  shows "nat_inv n' pc a"
  using inv unfolding nat_inv_def assms(2-4) .

interpretation goroutines: machine nat_step "\<lambda>(n, pc, a). a \<le> 55536 \<longrightarrow> nat_inv n pc a" "(newTCPNAT t, Idle, 0)" for t
proof
  show "case (newTCPNAT t, Idle, 0 :: nat) of (n, pc, a) \<Rightarrow> a \<le> 55536 \<longrightarrow> nat_inv n pc a"
    by (simp add: nat_inv_def newTCPNAT_def nat_keys_def)
next
  fix s s' assume inv: "case s of (n, pc, a) \<Rightarrow> a \<le> 55536 \<longrightarrow> nat_inv n pc a" and "nat_step s s'"
  from this(2) show "case s' of (n, pc, a) \<Rightarrow> a \<le> 55536 \<longrightarrow> nat_inv n pc a"
  proof cases
    case (inverse_touch n p x pc a now)
    let ?n = "n\<lparr>portMap := (portMap n)(p \<mapsto> x\<lparr>lastActive := now\<rparr>)\<rparr>"
    have "nat_keys n p = Some (session_key x)" using inverse_touch by (simp add: nat_keys_def)
    then have "nat_keys ?n = nat_keys n"
      using nat_keys_upd[of ?n n p "Some (x\<lparr>lastActive := now\<rparr>)"] by (simp add: fun_upd_idem)
    then have "nat_inv ?n pc a" if "nat_inv n pc a" using nat_inv_keys[OF that] by simp
    with inv inverse_touch show ?thesis by simp
  next
    case (lookup_miss n k a)
    have "nat_inv n (Want k) a" if inv: "nat_inv n Idle a"
    proof (rule nat_invI[OF nat_invD(1,2)[OF inv]])
      fix k' p assume "addrMap n k' = Some p"
      from nat_invD(3)[OF inv this] show "unat p < 10000 + a \<and> (nat_keys n p = Some k' \<or> Want k = Publish k' p)"
        by simp
    qed (simp_all add: lookup_miss(3))
    with inv lookup_miss(1,2) show ?thesis by simp
  next
    case (lookup_alloc k n p n' a)
    with inv nat_inv_alloc[OF _ _ lookup_alloc(3)] show ?thesis by simp
  next
    case (lookup_publish n k p a now)
    with inv nat_inv_publish show ?thesis by simp
  next
    case (timeout n pc a now order)
    with inv nat_inv_checkTimeout show ?thesis by simp
  qed (use inv in simp)
qed

section \<open>Wrap-around\<close>

definition lookups :: "int \<Rightarrow> natKey list \<Rightarrow> tcpNAT \<Rightarrow> tcpNAT" where
  "lookups now ks n = foldl (\<lambda>n k. snd (Lookup now k n)) n ks"

lemma lookups_fresh:
  "distinct ks \<Longrightarrow> length ks \<le> 55536 \<Longrightarrow>
   portIndex (lookups now ks (newTCPNAT t)) = of_nat (10000 + length ks) \<and>
   (\<forall>j < length ks. addrMap (lookups now ks (newTCPNAT t)) (ks ! j) = Some (of_nat (10000 + j))) \<and>
   (\<forall>k. k \<notin> set ks \<longrightarrow> addrMap (lookups now ks (newTCPNAT t)) k = None)"
proof (induction ks rule: rev_induct)
  case Nil
  then show ?case by (simp add: lookups_def newTCPNAT_def)
next
  case (snoc k ks)
  let ?n = "lookups now ks (newTCPNAT t)"
  from snoc have ih: "portIndex ?n = of_nat (10000 + length ks)"
    "\<And>j. j < length ks \<Longrightarrow> addrMap ?n (ks ! j) = Some (of_nat (10000 + j))"
    "\<And>k. k \<notin> set ks \<Longrightarrow> addrMap ?n k = None" and k: "k \<notin> set ks" and len: "length ks < 55536" by auto
  have "unat (of_nat (10000 + length ks) :: uint16) = 10000 + length ks" using len by (intro unat_uint16_of_nat) simp
  then have np: "next_port ?n = of_nat (10000 + length ks)" using ih(1) by (auto simp: next_port_def)
  have step: "lookups now (ks @ [k]) (newTCPNAT t) = snd (Lookup now k ?n)" by (simp add: lookups_def)
  have a: "addrMap (lookups now (ks @ [k]) (newTCPNAT t)) = (addrMap ?n)(k \<mapsto> of_nat (10000 + length ks))"
    and i: "portIndex (lookups now (ks @ [k]) (newTCPNAT t)) = of_nat (10000 + length ks) + 1"
    unfolding step Lookup_new[OF ih(3)[OF k]] np by simp_all
  have "addrMap (lookups now (ks @ [k]) (newTCPNAT t)) ((ks @ [k]) ! j) = Some (of_nat (10000 + j))"
    if "j < length (ks @ [k])" for j
  proof (cases "j = length ks")
    case False
    with that have j: "j < length ks" by simp
    with k have "ks ! j \<noteq> k" by (metis nth_mem)
    with ih(2)[OF j] j show ?thesis unfolding a by (simp add: nth_append)
  qed (simp add: a)
  moreover have "addrMap (lookups now (ks @ [k]) (newTCPNAT t)) k' = None" if "k' \<notin> set (ks @ [k])" for k'
    using ih(3)[of k'] that unfolding a by simp
  ultimately show ?case unfolding i by simp
qed

section \<open>Properties\<close>

text \<open>
  C6: However the goroutines interleave, until each of the 55536 ports has been taken once: the port of
  a key leads back to that key, unless its session is just about to be published, and a port that leads
  to a session belongs to the session's key. So no two connections share a port, and no key is left
  behind when its session expires.
\<close>

theorem nat_goroutines:
  assumes "nat_reach t (n, pc, a)" "a \<le> 55536"
  shows "(addrMap n k = Some p \<longrightarrow> pc = Publish k p \<or> (\<exists>s n'. LookupInverse now p n = (Some s, n') \<and> session_key s = k)) \<and>
    (\<forall>s n'. LookupInverse now p n = (Some s, n') \<longrightarrow> addrMap n (session_key s) = Some p)"
proof -
  have inv: "nat_inv n pc a" using goroutines.reachable[OF assms(1)] assms(2) by simp
  have "\<exists>s n'. LookupInverse now p n = (Some s, n') \<and> session_key s = k" if "nat_keys n p = Some k" for k
  proof -
    obtain res n' where r: "LookupInverse now p n = (res, n')" by (cases "LookupInverse now p n")
    from LookupInverse_keys[OF r] that have "map_option session_key res = Some k" by simp
    with r show ?thesis by auto
  qed
  moreover have "addrMap n (session_key s) = Some p" if r: "LookupInverse now p n = (Some s, n')" for s n'
    using LookupInverse_keys[OF r] by (intro nat_invD(2)[OF inv]) simp
  ultimately show ?thesis using nat_invD(3)[OF inv, of k p] by blast
qed

theorem nat_goroutines_witness:
  "\<exists>n. nat_reach 300 (n, Idle, 1) \<and>
     (\<exists>s n'. LookupInverse 7 10000 n = (Some s, n') \<and> session_key s = NatKey (Addr4 1, 2) (Addr4 3, 4))"
proof -
  let ?k = "NatKey (Addr4 1, 2) (Addr4 3, 4)"
  let ?start = "newTCPNAT 300"
  obtain p n1 where al: "Lookup_alloc ?k ?start = (p, n1)" by (cases "Lookup_alloc ?k ?start")
  have p: "p = 10000" "addrMap n1 ?k = Some 10000"
    using al by (auto simp: Lookup_alloc_eq next_port_def newTCPNAT_def)
  let ?n = "Lookup_publish 5 ?k p n1"
  have "nat_reach 300 (?start, Want ?k, 0)"
    by (rule reaches_next[OF reaches_refl]) (rule lookup_miss, simp add: newTCPNAT_def)
  from reaches_next[OF this lookup_alloc[OF al]] have "nat_reach 300 (n1, Publish ?k p, 1)" by simp
  from reaches_next[OF this lookup_publish] have r: "nat_reach 300 (?n, Idle, 1)" .
  have "addrMap ?n ?k = Some 10000" using p by (simp add: Lookup_publish_def)
  with nat_goroutines[OF r, of ?k 10000 7] r show ?thesis by auto
qed

text \<open>
  When 55537 different connections are opened before any has expired, the first and the last have
  the same port, and what comes back on it for the first is taken for the last: the index starts again
  at 10000 without looking whether the port is in use.
\<close>

theorem tcp_nat_wrap:
  assumes "distinct ks" "length ks = 55537"
  shows "addrMap (lookups now ks (newTCPNAT t)) (ks ! 0) = Some 10000 \<and>
    addrMap (lookups now ks (newTCPNAT t)) (ks ! 55536) = Some 10000 \<and> ks ! 0 \<noteq> ks ! 55536 \<and>
    map_option session_key (fst (LookupInverse now' 10000 (lookups now ks (newTCPNAT t)))) = Some (ks ! 55536)"
proof -
  let ?ks = "take 55536 ks" and ?k = "ks ! 55536"
  let ?n = "lookups now ?ks (newTCPNAT t)" and ?n' = "lookups now ks (newTCPNAT t)"
  have ks: "ks = ?ks @ [?k]" using assms(2) by (metis take_Suc_conv_app_nth lessI take_all le_refl Suc_numeral semiring_norm(5) semiring_norm(2))
  have d: "distinct ?ks" "length ?ks \<le> 55536" and k: "?k \<notin> set ?ks"
    using assms ks by (auto, metis distinct_append disjoint_insert(1) list.simps(15))
  note f = lookups_fresh[OF d, of now t]
  have "portIndex ?n = 0" using f assms(2) by simp
  then have np: "next_port ?n = 10000" by (simp add: next_port_def)
  have first: "addrMap ?n (ks ! 0) = Some 10000" using f assms(2) by (auto dest: spec[of _ 0])
  have none: "addrMap ?n ?k = None" using f k by simp
  have ne: "ks ! 0 \<noteq> ?k" using first none by auto
  have "?n' = snd (Lookup now ?k ?n)" by (subst ks) (simp add: lookups_def)
  then have n': "addrMap ?n' = (addrMap ?n)(?k \<mapsto> 10000)" "nat_keys ?n' 10000 = Some ?k"
    by (simp_all add: Lookup_new[OF none] np nat_keys_def)
  have "map_option session_key (fst (LookupInverse now' 10000 ?n')) = Some ?k"
    using LookupInverse_keys[of now' 10000 ?n'] n'(2) by (cases "LookupInverse now' 10000 ?n'") simp
  with first ne show ?thesis unfolding n'(1) by simp
qed

theorem tcp_nat_wrap_witness:
  "\<exists>ks k. length ks = 55537 \<and> k \<noteq> ks ! 0 \<and> addrMap (lookups 0 ks (newTCPNAT 300)) (ks ! 0) = Some 10000 \<and>
     map_option session_key (fst (LookupInverse 0 10000 (lookups 0 ks (newTCPNAT 300)))) = Some k"
proof -
  let ?f = "\<lambda>i. NatKey (Addr4 (of_nat i), 1) (Addr4 0, 443)"
  define N :: nat where "N = 55537"
  define ks where "ks = map ?f [0..<N]"
  have "inj_on ?f {0..<N}"
  proof (rule inj_onI)
    fix i j assume ij: "i \<in> {0..<N}" "j \<in> {0..<N}" "?f i = ?f j"
    have u: "unat (of_nat x :: 32 word) = x" if "x < N" for x
      using that unfolding N_def by (simp add: unsigned_of_nat take_bit_nat_eq_self)
    from ij(3) have "(of_nat i :: 32 word) = of_nat j" by (simp only: natKey.inject prod.inject Addr.inject)
    then have "unat (of_nat i :: 32 word) = unat (of_nat j :: 32 word)" by (rule arg_cong)
    moreover from ij(1,2) have "i < N" "j < N" by auto
    ultimately show "i = j" using u by simp
  qed
  then have d: "distinct ks" "length ks = N"
    unfolding ks_def by (simp_all only: distinct_map distinct_upt set_upt simp_thms length_map length_upt diff_zero)
  have len: "length ks = 55537" using d(2) unfolding N_def .
  note w = tcp_nat_wrap[OF d(1) len, of 0 300 0]
  have ne: "ks ! 55536 \<noteq> ks ! 0" using w[THEN conjunct2, THEN conjunct2, THEN conjunct1] by (rule not_sym)
  show ?thesis
    by (intro exI[of _ ks] exI[of _ "ks ! 55536"] conjI len ne w[THEN conjunct1]
        w[THEN conjunct2, THEN conjunct2, THEN conjunct2])
qed

end
