(* ===== verification/GVisor.thy ===== *)
theory GVisor
  imports TCP_NAT
begin

text \<open>
  The tun over the gVisor stack (directory \<^verbatim>\<open>gvisor\<close>): how the stack is put together, which
  packets its endpoint discards, and how connections and UDP packets get to the handler and replies get
  back. The stack is a library: what its calls return is an argument, and a route is what it says of
  itself. Its header types are views of bytes, so a field of a packet that is too short panics.
\<close>

section \<open>The stack\<close>

datatype endpoint_layer = FdBased | SnifferLayer | DiscardLayer

datatype stack_protocol = ProtoIPv4 | ProtoIPv6 | ProtoTCP | ProtoUDP | ProtoICMPv4 | ProtoICMPv6

datatype gvisor_error = FdError bytes | SnifferError bytes | StackError bytes

record GVisor =
  gv_layers :: "endpoint_layer list"
  gv_protocols :: "stack_protocol list"
  gv_pcap :: bool

text \<open>What the calls come to: the device, the capture, and making the interface, its spoofing, its promiscuous mode.\<close>

record gvisor_calls =
  call_fdbased :: "bytes option"
  call_sniffer :: "bytes option"
  call_CreateNIC :: "bytes option"
  call_SetSpoofing :: "bytes option"
  call_SetPromiscuousMode :: "bytes option"

text \<open>The endpoint is wrapped from the inside: the first layer of the list is the innermost.\<close>

definition gvisor_New :: "gvisor_calls \<Rightarrow> bool \<Rightarrow> bool \<Rightarrow> bool \<Rightarrow> bool \<Rightarrow> gvisor_error + GVisor" where
  "gvisor_New calls pcap enableIPv6 discardICMP discardIPv6 =
     (case call_fdbased calls of
        Some e \<Rightarrow> Inl (FdError e)
      | None \<Rightarrow>
          if pcap \<and> call_sniffer calls \<noteq> None then Inl (SnifferError (the (call_sniffer calls)))
          else let layers = [FdBased] @ (if pcap then [SnifferLayer] else []) @ (if discardIPv6 \<or> discardICMP then [DiscardLayer] else []);
                   protocols = (if enableIPv6 then [ProtoIPv4, ProtoIPv6, ProtoTCP, ProtoUDP, ProtoICMPv4, ProtoICMPv6]
                     else [ProtoIPv4, ProtoTCP, ProtoUDP, ProtoICMPv4])
               in case (call_CreateNIC calls, call_SetSpoofing calls, call_SetPromiscuousMode calls) of
                    (Some e, _, _) \<Rightarrow> Inl (StackError e)
                  | (None, Some e, _) \<Rightarrow> Inl (StackError e)
                  | (None, None, Some e) \<Rightarrow> Inl (StackError e)
                  | (None, None, None) \<Rightarrow> Inr \<lparr>gv_layers = layers, gv_protocols = protocols, gv_pcap = pcap\<rparr>)"

datatype gvisor_event = DetachEndpoint | CloseStack | AbortEndpoint nat | ClosePcapLater

definition gvisor_Close :: "nat list \<Rightarrow> GVisor \<Rightarrow> gvisor_event list" where
  "gvisor_Close endpoints t =
     [DetachEndpoint, CloseStack] @ map AbortEndpoint endpoints @ (if gv_pcap t then [ClosePcapLater] else [])"

text \<open>The capture is written through a wrapper, which shows no more of the file than its writing.\<close>

definition pcap_Write :: "(bytes \<Rightarrow> nat \<times> bytes option) \<Rightarrow> bytes \<Rightarrow> nat \<times> bytes option" where
  "pcap_Write Write p = Write p"

section \<open>The endpoint that discards\<close>

text \<open>The dispatcher is nil or not; \<open>discardIPv6\<close> is nil or what it returns now.\<close>

record linkEndpointWithDiscard =
  has_dispatcher :: bool
  discardIPv6 :: "bool option"
  discardICMP :: bool
  inner_attached :: bool

definition ep_Attach :: "bool \<Rightarrow> linkEndpointWithDiscard \<Rightarrow> linkEndpointWithDiscard" where
  "ep_Attach dispatcher e = e\<lparr>has_dispatcher := dispatcher, inner_attached := dispatcher\<rparr>"

datatype delivery = Discarded | NoDispatcher | Delivered

definition IPv4ProtocolNumber :: uint16 where "IPv4ProtocolNumber = 0x0800"
definition IPv6ProtocolNumber :: uint16 where "IPv6ProtocolNumber = 0x86dd"

definition at_byte :: "nat \<Rightarrow> bytes \<Rightarrow> byte go" where
  "at_byte i b = (if i < length b then Ret (b ! i) else Panic)"

text \<open>What is discarded is logged with its destination, so it must be long enough for that.\<close>

definition discard_to :: "nat \<Rightarrow> bytes \<Rightarrow> delivery go" where
  "discard_to n packet = (if n \<le> length packet then Ret Discarded else Panic)"

definition DeliverNetworkPacket :: "uint16 \<Rightarrow> bytes \<Rightarrow> linkEndpointWithDiscard \<Rightarrow> delivery go" where
  "DeliverNetworkPacket protocol packet e =
     (let deliver = Ret (if has_dispatcher e then Delivered else NoDispatcher) in
      if protocol = IPv4ProtocolNumber then
        if discardICMP e
        then go_bind (at_byte 9 packet) (\<lambda>proto. if proto = 1 then discard_to 20 packet else deliver)
        else deliver
      else if protocol = IPv6ProtocolNumber then
        let discard = (case discardIPv6 e of Some d \<Rightarrow> d | None \<Rightarrow> False) in
        if discardICMP e
        then go_bind (at_byte 6 packet) (\<lambda>proto.
          if proto = 58 then discard_to 40 packet else if discard then discard_to 40 packet else deliver)
        else if discard then discard_to 40 packet else deliver
      else deliver)"

definition DeliverLinkPacket :: "linkEndpointWithDiscard \<Rightarrow> delivery go" where
  "DeliverLinkPacket e = Panic"

section \<open>TCP\<close>

datatype tcp_event = CompleteRequest bool | HandlerConnection AddrPort AddrPort

text \<open>A request for a connection: \<open>id\<close> is its remote and local end, and making its endpoint may fail.\<close>

definition gTcp_request :: "AddrPort \<times> AddrPort \<Rightarrow> bytes option \<Rightarrow> tcp_event list" where
  "gTcp_request ident errT =
     (case errT of
        Some _ \<Rightarrow> [CompleteRequest True]
      | None \<Rightarrow> [CompleteRequest False, HandlerConnection (fst ident) (snd ident)])"

text \<open>
  Closing the connection the handler has: its endpoint first, then its deadlines are set to a time that has
  passed, so that what reads or writes it returns, and the connection is closed, whose result it is.
\<close>

datatype gtcp_close = CloseEndpoint | ExpireDeadlines | CloseTCPConn

definition gTcpConn_Close :: "bytes option \<Rightarrow> bytes option \<times> gtcp_close list" where
  "gTcpConn_Close err = (err, [CloseEndpoint, ExpireDeadlines, CloseTCPConn])"

section \<open>UDP\<close>

record gUdpPacket =
  gp_remote :: AddrPort
  gp_local :: AddrPort
  gp_sourceAddress :: Addr
  gp_destinationAddress :: Addr

text \<open>
  A packet with its length field; what it comes to is what the handler is given, the source, the
  destination and the data, or nothing.
\<close>

definition gUdp_handle :: "uint16 \<Rightarrow> bytes \<Rightarrow> gUdpPacket \<Rightarrow> (AddrPort \<times> AddrPort \<times> bytes) option" where
  "gUdp_handle udpLength data p =
     (if unat udpLength > length data + 8 then None else Some (gp_remote p, gp_local p, data))"

record udp_header =
  SrcPort :: uint16
  DstPort :: uint16
  Length :: uint16
  Checksum :: uint16

text \<open>
  What a route says: whether the sender computes checksums, whether it is of IPv6, the checksum of its
  pseudo header with a length, and what writing to it comes to.
\<close>

record udp_route =
  RequiresTXTransportChecksum :: bool
  route_IPv6 :: bool
  PseudoHeaderChecksum :: "uint16 \<Rightarrow> uint16"
  route_WritePacket :: "bytes option"

text \<open>The sum in ones' complement of two sums.\<close>

definition Combine :: "uint16 \<Rightarrow> uint16 \<Rightarrow> uint16" where
  "Combine a b = (let v = unat a + unat b in of_nat (v + v div 65536))"

definition udp_bytes :: "udp_header \<Rightarrow> bytes" where
  "udp_bytes h = be16 (SrcPort h) @ be16 (DstPort h) @ be16 (Length h) @ be16 (Checksum h)"

text \<open>\<open>sum_of\<close> is the library's sum over bytes, added to a sum.\<close>

definition gSendUDP ::
  "(bytes \<Rightarrow> uint16 \<Rightarrow> uint16) \<Rightarrow> udp_route \<Rightarrow> bytes \<Rightarrow> uint16 \<Rightarrow> uint16 \<Rightarrow> bytes option \<times> udp_header \<times> bytes" where
  "gSendUDP sum_of r data localPort remotePort =
     (let len = of_nat (8 + length data);
          h = \<lparr>SrcPort = localPort, DstPort = remotePort, Length = len, Checksum = 0\<rparr>;
          xsum = sum_of (udp_bytes h) (Combine (PseudoHeaderChecksum r len) (sum_of data 0));
          h1 = (if RequiresTXTransportChecksum r \<and> route_IPv6 r
                then h\<lparr>Checksum := (if xsum \<noteq> 0xFFFF then NOT xsum else xsum)\<rparr> else h)
      in (route_WritePacket r, h1, data))"

datatype writeback_error = MessageTooLong | RouteError bytes | SendError bytes

text \<open>
  The reply: the result, and what was sent from which address if it came to that. \<open>findRoute\<close> is the library's
  route between the addresses.
\<close>

definition gudp_WriteBack ::
  "(bytes \<Rightarrow> uint16 \<Rightarrow> uint16) \<Rightarrow> (Addr \<Rightarrow> Addr \<Rightarrow> bytes + udp_route) \<Rightarrow> gUdpPacket \<Rightarrow> bytes \<Rightarrow> AddrPort option \<Rightarrow>
     (writeback_error + nat) \<times> (Addr \<times> udp_header \<times> bytes) option" where
  "gudp_WriteBack sum_of findRoute p b addr =
     (if length b > 65535 then (Inl MessageTooLong, None)
      else let (localAddress, localPort) = (case addr of None \<Rightarrow> (gp_destinationAddress p, snd (gp_local p)) | Some a \<Rightarrow> a)
           in case findRoute localAddress (gp_sourceAddress p) of
                Inl e \<Rightarrow> (Inl (RouteError e), None)
              | Inr r \<Rightarrow>
                  (case gSendUDP sum_of r b localPort (snd (gp_remote p)) of
                     (Some e, sent) \<Rightarrow> (Inl (SendError e), Some (localAddress, sent))
                   | (None, sent) \<Rightarrow> (Inr (length b), Some (localAddress, sent))))"

text \<open>The function the handler is given to write back with: no address is the packet's destination.\<close>

definition gudp_writeBack ::
  "(bytes \<Rightarrow> uint16 \<Rightarrow> uint16) \<Rightarrow> (Addr \<Rightarrow> Addr \<Rightarrow> bytes + udp_route) \<Rightarrow> gUdpPacket \<Rightarrow> bytes \<Rightarrow> AddrPort option \<Rightarrow>
     (writeback_error + nat) \<times> (Addr \<times> udp_header \<times> bytes) option" where
  "gudp_writeBack sum_of findRoute p b addr =
     gudp_WriteBack sum_of findRoute p b (Some (case addr of None \<Rightarrow> gp_local p | Some a \<Rightarrow> a))"

section \<open>Properties\<close>

lemma unat_not_word: "unat (NOT (x :: uint16)) = 65535 - unat x"
proof -
  have "NOT x = - 1 - x" by (simp add: not_eq_complement)
  then show ?thesis by (simp add: unat_sub[OF word_order.extremum] unsigned_minus_1_eq_mask mask_eq_exp_minus_1)
qed

text \<open>A checksum made by inverting a sum brings the whole to ones, and is never 0, which would mean that there is none.\<close>

lemma inverted_sum:
  "Combine xsum (if xsum \<noteq> 0xFFFF then NOT xsum else xsum) = 0xFFFF \<and> (if xsum \<noteq> 0xFFFF then NOT xsum else xsum) \<noteq> (0 :: uint16)"
proof (cases "xsum = 0xFFFF")
  case True
  have "(of_nat 131071 :: uint16) = 0xFFFF" by simp
  with True show ?thesis by (simp add: Combine_def)
next
  case False
  have "unat xsum + unat (NOT xsum) = 65535" using unat_uint16_less[of xsum] unfolding unat_not_word by linarith
  then have "Combine xsum (NOT xsum) = of_nat (65535 + 65535 div 65536)" unfolding Combine_def Let_def by (simp only:)
  moreover have "NOT xsum \<noteq> 0"
  proof
    assume "NOT xsum = 0"
    then have "NOT (NOT xsum) = NOT 0" by simp
    with False show False by simp
  qed
  ultimately show ?thesis using False by simp
qed



text \<open>
  The endpoint hands on every packet but ICMP when that is discarded and IPv6 when that is discarded
  now, each by its protocol number; whatever it does with a packet, it reads no further than the header of
  its family, and it hands nothing on when it is detached.
\<close>

theorem endpoint_discards:
  assumes "length packet \<ge> (if protocol = IPv4ProtocolNumber then 20 else if protocol = IPv6ProtocolNumber then 40 else 0)"
  shows "DeliverNetworkPacket protocol packet (ep_Attach dispatcher e) =
    Ret (if discardICMP e \<and> (protocol = IPv4ProtocolNumber \<and> packet ! 9 = 1 \<or> protocol = IPv6ProtocolNumber \<and> packet ! 6 = 58) \<or>
            protocol = IPv6ProtocolNumber \<and> discardIPv6 e = Some True
         then Discarded else if dispatcher then Delivered else NoDispatcher)"
proof -
  have n: "IPv6ProtocolNumber \<noteq> IPv4ProtocolNumber" by (simp add: IPv4ProtocolNumber_def IPv6ProtocolNumber_def)
  consider "protocol = IPv4ProtocolNumber" | "protocol = IPv6ProtocolNumber" | "protocol \<noteq> IPv4ProtocolNumber" "protocol \<noteq> IPv6ProtocolNumber"
    by blast
  then show ?thesis
  proof cases
    case 1
    then show ?thesis using assms n by (auto simp: DeliverNetworkPacket_def at_byte_def discard_to_def ep_Attach_def Let_def)
  next
    case 2
    then show ?thesis using assms n
      by (cases "discardIPv6 e") (auto simp: DeliverNetworkPacket_def at_byte_def discard_to_def ep_Attach_def Let_def)
  qed (auto simp: DeliverNetworkPacket_def ep_Attach_def Let_def)
qed

theorem endpoint_discards_witness:
  "\<exists>packet. DeliverNetworkPacket IPv4ProtocolNumber packet (ep_Attach True
      \<lparr>has_dispatcher = False, discardIPv6 = None, discardICMP = True, inner_attached = False\<rparr>) = Ret Discarded"
proof -
  let ?packet = "replicate 9 0 @ [1] @ replicate 10 0 :: bytes"
  have "length ?packet \<ge> (if IPv4ProtocolNumber = IPv4ProtocolNumber then 20 else if IPv4ProtocolNumber = IPv6ProtocolNumber then 40 else 0)"
    by simp
  moreover have "?packet ! 9 = 1" by (simp add: nth_append)
  ultimately show ?thesis
    using endpoint_discards[of IPv4ProtocolNumber ?packet True
      "\<lparr>has_dispatcher = False, discardIPv6 = None, discardICMP = True, inner_attached = False\<rparr>"]
    by (intro exI[of _ ?packet]) simp
qed

end
