(* ===== verification/Sys_Tun.thy ===== *)
theory Sys_Tun
  imports TCP_NAT
begin

text \<open>
  The system tun (\<^verbatim>\<open>nat/nat.go\<close>, \<^verbatim>\<open>tcp.go\<close>, \<^verbatim>\<open>udp.go\<close>, \<^verbatim>\<open>icmp.go\<close>):
  packets read from the device are dispatched by version and protocol. TCP is turned around to a local
  listener and back by the table of \<^verbatim>\<open>TCP_NAT\<close>, UDP is handed to the handler together with a
  function that writes replies, echo requests are answered. A packet is a list of bytes. The views of
  headers come from a third party's \<^verbatim>\<open>header\<close> package, the buffer of a packet from the
  outbound library: they are a record of functions on packets, an argument of every definition that
  uses them.
\<close>

text \<open>
  The functions for one version and one transport: \<open>h_off\<close> is where \<^verbatim>\<open>Payload()\<close> begins,
  the transport's fields are of the header there.
\<close>

record header =
  ip_src :: "bytes \<Rightarrow> Addr"
  ip_dst :: "bytes \<Rightarrow> Addr"
  set_ip_src :: "Addr \<Rightarrow> bytes \<Rightarrow> bytes"
  set_ip_dst :: "Addr \<Rightarrow> bytes \<Rightarrow> bytes"
  ip_proto :: "bytes \<Rightarrow> nat"
  h_off :: "bytes \<Rightarrow> nat"
  ip_paylen :: "bytes \<Rightarrow> uint16"
  set_ip_len :: "uint16 \<Rightarrow> bytes \<Rightarrow> bytes"
  set_ip_cksum :: "uint16 \<Rightarrow> bytes \<Rightarrow> bytes"
  calc_ip_cksum :: "bytes \<Rightarrow> uint16"
  sport :: "bytes \<Rightarrow> uint16"
  dport :: "bytes \<Rightarrow> uint16"
  set_sport :: "uint16 \<Rightarrow> bytes \<Rightarrow> bytes"
  set_dport :: "uint16 \<Rightarrow> bytes \<Rightarrow> bytes"
  set_l4_len :: "uint16 \<Rightarrow> bytes \<Rightarrow> bytes"
  set_l4_cksum :: "uint16 \<Rightarrow> bytes \<Rightarrow> bytes"
  calc_l4_cksum :: "uint16 \<Rightarrow> bytes \<Rightarrow> uint16"
  l4_payload :: "bytes \<Rightarrow> bytes"
  pseudo :: "nat \<Rightarrow> Addr \<Rightarrow> Addr \<Rightarrow> uint16 \<Rightarrow> uint16"
  combine :: "uint16 \<Rightarrow> uint16 \<Rightarrow> uint16"
  cksum :: "bytes \<Rightarrow> uint16 \<Rightarrow> uint16"
  icmp_type :: "bytes \<Rightarrow> nat"
  icmp_code :: "bytes \<Rightarrow> nat"
  set_icmp_type :: "nat \<Rightarrow> bytes \<Rightarrow> bytes"
  calc_icmp_cksum :: "bytes \<Rightarrow> uint16"
  buf_Advance :: "nat \<Rightarrow> bytes \<Rightarrow> bytes go"

section \<open>TCP\<close>

record tcpForwarder =
  tf_addr4 :: Addr
  tf_addr4Next :: Addr
  tf_addr6 :: Addr
  tf_addr6Next :: Addr
  tf_port :: uint16
  tf_NAT :: tcpNAT

datatype tun_error = CidrTooSmall | ListenError

text \<open>The listener is the operating system's: it fails, or has a port.\<close>

definition newTCPForwarder :: "Addr \<Rightarrow> Addr \<Rightarrow> uint16 option \<Rightarrow> tun_error + tcpForwarder" where
  "newTCPForwarder addr4 addr6 listen =
     (case (Addr_Next addr4, Addr_Next addr6) of
        (Some n4, Some n6) \<Rightarrow>
          (case listen of
             None \<Rightarrow> Inl ListenError
           | Some port \<Rightarrow> Inr \<lparr>tf_addr4 = addr4, tf_addr4Next = n4, tf_addr6 = addr6, tf_addr6Next = n6,
               tf_port = port, tf_NAT = newTCPNAT (300 * 1000000000)\<rparr>)
      | _ \<Rightarrow> Inl CidrTooSmall)"

text \<open>
  \<open>dispatch\<close> of an accepted connection: an address that maps IPv4 is IPv4's.
\<close>

datatype accepted = UnknownAddress Addr | UnknownPort uint16 | NewConnection AddrPort AddrPort

definition To4 :: "Addr \<Rightarrow> Addr" where
  "To4 a = (case a of Addr16 w \<Rightarrow> if drop_bit 32 w = 0xffff then Addr4 (ucast w) else a | Addr4 w \<Rightarrow> a)"

definition tcp_dispatch :: "tcpForwarder \<Rightarrow> int \<Rightarrow> AddrPort \<Rightarrow> accepted \<times> tcpForwarder" where
  "tcp_dispatch t now remote =
     (let addr = To4 (fst remote); port = snd remote in
      if addr \<noteq> tf_addr4Next t \<and> addr \<noteq> tf_addr6Next t then (UnknownAddress addr, t)
      else case LookupInverse now port (tf_NAT t) of (res, n) \<Rightarrow>
        case res of
          None \<Rightarrow> (UnknownPort port, t\<lparr>tf_NAT := n\<rparr>)
        | Some s \<Rightarrow> (NewConnection (source s) (destination s), t\<lparr>tf_NAT := n\<rparr>))"

text \<open>The addresses and ports of a packet are replaced; \<open>None\<close> is a reply without a session.\<close>

definition tcp_translate ::
  "header \<Rightarrow> Addr \<Rightarrow> Addr \<Rightarrow> tcpForwarder \<Rightarrow> int \<Rightarrow> bytes \<Rightarrow> bytes option \<times> tcpForwarder" where
  "tcp_translate h addr addrNext t now p =
     (let src = (ip_src h p, sport h p); dst = (ip_dst h p, dport h p) in
      if fst src = addr \<and> snd src = tf_port t
      then (case LookupInverse now (snd dst) (tf_NAT t) of (res, n) \<Rightarrow>
        case res of
          None \<Rightarrow> (None, t\<lparr>tf_NAT := n\<rparr>)
        | Some s \<Rightarrow>
            let p1 = set_ip_src h (fst (destination s)) p;
                p2 = set_sport h (snd (destination s)) p1;
                p3 = set_ip_dst h (fst (source s)) p2
            in (Some (set_dport h (snd (source s)) p3), t\<lparr>tf_NAT := n\<rparr>))
      else (case Lookup now (NatKey src dst) (tf_NAT t) of (port, n) \<Rightarrow>
            let p1 = set_ip_src h addrNext p;
                p2 = set_sport h port p1;
                p3 = set_ip_dst h addr p2
            in (Some (set_dport h (tf_port t) p3), t\<lparr>tf_NAT := n\<rparr>)))"

definition fix_ip_cksum :: "header \<Rightarrow> bytes \<Rightarrow> bytes" where
  "fix_ip_cksum h p = (let p1 = set_ip_cksum h 0 p in set_ip_cksum h (NOT (calc_ip_cksum h p1)) p1)"

definition fix_tcp_cksum :: "header \<Rightarrow> bytes \<Rightarrow> bytes" where
  "fix_tcp_cksum h p =
     (let p1 = set_l4_cksum h 0 p in
      set_l4_cksum h (NOT (calc_l4_cksum h
        (combine h (pseudo h 6 (ip_src h p1) (ip_dst h p1) (ip_paylen h p1)) (cksum h (l4_payload h p1) 0)) p1)) p1)"

text \<open>What is written to the device, and the forwarder.\<close>

definition processIPv4 :: "header \<Rightarrow> tcpForwarder \<Rightarrow> int \<Rightarrow> bytes \<Rightarrow> bytes option \<times> tcpForwarder" where
  "processIPv4 h t now p =
     (case tcp_translate h (tf_addr4 t) (tf_addr4Next t) t now p of
        (res, t') \<Rightarrow> (map_option (\<lambda>q. fix_tcp_cksum h (fix_ip_cksum h q)) res, t'))"

definition processIPv6 :: "header \<Rightarrow> tcpForwarder \<Rightarrow> int \<Rightarrow> bytes \<Rightarrow> bytes option \<times> tcpForwarder" where
  "processIPv6 h t now p =
     (case tcp_translate h (tf_addr6 t) (tf_addr6Next t) t now p of
        (res, t') \<Rightarrow> (map_option (fix_tcp_cksum h) res, t'))"

section \<open>UDP\<close>

text \<open>What the function that writes replies holds.\<close>

record udp_reply =
  ur_header :: bytes
  ur_hlen :: nat
  ur_source :: AddrPort
  ur_destination :: AddrPort

text \<open>
  The reply's template is the packet's own head of \<open>n\<close> bytes, turned around. \<open>stale\<close> is what the
  read buffer holds behind the packet: a slice may reach into it, and panics only behind it. The rest
  of the packet is the payload handed on.
\<close>

definition udp_template ::
  "header \<Rightarrow> nat \<Rightarrow> nat \<Rightarrow> AddrPort \<Rightarrow> AddrPort \<Rightarrow> bytes \<Rightarrow> bytes \<Rightarrow> (bytes \<times> udp_reply) go" where
  "udp_template h hlen n src dst stale p1 =
     (if n > length p1 + length stale then Panic
      else go_bind (buf_Advance h n p1) (\<lambda>payload. Ret (payload,
        \<lparr>ur_header = take n (p1 @ stale), ur_hlen = hlen, ur_source = src, ur_destination = dst\<rparr>)))"

definition processIPv4UDP :: "header \<Rightarrow> bytes \<Rightarrow> bytes \<Rightarrow> (bytes \<times> udp_reply) go" where
  "processIPv4UDP h stale p =
     (let src = (ip_src h p, sport h p); dst = (ip_dst h p, dport h p);
          p1 = set_dport h (snd src) (set_ip_dst h (fst src) p);
          hlen = h_off h p1
      in udp_template h hlen (hlen + 8) src dst stale p1)"

text \<open>For IPv6 the header's length is what the payload's length leaves, in 16 bits, as is the head's.\<close>

definition processIPv6UDP :: "header \<Rightarrow> bytes \<Rightarrow> bytes \<Rightarrow> (bytes \<times> udp_reply) go" where
  "processIPv6UDP h stale p =
     (let src = (ip_src h p, sport h p); dst = (ip_dst h p, dport h p);
          p1 = set_dport h (snd src) (set_ip_dst h (fst src) p);
          hlen = of_nat (length p1) - ip_paylen h p1
      in udp_template h (unat hlen) (unat (hlen + 8)) src dst stale p1)"

text \<open>The reply with some data from an address, or from the destination; the template is written in.\<close>

definition udp_fields :: "header \<Rightarrow> AddrPort \<Rightarrow> AddrPort \<Rightarrow> bytes \<Rightarrow> bytes \<Rightarrow> bytes" where
  "udp_fields h from dest data q =
     (let len = of_nat (8 + length data) :: uint16;
          q1 = set_l4_cksum h 0 (set_l4_len h len (set_sport h (snd from) q))
      in set_l4_cksum h (NOT (calc_l4_cksum h (cksum h data (pseudo h 17 (fst from) (fst dest) len)) q1)) q1)"

text \<open>
  What the function returns, given the error of the device; what it writes; and what it holds then.
  For IPv6 the head can be shorter than the length it was given, and slicing it panics.
\<close>

definition write_result :: "bytes \<Rightarrow> bytes option \<Rightarrow> nat \<times> bytes option" where
  "write_result data err = (case err of Some e \<Rightarrow> (0, Some e) | None \<Rightarrow> (length data, None))"

definition writeBack4 ::
  "header \<Rightarrow> udp_reply \<Rightarrow> bytes option \<Rightarrow> bytes \<Rightarrow> AddrPort option \<Rightarrow> (nat \<times> bytes option) \<times> bytes \<times> udp_reply" where
  "writeBack4 h u err data addr =
     (let from = (case addr of Some a \<Rightarrow> a | None \<Rightarrow> ur_destination u);
          q1 = set_ip_len h (of_nat (ur_hlen u + 8 + length data)) (set_ip_src h (fst from) (ur_header u));
          q = udp_fields h from (ur_source u) data (fix_ip_cksum h q1)
      in (write_result data err, q @ data, u\<lparr>ur_header := q\<rparr>))"

definition writeBack6 ::
  "header \<Rightarrow> udp_reply \<Rightarrow> bytes option \<Rightarrow> bytes \<Rightarrow> AddrPort option \<Rightarrow> ((nat \<times> bytes option) \<times> bytes \<times> udp_reply) go" where
  "writeBack6 h u err data addr =
     (let from = (case addr of Some a \<Rightarrow> a | None \<Rightarrow> ur_destination u);
          q1 = set_ip_len h (of_nat (8 + length data)) (set_ip_src h (fst from) (ur_header u))
      in if ur_hlen u > length (ur_header u) then Panic
         else let q = udp_fields h from (ur_source u) data q1
              in Ret (write_result data err, q @ data, u\<lparr>ur_header := q\<rparr>))"

section \<open>ICMP\<close>

definition processICMPv4 :: "header \<Rightarrow> bytes \<Rightarrow> bytes option" where
  "processICMPv4 h p =
     (if icmp_type h p \<noteq> 8 \<or> icmp_code h p \<noteq> 0 then None
      else let sourceAddress = ip_src h p;
               p1 = fix_ip_cksum h (set_ip_dst h sourceAddress (set_ip_src h (ip_dst h p) p));
               p2 = set_l4_cksum h 0 (set_icmp_type h 0 p1)
           in Some (set_l4_cksum h (calc_icmp_cksum h p2) p2))"

definition processICMPv6 :: "header \<Rightarrow> bytes \<Rightarrow> bytes option" where
  "processICMPv6 h p =
     (if icmp_type h p \<noteq> 128 \<or> icmp_code h p \<noteq> 0 then None
      else let sourceAddress = ip_src h p;
               p1 = set_ip_dst h sourceAddress (set_ip_src h (ip_dst h p) p);
               p2 = set_l4_cksum h 0 (set_icmp_type h 129 p1)
           in Some (set_l4_cksum h (calc_icmp_cksum h p2) p2))"

section \<open>Dispatch\<close>

record headers =
  IPVersion :: "bytes \<Rightarrow> nat"
  tcp4 :: header
  udp4 :: header
  icmp4 :: header
  tcp6 :: header
  udp6 :: header
  icmp6 :: header

record SystemTun =
  discardICMP :: bool
  st_forwarder :: tcpForwarder

text \<open>The addresses and the listener's port are checked by the forwarder.\<close>

definition New :: "Addr \<Rightarrow> Addr \<Rightarrow> bool \<Rightarrow> uint16 option \<Rightarrow> tun_error + SystemTun" where
  "New addr4 addr6 noICMP listen =
     map_sum id (\<lambda>f. \<lparr>discardICMP = noICMP, st_forwarder = f\<rparr>) (newTCPForwarder addr4 addr6 listen)"

datatype tun_event = Written bytes | NewPacket bool AddrPort AddrPort bytes udp_reply

definition written :: "bytes option \<Rightarrow> tun_event list" where
  "written q = (case q of None \<Rightarrow> [] | Some x \<Rightarrow> [Written x])"

text \<open>
  \<open>deliverPacket\<close>: whether the buffer has been given away, the tun, and what is written or handed to
  the handler. \<open>discardIPv6\<close> is what the callback of that name returns, \<open>False\<close> when there is none;
  \<open>stale\<close> is the rest of the read buffer.
\<close>

definition deliverPacket ::
  "headers \<Rightarrow> SystemTun \<Rightarrow> int \<Rightarrow> bool \<Rightarrow> bytes \<Rightarrow> bytes \<Rightarrow> (bool \<times> SystemTun \<times> tun_event list) go" where
  "deliverPacket H t now discardIPv6 stale p =
     (if IPVersion H p = 4
      then if ip_proto (tcp4 H) p = 6
           then (case processIPv4 (tcp4 H) (st_forwarder t) now p of
                   (q, f) \<Rightarrow> Ret (False, t\<lparr>st_forwarder := f\<rparr>, written q))
           else if ip_proto (tcp4 H) p = 17
           then go_bind (processIPv4UDP (udp4 H) stale p) (\<lambda>(data, u).
                  Ret (True, t, [NewPacket False (ur_source u) (ur_destination u) data u]))
           else if ip_proto (tcp4 H) p = 1
           then Ret (False, t, if discardICMP t then [] else written (processICMPv4 (icmp4 H) p))
           else Ret (False, t, [])
      else if IPVersion H p = 6
      then if ip_proto (tcp6 H) p = 6
           then if discardIPv6 then Ret (False, t, [])
                else (case processIPv6 (tcp6 H) (st_forwarder t) now p of
                   (q, f) \<Rightarrow> Ret (False, t\<lparr>st_forwarder := f\<rparr>, written q))
           else if ip_proto (tcp6 H) p = 17
           then if discardIPv6 then Ret (True, t, [])
                else go_bind (processIPv6UDP (udp6 H) stale p) (\<lambda>(data, u).
                  Ret (True, t, [NewPacket True (ur_source u) (ur_destination u) data u]))
           else if ip_proto (tcp6 H) p = 58
           then Ret (False, t, if discardIPv6 \<or> discardICMP t then [] else written (processICMPv6 (icmp6 H) p))
           else Ret (False, t, [])
      else Ret (False, t, []))"

text \<open>
  \<open>dispatchLoop\<close>: reads from the device until one fails. A read has the time, the callback's answer,
  what the buffer holds behind the packet, and the packet unless it fails. Buffers are counted, and a
  new one is taken when one has been given away; the result has the buffer and the events of each packet.
\<close>

primrec tun_loop ::
  "headers \<Rightarrow> SystemTun \<Rightarrow> nat \<Rightarrow> (int \<times> bool \<times> bytes \<times> bytes option) list \<Rightarrow> (nat \<times> tun_event list) list go" where
  "tun_loop H t cache [] = Ret []"
| "tun_loop H t cache (r # rs) =
     (case r of
        (_, _, _, None) \<Rightarrow> Ret []
      | (now, discardIPv6, stale, Some p) \<Rightarrow>
          go_bind (deliverPacket H t now discardIPv6 stale p) (\<lambda>(given, t', evs).
            go_bind (tun_loop H t' (if given then Suc cache else cache) rs) (\<lambda>tr. Ret ((cache, evs) # tr))))"

section \<open>What is relied on of the headers\<close>

text \<open>
  The four fields of a packet, and the laws of getters and setters on packets whose headers are whole
  (\<open>ok\<close>) with addresses of the right family: a setter changes its field and no other of the four, not
  the packet's length, and leaves its headers whole.
\<close>

definition fields :: "header \<Rightarrow> bytes \<Rightarrow> AddrPort \<times> AddrPort" where
  "fields h p = ((ip_src h p, sport h p), (ip_dst h p, dport h p))"

definition keeps :: "header \<Rightarrow> (bytes \<Rightarrow> bool) \<Rightarrow> (bytes \<Rightarrow> bytes) \<Rightarrow> bool" where
  "keeps h ok f \<longleftrightarrow> (\<forall>p. ok p \<longrightarrow> ok (f p) \<and> length (f p) = length p \<and> fields h (f p) = fields h p)"

definition header_laws :: "header \<Rightarrow> (bytes \<Rightarrow> bool) \<Rightarrow> (Addr \<Rightarrow> bool) \<Rightarrow> bool" where
  "header_laws h ok fam \<longleftrightarrow>
     (\<forall>p. ok p \<longrightarrow> fam (ip_src h p) \<and> fam (ip_dst h p)) \<and>
     (\<forall>p a. ok p \<and> fam a \<longrightarrow> ok (set_ip_src h a p) \<and> length (set_ip_src h a p) = length p \<and>
        fields h (set_ip_src h a p) = ((a, sport h p), (ip_dst h p, dport h p))) \<and>
     (\<forall>p a. ok p \<and> fam a \<longrightarrow> ok (set_ip_dst h a p) \<and> length (set_ip_dst h a p) = length p \<and>
        fields h (set_ip_dst h a p) = ((ip_src h p, sport h p), (a, dport h p))) \<and>
     (\<forall>p v. ok p \<longrightarrow> ok (set_sport h v p) \<and> length (set_sport h v p) = length p \<and>
        fields h (set_sport h v p) = ((ip_src h p, v), (ip_dst h p, dport h p))) \<and>
     (\<forall>p v. ok p \<longrightarrow> ok (set_dport h v p) \<and> length (set_dport h v p) = length p \<and>
        fields h (set_dport h v p) = ((ip_src h p, sport h p), (ip_dst h p, v))) \<and>
     (\<forall>v. keeps h ok (set_ip_len h v)) \<and> (\<forall>v. keeps h ok (set_ip_cksum h v)) \<and>
     (\<forall>v. keeps h ok (set_l4_len h v)) \<and> (\<forall>v. keeps h ok (set_l4_cksum h v))"

lemma header_setters:
  assumes laws: "header_laws h ok fam" and ok: "ok p"
  shows "fam a \<Longrightarrow> ok (set_ip_src h a p) \<and> length (set_ip_src h a p) = length p \<and>
      fields h (set_ip_src h a p) = ((a, sport h p), (ip_dst h p, dport h p))"
    and "fam a \<Longrightarrow> ok (set_ip_dst h a p) \<and> length (set_ip_dst h a p) = length p \<and>
      fields h (set_ip_dst h a p) = ((ip_src h p, sport h p), (a, dport h p))"
    and "ok (set_sport h v p) \<and> length (set_sport h v p) = length p \<and>
      fields h (set_sport h v p) = ((ip_src h p, v), (ip_dst h p, dport h p))"
    and "ok (set_dport h v p) \<and> length (set_dport h v p) = length p \<and>
      fields h (set_dport h v p) = ((ip_src h p, sport h p), (ip_dst h p, v))"
    and "fam (ip_src h p)" "fam (ip_dst h p)"
  using laws ok unfolding header_laws_def by blast+

lemma header_keeps:
  assumes "header_laws h ok fam"
  shows "keeps h ok (set_ip_len h v)" "keeps h ok (set_ip_cksum h v)" "keeps h ok (set_l4_len h v)" "keeps h ok (set_l4_cksum h v)"
  using assms unfolding header_laws_def by blast+

lemma keepsD: "keeps h ok f \<Longrightarrow> ok p \<Longrightarrow> ok (f p) \<and> length (f p) = length p \<and> fields h (f p) = fields h p"
  by (simp add: keeps_def)

lemma keeps_comp: "keeps h ok f \<Longrightarrow> keeps h ok g \<Longrightarrow> keeps h ok (\<lambda>p. f (g p))"
  by (simp add: keeps_def)

lemma keeps_fix:
  assumes "header_laws h ok fam"
  shows "keeps h ok (fix_ip_cksum h)" "keeps h ok (fix_tcp_cksum h)"
  using header_keeps(2,4)[OF assms] unfolding keeps_def fix_ip_cksum_def fix_tcp_cksum_def Let_def by simp_all

text \<open>All four fields, in the order in which the code sets them.\<close>

lemma set_all_fields:
  assumes laws: "header_laws h ok fam" and "ok p" "fam a" "fam b"
  shows "let q = set_dport h d (set_ip_dst h b (set_sport h s (set_ip_src h a p))) in
    ok q \<and> length q = length p \<and> fields h q = ((a, s), (b, d))"
proof -
  let ?p1 = "set_ip_src h a p" let ?p2 = "set_sport h s ?p1" let ?p3 = "set_ip_dst h b ?p2"
  have 1: "ok ?p1" "length ?p1 = length p" "ip_src h ?p1 = a"
    using header_setters(1)[OF laws assms(2,3)] by (auto simp: fields_def)
  have 2: "ok ?p2" "length ?p2 = length p" "ip_src h ?p2 = a" "sport h ?p2 = s"
    using header_setters(3)[OF laws 1(1), of s] 1 by (auto simp: fields_def)
  have 3: "ok ?p3" "length ?p3 = length p" "ip_src h ?p3 = a" "sport h ?p3 = s" "ip_dst h ?p3 = b"
    using header_setters(2)[OF laws 2(1) assms(4)] 2 by (auto simp: fields_def)
  show ?thesis using header_setters(4)[OF laws 3(1), of d] 3 by (simp add: Let_def)
qed

section \<open>There and back\<close>

lemma tcp_translate_out:
  assumes laws: "header_laws h ok fam" and p: "ok p" "fields h p = (src, dst)" and new: "src \<noteq> (addr, tf_port t)"
    and fam: "fam addr" "fam addrNext" and nat: "nat_ok (tf_NAT t)" "has_room (tf_NAT t) (NatKey src dst)"
  obtains q t' port where "tcp_translate h addr addrNext t now p = (Some q, t')" "ok q" "length q = length p"
    "fields h q = ((addrNext, port), (addr, tf_port t))" "t' = t\<lparr>tf_NAT := tf_NAT t'\<rparr>"
    "nat_ok (tf_NAT t')" "nat_keys (tf_NAT t') port = Some (NatKey src dst)"
proof -
  obtain port n where lk: "Lookup now (NatKey src dst) (tf_NAT t) = (port, n)" by (cases "Lookup now (NatKey src dst) (tf_NAT t)")
  from tcp_nat.lookup_maps[OF nat lk] have n: "nat_ok n" "nat_keys n port = Some (NatKey src dst)" by simp_all
  let ?q = "set_dport h (tf_port t) (set_ip_dst h addr (set_sport h port (set_ip_src h addrNext p)))"
  have "\<not> (ip_src h p = addr \<and> sport h p = tf_port t)" using p(2) new by (auto simp: fields_def)
  then have "tcp_translate h addr addrNext t now p = (Some ?q, t\<lparr>tf_NAT := n\<rparr>)"
    using p(2) lk by (auto simp: tcp_translate_def Let_def fields_def)
  with that set_all_fields[OF laws p(1) fam(2,1), of "tf_port t" port] n show thesis by (simp add: Let_def)
qed

lemma tcp_translate_back:
  assumes laws: "header_laws h ok fam" and p: "ok p" "fields h p = ((addr, tf_port t), (addrNext, port))"
    and fam: "fam (fst src)" "fam (fst dst)" and nat: "nat_ok (tf_NAT t)" "nat_keys (tf_NAT t) port = Some (NatKey src dst)"
  obtains q t' where "tcp_translate h addr addrNext t now p = (Some q, t')" "ok q" "length q = length p"
    "fields h q = (dst, src)"
proof -
  obtain res n where lk: "LookupInverse now port (tf_NAT t) = (res, n)" by (cases "LookupInverse now port (tf_NAT t)")
  then have "map_option session_key res = Some (NatKey src dst)"
    using tcp_nat.inverse_maps[OF nat(1) lk] nat(2) by blast
  then obtain s where s: "res = Some s" "source s = src" "destination s = dst" by auto
  let ?q = "set_dport h (snd src) (set_ip_dst h (fst src) (set_sport h (snd dst) (set_ip_src h (fst dst) p)))"
  have "tcp_translate h addr addrNext t now p = (Some ?q, t\<lparr>tf_NAT := n\<rparr>)"
    using p(2) lk s by (simp add: tcp_translate_def Let_def fields_def)
  with that set_all_fields[OF laws p(1) fam(2,1), of "snd src" "snd dst"] show thesis by (simp add: Let_def)
qed

text \<open>The two versions differ in the checksum of the header only.\<close>

lemma process_cases:
  assumes "(proc, addr, addrNext) \<in> {(processIPv4, tf_addr4 t, tf_addr4Next t), (processIPv6, tf_addr6 t, tf_addr6Next t)}"
    and "header_laws h ok fam"
  obtains fix_it where "keeps h ok fix_it"
    "\<And>t' now p. tf_addr4 t' = tf_addr4 t \<Longrightarrow> tf_addr4Next t' = tf_addr4Next t \<Longrightarrow> tf_addr6 t' = tf_addr6 t \<Longrightarrow>
       tf_addr6Next t' = tf_addr6Next t \<Longrightarrow>
       proc h t' now p = (case tcp_translate h addr addrNext t' now p of (res, t'') \<Rightarrow> (map_option fix_it res, t''))"
proof -
  have k: "keeps h ok (\<lambda>q. fix_tcp_cksum h (fix_ip_cksum h q))" "keeps h ok (fix_tcp_cksum h)"
    using keeps_fix[OF assms(2)] keeps_comp by auto
  from assms(1) consider "proc = processIPv4" "addr = tf_addr4 t" "addrNext = tf_addr4Next t"
    | "proc = processIPv6" "addr = tf_addr6 t" "addrNext = tf_addr6Next t" by auto
  then show thesis
    by cases (auto intro: that[OF k(1)] that[OF k(2)] simp: processIPv4_def processIPv6_def)
qed

section \<open>Headers of IPv4 and TCP without options\<close>

text \<open>
  An instance of the functions on headers, for packets whose first byte is 0x45, as the standards lay
  them out: it shows that the laws can hold.
\<close>

definition put :: "nat \<Rightarrow> bytes \<Rightarrow> bytes \<Rightarrow> bytes" where
  "put i v p = take i p @ v @ drop (i + length v) p"

lemma length_put: "i + length v \<le> length p \<Longrightarrow> length (put i v p) = length p"
  by (simp add: put_def)

lemma sub_put: "i + length v \<le> length p \<Longrightarrow> sub i (length v) (put i v p) = v"
  by (simp add: put_def)

lemma sub_put_other:
  assumes "i + length v \<le> length p" "j + n \<le> i \<or> i + length v \<le> j"
  shows "sub j n (put i v p) = sub j n p"
  using assms(2)
proof
  assume j: "j + n \<le> i"
  with assms(1) have "sub j n (put i v p) = sub j n (take i p)" unfolding put_def by (intro sub_append) simp
  with j show ?thesis by (simp add: sub_take)
next
  assume j: "i + length v \<le> j"
  have "drop j (put i v p) = drop (j - (i + length v)) (drop (i + length v) p)"
    using assms(1) j by (simp add: put_def)
  also have "\<dots> = drop j p" using j by simp
  finally show ?thesis by simp
qed

fun ones_sum :: "bytes \<Rightarrow> nat" where
  "ones_sum (a # b # r) = 256 * unat a + unat b + ones_sum r"
| "ones_sum [a] = 256 * unat a"
| "ones_sum [] = 0"

definition ones16 :: "nat \<Rightarrow> uint16" where
  "ones16 n = of_nat (if n = 0 then 0 else (n - 1) mod 65535 + 1)"

definition v4_addr :: "Addr \<Rightarrow> bytes" where
  "v4_addr a = (case a of Addr4 w \<Rightarrow> be32 w | Addr16 w \<Rightarrow> be32 (ucast w))"

definition ipv4_tcp :: header where
  "ipv4_tcp = \<lparr>ip_src = \<lambda>p. Addr4 (rd_be32 (sub 12 4 p)), ip_dst = \<lambda>p. Addr4 (rd_be32 (sub 16 4 p)),
     set_ip_src = \<lambda>a. put 12 (v4_addr a), set_ip_dst = \<lambda>a. put 16 (v4_addr a),
     ip_proto = \<lambda>p. unat (p ! 9), h_off = \<lambda>p. 20, ip_paylen = \<lambda>p. rd_be16 (sub 2 2 p) - 20,
     set_ip_len = \<lambda>v. put 2 (be16 v), set_ip_cksum = \<lambda>v. put 10 (be16 v),
     calc_ip_cksum = \<lambda>p. ones16 (ones_sum (take 20 p)),
     sport = \<lambda>p. rd_be16 (sub 20 2 p), dport = \<lambda>p. rd_be16 (sub 22 2 p),
     set_sport = \<lambda>v. put 20 (be16 v), set_dport = \<lambda>v. put 22 (be16 v),
     set_l4_len = \<lambda>v p. p, set_l4_cksum = \<lambda>v. put 36 (be16 v),
     calc_l4_cksum = \<lambda>x p. ones16 (unat x + ones_sum (sub 20 20 p)), l4_payload = drop 40,
     pseudo = \<lambda>n a b l. ones16 (n + ones_sum (v4_addr a @ v4_addr b) + unat l),
     combine = \<lambda>x y. ones16 (unat x + unat y), cksum = \<lambda>d x. ones16 (ones_sum d + unat x),
     icmp_type = \<lambda>p. unat (p ! 20), icmp_code = \<lambda>p. unat (p ! 21),
     set_icmp_type = \<lambda>n. put 20 [of_nat n], calc_icmp_cksum = \<lambda>p. NOT (ones16 (ones_sum (drop 20 p))),
     buf_Advance = \<lambda>n p. if n \<le> length p then Ret (drop n p) else Panic\<rparr>"

definition whole :: "nat \<Rightarrow> bytes \<Rightarrow> bool" where
  "whole m p \<longleftrightarrow> m \<le> length p \<and> sub 0 1 p = [0x45]"

definition is_v4 :: "Addr \<Rightarrow> bool" where
  "is_v4 a = (case a of Addr4 _ \<Rightarrow> True | Addr16 _ \<Rightarrow> False)"

lemma is_v4_Addr4: "is_v4 (Addr4 w)"
  by (simp add: is_v4_def)

lemma whole_put:
  assumes "whole m p" "1 \<le> i" "i + length v \<le> m"
  shows "whole m (put i v p) \<and> length (put i v p) = length p"
  using assms sub_put_other[of i v p 0 1] length_put[of i v p] by (simp add: whole_def)

lemma whole_put2:
  assumes "whole m p" "1 \<le> i" "i + 2 \<le> m"
  shows "whole m (put i (be16 v) p)" "length (put i (be16 v) p) = length p" "rd_be16 (sub i 2 (put i (be16 v) p)) = v"
    and "j + n \<le> i \<or> i + 2 \<le> j \<Longrightarrow> sub j n (put i (be16 v) p) = sub j n p"
  using whole_put[of m p i "be16 v"] sub_put[of i "be16 v" p] sub_put_other[of i "be16 v" p j n] assms
  by (simp_all add: whole_def)

lemma whole_put4:
  assumes "whole m p" "1 \<le> i" "i + 4 \<le> m"
  shows "whole m (put i (v4_addr a) p)" "length (put i (v4_addr a) p) = length p"
    "is_v4 a \<Longrightarrow> Addr4 (rd_be32 (sub i 4 (put i (v4_addr a) p))) = a"
    and "j + n \<le> i \<or> i + 4 \<le> j \<Longrightarrow> sub j n (put i (v4_addr a) p) = sub j n p"
proof -
  have l: "length (v4_addr a) = 4" by (simp add: v4_addr_def split: Addr.split)
  note p = whole_put[of m p i "v4_addr a"] sub_put[of i "v4_addr a" p] sub_put_other[of i "v4_addr a" p j n]
  show "whole m (put i (v4_addr a) p)" "length (put i (v4_addr a) p) = length p" using p(1) l assms by simp_all
  show "Addr4 (rd_be32 (sub i 4 (put i (v4_addr a) p))) = a" if "is_v4 a"
    using p(2) l assms that by (cases a) (simp_all add: v4_addr_def is_v4_def whole_def)
  show "sub j n (put i (v4_addr a) p) = sub j n p" if "j + n \<le> i \<or> i + 4 \<le> j"
    using p(3) l assms that by (simp add: whole_def)
qed

lemma ipv4_tcp_laws: "header_laws ipv4_tcp (whole 40) is_v4"
  unfolding header_laws_def keeps_def fields_def ipv4_tcp_def header.simps
  by (intro conjI allI impI) (simp_all add: whole_put2[of 40] whole_put4[of 40] is_v4_Addr4 del: drop_drop take_drop)

text \<open>The same for UDP: length and checksum are elsewhere.\<close>

definition ipv4_udp :: header where
  "ipv4_udp = ipv4_tcp\<lparr>set_l4_len := \<lambda>v. put 24 (be16 v), set_l4_cksum := \<lambda>v. put 26 (be16 v), l4_payload := drop 28\<rparr>"

lemma ipv4_udp_laws: "header_laws ipv4_udp (whole 28) is_v4"
  unfolding header_laws_def keeps_def fields_def ipv4_udp_def ipv4_tcp_def header.simps
  by (intro conjI allI impI) (simp_all add: whole_put2[of 28] whole_put4[of 28] is_v4_Addr4 del: drop_drop take_drop)

section \<open>Properties\<close>

text \<open>
  A packet of a TCP connection that is not a reply of the listener is turned around: it is written
  back to the device with its length, from the address next to the tun's and a port of the table, to the
  listener. The listener finds the connection's own source and destination behind that address and port,
  and a reply of the listener to them is written with exactly the connection's addresses and ports,
  swapped. Assumed are the laws of the header functions and that the table has room for the connection.
\<close>

theorem tcp_round_trip:
  assumes proc: "(proc, addr, addrNext) \<in> {(processIPv4, tf_addr4 t, tf_addr4Next t), (processIPv6, tf_addr6 t, tf_addr6Next t)}"
    and laws: "header_laws h ok fam" "fam addr" "fam addrNext" and nxt: "To4 addrNext = addrNext"
    and nat: "nat_ok (tf_NAT t)" "has_room (tf_NAT t) (NatKey src dst)"
    and p: "ok p" "fields h p = (src, dst)" "src \<noteq> (addr, tf_port t)"
  shows "\<exists>q t' port. proc h t now p = (Some q, t') \<and> length q = length p \<and>
    fields h q = ((addrNext, port), (addr, tf_port t)) \<and>
    (\<forall>now2. fst (tcp_dispatch t' now2 (addrNext, port)) = NewConnection src dst) \<and>
    (\<forall>p2 now2. ok p2 \<and> fields h p2 = ((addr, tf_port t), (addrNext, port)) \<longrightarrow>
      (\<exists>q2 t2. proc h t' now2 p2 = (Some q2, t2) \<and> length q2 = length p2 \<and> fields h q2 = (dst, src)))"
proof -
  obtain fix_it where f: "keeps h ok fix_it"
    and pr: "\<And>t' now p. tf_addr4 t' = tf_addr4 t \<Longrightarrow> tf_addr4Next t' = tf_addr4Next t \<Longrightarrow> tf_addr6 t' = tf_addr6 t \<Longrightarrow>
       tf_addr6Next t' = tf_addr6Next t \<Longrightarrow>
       proc h t' now p = (case tcp_translate h addr addrNext t' now p of (res, t2) \<Rightarrow> (map_option fix_it res, t2))"
    by (rule process_cases[OF proc laws(1)]) blast
  obtain q t' port where q: "tcp_translate h addr addrNext t now p = (Some q, t')" "ok q" "length q = length p"
    "fields h q = ((addrNext, port), (addr, tf_port t))" "t' = t\<lparr>tf_NAT := tf_NAT t'\<rparr>"
    "nat_ok (tf_NAT t')" "nat_keys (tf_NAT t') port = Some (NatKey src dst)"
    by (rule tcp_translate_out[OF laws(1) p laws(2,3) nat])
  have same: "tf_addr4 t' = tf_addr4 t" "tf_addr4Next t' = tf_addr4Next t" "tf_addr6 t' = tf_addr6 t"
    "tf_addr6Next t' = tf_addr6Next t" "tf_port t' = tf_port t"
    by (subst q(5), simp)+
  have out: "proc h t now p = (Some (fix_it q), t')" using pr[of t] q(1) by simp
  have conn: "fst (tcp_dispatch t' now2 (addrNext, port)) = NewConnection src dst" for now2
  proof -
    obtain res n where lk: "LookupInverse now2 port (tf_NAT t') = (res, n)" by (cases "LookupInverse now2 port (tf_NAT t')")
    then have "map_option session_key res = Some (NatKey src dst)"
      using tcp_nat.inverse_maps[OF q(6) lk] q(7) by blast
    moreover have "addrNext = tf_addr4Next t' \<or> addrNext = tf_addr6Next t'" using proc same by auto
    ultimately show ?thesis using lk nxt by (auto simp: tcp_dispatch_def Let_def)
  qed
  have fam: "fam (fst src)" "fam (fst dst)" using header_setters(5,6)[OF laws(1) p(1)] p(2) by (auto simp: fields_def)
  have reply: "\<exists>q2 t2. proc h t' now2 p2 = (Some q2, t2) \<and> length q2 = length p2 \<and> fields h q2 = (dst, src)"
    if p2: "ok p2" "fields h p2 = ((addr, tf_port t), (addrNext, port))" for p2 now2
  proof -
    have "fields h p2 = ((addr, tf_port t'), (addrNext, port))" using p2(2) same by simp
    from tcp_translate_back[OF laws(1) p2(1) this fam q(6,7), of now2] obtain q2 t2 where
      q2: "tcp_translate h addr addrNext t' now2 p2 = (Some q2, t2)" "ok q2" "length q2 = length p2" "fields h q2 = (dst, src)"
      by blast
    then have "proc h t' now2 p2 = (Some (fix_it q2), t2)" using pr[OF same(1-4)] by simp
    with keepsD[OF f q2(2)] q2(3,4) show ?thesis by simp
  qed
  show ?thesis using out keepsD[OF f q(2)] q(3,4) conn reply by (intro exI[of _ "fix_it q"] exI[of _ t'] exI[of _ port]) simp
qed

definition tun_example :: tcpForwarder where
  "tun_example = \<lparr>tf_addr4 = Addr4 0xac130001, tf_addr4Next = Addr4 0xac130002, tf_addr6 = Addr16 1, tf_addr6Next = Addr16 2,
     tf_port = 4000, tf_NAT = newTCPNAT 300\<rparr>"

theorem tcp_round_trip_witness:
  "\<exists>q t' port. processIPv4 ipv4_tcp tun_example 0 (0x45 # replicate 39 0) = (Some q, t') \<and>
     fields ipv4_tcp q = ((Addr4 0xac130002, port), (Addr4 0xac130001, 4000))"
proof -
  let ?p = "0x45 # replicate 39 (0 :: byte)" let ?t = tun_example
  have proc: "(processIPv4, Addr4 0xac130001, Addr4 0xac130002) \<in>
      {(processIPv4, tf_addr4 ?t, tf_addr4Next ?t), (processIPv6, tf_addr6 ?t, tf_addr6Next ?t)}"
    and port: "tf_port ?t = 4000" and n: "tf_NAT ?t = newTCPNAT 300" by (simp_all add: tun_example_def)
  have nat: "nat_ok (tf_NAT ?t)" "has_room (tf_NAT ?t) k" for k
    unfolding n by (simp_all add: has_room_def newTCPNAT_def next_port_def nat_ok_new[unfolded newTCPNAT_def])
  have ok: "whole 40 ?p" by (simp add: whole_def)
  have fam: "is_v4 (Addr4 0xac130001)" "is_v4 (Addr4 0xac130002)" "To4 (Addr4 0xac130002) = Addr4 0xac130002"
    by (simp_all add: is_v4_def To4_def)
  have f: "fields ipv4_tcp ?p = ((Addr4 0, 0), (Addr4 0, 0))"
    by (simp add: fields_def ipv4_tcp_def rd_be32_def rd_be16_def)
  have ne: "(Addr4 0, 0) \<noteq> (Addr4 0xac130001, tf_port ?t)" by (simp add: port)
  from tcp_round_trip[OF proc ipv4_tcp_laws fam nat ok f ne, of 0] show ?thesis unfolding port by blast
qed

lemma deliverPacket_given:
  assumes "deliverPacket H t now discardIPv6 stale p = Ret (given, t', evs)"
  shows "(\<forall>e \<in> set evs. case e of NewPacket _ _ _ _ _ \<Rightarrow> given | Written _ \<Rightarrow> \<not> given) \<and> length evs \<le> 1"
  using assms
  by (auto simp: deliverPacket_def written_def go_bind_Ret_iff split: if_splits option.splits prod.splits)

lemma tun_loop_ge: "tun_loop H t k rs = Ret tr \<Longrightarrow> x \<in> set tr \<Longrightarrow> k \<le> fst x"
proof (induction rs arbitrary: t k tr)
  case (Cons r rs)
  then show ?case by (fastforce simp: go_bind_Ret_iff split: option.splits prod.splits if_splits)
qed simp

lemma tun_loop_len: "tun_loop H t k rs = Ret tr \<Longrightarrow> x \<in> set tr \<Longrightarrow> length (snd x) \<le> 1"
proof (induction rs arbitrary: t k tr)
  case (Cons r rs)
  then show ?case by (fastforce simp: go_bind_Ret_iff dest: deliverPacket_given split: option.splits prod.splits if_splits)
qed simp

text \<open>
  C26: A buffer whose payload is handed to the handler is never read into again: every later packet of
  the loop comes in a buffer taken after it. And a packet is written back or handed on at most once.
\<close>

theorem tun_buffers:
  assumes "tun_loop H t k rs = Ret tr" "i < j" "j < length tr"
  shows "(NewPacket v6 src dst data u \<in> set (snd (tr ! i)) \<longrightarrow> fst (tr ! i) < fst (tr ! j)) \<and>
    length (snd (tr ! j)) \<le> 1"
  using assms
proof (induction rs arbitrary: t k tr i j)
    case (Cons r rs)
    obtain now d6 stale p given t' evs tr' where r: "r = (now, d6, stale, Some p)" "tr = (k, evs) # tr'"
      "deliverPacket H t now d6 stale p = Ret (given, t', evs)" "tun_loop H t' (if given then Suc k else k) rs = Ret tr'"
      using Cons.prems by (auto simp: go_bind_Ret_iff split: option.splits prod.splits)
    obtain j' where j: "j = Suc j'" using Cons.prems(2) by (cases j) auto
    show ?case
    proof (cases i)
      case 0
      have "tr' ! j' \<in> set tr'" using Cons.prems(3) by (simp add: r(2) j)
      from tun_loop_ge[OF r(4) this] deliverPacket_given[OF r(3)] have
        "NewPacket v6 src dst data u \<in> set evs \<longrightarrow> k < fst (tr' ! j')" by fastforce
      moreover have "length (snd (tr' ! j')) \<le> 1"
        using tun_loop_len[OF r(4)] \<open>tr' ! j' \<in> set tr'\<close> by blast
      ultimately show ?thesis by (simp add: 0 j r(2))
    next
      case (Suc i')
      with Cons.IH[OF r(4), of i' j'] Cons.prems(2,3) show ?thesis by (simp add: j r(2))
    qed
qed simp

definition headers_example :: headers where
  "headers_example = \<lparr>IPVersion = \<lambda>p. unat (drop_bit 4 (p ! 0)), tcp4 = ipv4_tcp, udp4 = ipv4_udp, icmp4 = ipv4_udp,
     tcp6 = ipv4_tcp, udp6 = ipv4_udp, icmp6 = ipv4_udp\<rparr>"

theorem tun_buffers_witness:
  "\<exists>e x. tun_loop headers_example \<lparr>discardICMP = False, st_forwarder = tun_example\<rparr> 0
     [(0, False, [], Some [0x45, 0, 0, 0, 0, 0, 0, 0, 0, 17, 0, 0, 0, 0, 0, 0, 0, 0, 0, 0, 0, 0, 0, 0, 0, 0, 0, 0, 0, 0, 0, 0]),
      (0, False, [], Some [0]), (0, False, [], None)] = Ret [(0, [e]), (x, [])] \<and> 0 < x"
proof -
  let ?p = "[0x45, 0, 0, 0, 0, 0, 0, 0, 0, 17, 0, 0, 0, 0, 0, 0, 0, 0, 0, 0, 0, 0, 0, 0, 0, 0, 0, 0, 0, 0, 0, 0 :: byte]"
  let ?t = "\<lparr>discardICMP = False, st_forwarder = tun_example\<rparr>"
  have v: "IPVersion headers_example ?p = 4" "ip_proto (tcp4 headers_example) ?p = 17" "udp4 headers_example = ipv4_udp"
    "h_off ipv4_udp q = 20" "buf_Advance ipv4_udp n q = (if n \<le> length q then Ret (drop n q) else Panic)" for n q
    by (simp_all add: headers_example_def ipv4_tcp_def ipv4_udp_def)
  have "set_dport ipv4_udp x (set_ip_dst ipv4_udp y ?p) = put 22 (be16 x) (put 16 (v4_addr y) ?p)" for x y
    by (simp add: ipv4_udp_def ipv4_tcp_def)
  moreover have "length (v4_addr y) = 4" for y by (simp add: v4_addr_def split: Addr.split)
  ultimately have "length (set_dport ipv4_udp x (set_ip_dst ipv4_udp y ?p)) = 32" for x y
    by (simp add: length_put)
  then obtain data u where "processIPv4UDP ipv4_udp [] ?p = Ret (data, u)"
    by (auto simp: processIPv4UDP_def udp_template_def v Let_def)
  then obtain src dst where d: "deliverPacket headers_example ?t 0 False [] ?p = Ret (True, ?t, [NewPacket False src dst data u])"
    using v by (auto simp: deliverPacket_def)
  have "deliverPacket headers_example ?t 0 False [] [0] = Ret (False, ?t, [])"
    by (simp add: deliverPacket_def headers_example_def)
  with d have l: "tun_loop headers_example ?t 0 [(0, False, [], Some ?p), (0, False, [], Some [0]), (0, False, [], None)] =
    Ret [(0, [NewPacket False src dst data u]), (1, [])]" by simp
  from tun_buffers[OF l, of 0 1 False src dst data u] have "(0 :: nat) < 1" by simp
  with l show ?thesis by blast
qed

text \<open>
  For packets whose header has length \<open>n\<close>, the head alone, the header and the transport's first eight
  bytes, shows the four fields; a buffer can be advanced over the head.
\<close>

definition head_laws :: "header \<Rightarrow> (bytes \<Rightarrow> bool) \<Rightarrow> nat \<Rightarrow> bool" where
  "head_laws h ok n \<longleftrightarrow> (\<forall>p. ok p \<longrightarrow> h_off h p = n \<and> n + 8 \<le> length p \<and> ok (take (n + 8) p) \<and>
     fields h (take (n + 8) p) = fields h p \<and> buf_Advance h (n + 8) p = Ret (drop (n + 8) p))"

lemma udp_fields_keeps:
  assumes laws: "header_laws h ok fam" and q: "ok q" "fields h q = ((a, s), dest)"
  shows "ok (udp_fields h from dest' data q) \<and> length (udp_fields h from dest' data q) = length q \<and>
    fields h (udp_fields h from dest' data q) = ((a, snd from), dest)"
proof -
  have 1: "ok (set_sport h (snd from) q)" "length (set_sport h (snd from) q) = length q"
    "fields h (set_sport h (snd from) q) = ((a, snd from), dest)"
    using header_setters(3)[OF laws q(1), of "snd from"] q(2) by (auto simp: fields_def)
  show ?thesis unfolding udp_fields_def Let_def
    using keepsD[OF header_keeps(3)[OF laws] 1(1)] 1 by (simp add: keepsD[OF header_keeps(4)[OF laws]])
qed

lemma writeBack4_fields:
  assumes laws: "header_laws h ok fam" and q: "ok (ur_header u)" "fields h (ur_header u) = (x, ur_source u)"
    and addr: "fam (fst (case addr of Some a \<Rightarrow> a | None \<Rightarrow> ur_destination u))"
  shows "\<exists>q. writeBack4 h u err data addr = (write_result data err, q @ data, u\<lparr>ur_header := q\<rparr>) \<and> ok q \<and> length q = length (ur_header u) \<and>
    fields h q = ((case addr of Some a \<Rightarrow> a | None \<Rightarrow> ur_destination u), ur_source u)"
proof -
  define a where "a = (case addr of Some a \<Rightarrow> a | None \<Rightarrow> ur_destination u)"
  let ?q1 = "set_ip_src h (fst a) (ur_header u)"
  have 1: "ok ?q1" "length ?q1 = length (ur_header u)" "fields h ?q1 = ((fst a, snd x), ur_source u)"
    using header_setters(1)[OF laws q(1), of "fst a"] addr q(2) unfolding a_def[symmetric] by (auto simp: fields_def)
  let ?q2 = "fix_ip_cksum h (set_ip_len h (of_nat (ur_hlen u + 8 + length data)) ?q1)"
  have 2: "ok ?q2" "length ?q2 = length (ur_header u)" "fields h ?q2 = ((fst a, snd x), ur_source u)"
    using keepsD[OF keeps_comp[OF keeps_fix(1)[OF laws] header_keeps(1)[OF laws]] 1(1)] 1 by simp_all
  from udp_fields_keeps[OF laws 2(1,3), of a "ur_source u" data] 2(2) show ?thesis
    unfolding writeBack4_def Let_def a_def[symmetric] by (intro exI) auto
qed

text \<open>What the function that writes replies begins with: the packet's own head, turned to its source.\<close>

lemma processIPv4UDP_template:
  assumes laws: "header_laws h ok fam" "head_laws h ok n" and p: "ok p" "fields h p = (src, dst)"
  shows "\<exists>payload u. processIPv4UDP h stale p = Ret (payload, u) \<and> length payload + (n + 8) = length p \<and>
    ok (ur_header u) \<and> fields h (ur_header u) = (src, src) \<and> length (ur_header u) = n + 8 \<and>
    ur_source u = src \<and> ur_destination u = dst"
proof -
  let ?src = "(ip_src h p, sport h p)" and ?dst = "(ip_dst h p, dport h p)"
  let ?p1 = "set_ip_dst h (fst ?src) p" let ?p2 = "set_dport h (snd ?src) ?p1"
  have s: "src = ?src" "dst = ?dst" using p(2) by (simp_all add: fields_def)
  have fam: "fam (ip_src h p)" "fam (ip_dst h p)" using header_setters(5,6)[OF laws(1) p(1)] .
  have 1: "ok ?p1" "length ?p1 = length p" "fields h ?p1 = (?src, (ip_src h p, dport h p))"
    using header_setters(2)[OF laws(1) p(1), of "fst ?src"] fam by (auto simp: fields_def)
  have 2: "ok ?p2" "length ?p2 = length p" "fields h ?p2 = (?src, ?src)"
    using header_setters(4)[OF laws(1) 1(1), of "snd ?src"] 1(2,3) by (auto simp: fields_def)
  then have t: "n + 8 \<le> length p" "ok (take (n + 8) ?p2)" "fields h (take (n + 8) ?p2) = (?src, ?src)"
    "h_off h ?p2 = n" "buf_Advance h (n + 8) ?p2 = Ret (drop (n + 8) ?p2)"
    using laws(2) by (auto simp: head_laws_def)
  have "processIPv4UDP h stale p = Ret (drop (n + 8) ?p2,
      \<lparr>ur_header = take (n + 8) ?p2, ur_hlen = n, ur_source = ?src, ur_destination = ?dst\<rparr>)"
    using t(1) 2(2) by (simp add: processIPv4UDP_def udp_template_def t(4,5)[unfolded fst_conv snd_conv] Let_def)
  then show ?thesis using t 2(2) unfolding s by simp
qed

lemma ipv4_udp_head: "head_laws ipv4_udp (whole 28) 20"
proof -
  have "sub i k (take 28 p) = sub i k p" if "i + k \<le> 28" for i k and p :: bytes
    using that by (rule sub_take)
  then show ?thesis by (auto simp: head_laws_def whole_def fields_def ipv4_udp_def ipv4_tcp_def simp del: take_drop drop_take)
qed

end
