(* ===== verification/Procfs.thy ===== *)
theory Procfs
  imports Go_Numbers
begin

text \<open>
  The owner of a socket from the tables of \<^verbatim>\<open>/proc/net\<close> (\<^verbatim>\<open>procfs.go\<close>): the columns
  are found once in the head of \<^verbatim>\<open>/proc/net/tcp\<close>, and the rows of a table are searched for the
  best match. A file is the list of the rows \<^verbatim>\<open>ReadLine\<close> returns until it fails, or \<open>None\<close> when
  it cannot be opened; the file system is an argument. An IP is the list of its bytes.
\<close>

section \<open>The columns\<close>

record procfs =
  netIndexOfLocal :: int
  netIndexOfRemote :: int
  netIndexOfUid :: int
  netIndexOfInode :: int
  bigEndian :: bool

definition no_columns :: procfs where
  "no_columns = \<lparr>netIndexOfLocal = -1, netIndexOfRemote = -1, netIndexOfUid = -1, netIndexOfInode = -1, bigEndian = False\<rparr>"

text \<open>
  In the head, two pairs of names stand above one column each, so the columns behind a pair are moved
  by one. The flags have been seen: \<^verbatim>\<open>tx_queue\<close>, \<^verbatim>\<open>rx_queue\<close>, \<^verbatim>\<open>tr\<close>, \<^verbatim>\<open>tm->when\<close>.
\<close>

fun scan_columns :: "bytes list \<Rightarrow> int \<Rightarrow> bool \<times> bool \<times> bool \<times> bool \<Rightarrow> procfs \<Rightarrow> procfs" where
  "scan_columns [] idx flags p = p"
| "scan_columns (column # columns) idx (txQueue, rxQueue, tr, tmWhen) p =
     (let at = idx - (if txQueue \<and> rxQueue then 1 else 0) - (if tr \<and> tmWhen then 1 else 0);
          next_columns = scan_columns columns (idx + 1)
      in if column = str ''tx_queue'' then next_columns (True, rxQueue, tr, tmWhen) p
         else if column = str ''rx_queue'' then next_columns (txQueue, True, tr, tmWhen) p
         else if column = str ''tr'' then next_columns (txQueue, rxQueue, True, tmWhen) p
         else if column = str ''tm->when'' then next_columns (txQueue, rxQueue, tr, True) p
         else next_columns (txQueue, rxQueue, tr, tmWhen)
           (if column = str ''local_address'' then p\<lparr>netIndexOfLocal := at\<rparr>
            else if column = str ''rem_address'' then p\<lparr>netIndexOfRemote := at\<rparr>
            else if column = str ''uid'' then p\<lparr>netIndexOfUid := at\<rparr>
            else if column = str ''inode'' then p\<lparr>netIndexOfInode := at\<rparr>
            else p))"

definition initOnce :: "bool \<Rightarrow> (bytes \<Rightarrow> bytes list option) \<Rightarrow> procfs" where
  "initOnce big fs =
     (case fs (str ''/proc/net/tcp'') of
        None \<Rightarrow> no_columns
      | Some [] \<Rightarrow> no_columns
      | Some (header # _) \<Rightarrow>
          (scan_columns (Fields header) 0 (False, False, False, False) no_columns)\<lparr>bigEndian := big\<rparr>)"

section \<open>The rows\<close>

text \<open>Each group of four bytes in the machine's order; the length is a multiple of four, or it panics.\<close>

fun nativeEndianIP :: "bool \<Rightarrow> bytes \<Rightarrow> bytes go" where
  "nativeEndianIP big [] = Ret []"
| "nativeEndianIP big (a # b # c # d # r) =
     go_bind (nativeEndianIP big r) (\<lambda>t. Ret ((if big then [a, b, c, d] else [d, c, b, a]) @ t))"
| "nativeEndianIP big _ = Panic"

text \<open>\<^verbatim>\<open>net.IP.To4\<close>; \<open>None\<close> is nil.\<close>

definition To4_bytes :: "bytes \<Rightarrow> bytes option" where
  "To4_bytes ip =
     (if length ip = 4 then Some ip
      else if length ip = 16 \<and> take 10 ip = replicate 10 0 \<and> sub 10 2 ip = [255, 255] then Some (drop 12 ip)
      else None)"

definition socket_name :: "bool \<Rightarrow> bytes \<Rightarrow> uint16 \<Rightarrow> bytes go" where
  "socket_name big ip port = go_bind (nativeEndianIP big ip) (\<lambda>x. Ret (hex_string x @ str '':'' @ hex_string (be16 port)))"

text \<open>
  The names of the unspecified addresses with the source's port; \<^verbatim>\<open>net.IPv4zero\<close> is in the form of
  16 bytes, which maps IPv4.
\<close>

definition IPv4zero :: bytes where
  "IPv4zero = replicate 10 0 @ [255, 255, 0, 0, 0, 0]"

definition zero_names :: "bool \<Rightarrow> int \<Rightarrow> bytes \<Rightarrow> uint16 \<Rightarrow> bytes list go" where
  "zero_names big ipProto srcIP srcPort =
     (if ipProto = 17
      then if length srcIP = 4 then go_bind (socket_name big IPv4zero srcPort) (\<lambda>z. Ret [z])
           else go_bind (socket_name big (replicate 16 0) srcPort) (\<lambda>z6.
             if To4_bytes srcIP \<noteq> None
             then go_bind (socket_name big IPv4zero srcPort) (\<lambda>z4. Ret [z6, z4])
             else Ret [z6])
      else Ret [])"

text \<open>The rank of a row; 0 is no match. The last test is on the source, as in the code.\<close>

definition row_rank :: "bytes \<Rightarrow> bytes \<Rightarrow> bytes list \<Rightarrow> bytes \<Rightarrow> bytes \<Rightarrow> nat" where
  "row_rank source dest zeroAddrs local remote =
     (if EqualFold source local \<and> EqualFold dest remote then 3
      else if EqualFold source local then 2
      else if \<exists>z \<in> set zeroAddrs. EqualFold source z then 1 else 0)"

fun search_rows :: "procfs \<Rightarrow> bytes \<Rightarrow> bytes \<Rightarrow> bytes list \<Rightarrow> bytes list \<Rightarrow> nat \<Rightarrow> int \<Rightarrow> int" where
  "search_rows p source dest zeroAddrs [] bestRank uid = uid"
| "search_rows p source dest zeroAddrs (row # rows) bestRank uid =
     (let fields = Fields row; n = int (length fields) in
      if n \<le> netIndexOfLocal p \<or> n \<le> netIndexOfUid p \<or> n \<le> netIndexOfRemote p \<or> n \<le> netIndexOfInode p
      then search_rows p source dest zeroAddrs rows bestRank uid
      else let rank = row_rank source dest zeroAddrs (fields ! nat (netIndexOfLocal p)) (fields ! nat (netIndexOfRemote p)) in
        if rank = 0 \<or> rank \<le> bestRank then search_rows p source dest zeroAddrs rows bestRank uid
        else case Atoi (fields ! nat (netIndexOfUid p)) of (u, ok) \<Rightarrow>
          if \<not> ok then search_rows p source dest zeroAddrs rows bestRank uid
          else if rank = 3 then to_int32 u
          else search_rows p source dest zeroAddrs rows rank (to_int32 u))"

definition querySocketUidFromProcFsInternal ::
  "procfs \<Rightarrow> (bytes \<Rightarrow> bytes list option) \<Rightarrow> bytes \<Rightarrow> int \<Rightarrow> bytes \<Rightarrow> uint16 \<Rightarrow> bytes \<Rightarrow> uint16 \<Rightarrow> int go" where
  "querySocketUidFromProcFsInternal p fs path ipProto srcIP srcPort dstIP dstPort =
     go_bind (socket_name (bigEndian p) srcIP srcPort) (\<lambda>source.
     go_bind (socket_name (bigEndian p) dstIP dstPort) (\<lambda>dest.
     go_bind (zero_names (bigEndian p) ipProto srcIP srcPort) (\<lambda>zeroAddrs.
       case fs path of
         None \<Rightarrow> Ret (- 1)
       | Some rows \<Rightarrow> Ret (search_rows p source dest zeroAddrs rows 0 (- 1)))))"

text \<open>
  The state is \<open>None\<close> until \<^verbatim>\<open>once\<close> has run. The table for IPv4 is asked first, then the one
  for IPv6.
\<close>

definition querySocketUidFromProcFs ::
  "bool \<Rightarrow> (bytes \<Rightarrow> bytes list option) \<Rightarrow> procfs option \<Rightarrow> int \<Rightarrow> bytes \<Rightarrow> uint16 \<Rightarrow> bytes \<Rightarrow> uint16 \<Rightarrow>
     (int \<times> procfs option) go" where
  "querySocketUidFromProcFs big fs st ipProto srcIP srcPort dstIP dstPort =
     (let p = (case st of Some p \<Rightarrow> p | None \<Rightarrow> initOnce big fs) in
      if netIndexOfLocal p < 0 \<or> netIndexOfRemote p < 0 \<or> netIndexOfUid p < 0 \<or> netIndexOfInode p < 0
      then Ret (- 1, Some p)
      else let path = (if ipProto = 6 then str ''/proc/net/tcp'' else if ipProto = 17 then str ''/proc/net/udp'' else []);
               query6 = go_bind (querySocketUidFromProcFsInternal p fs (path @ str ''6'') ipProto srcIP srcPort dstIP dstPort)
                 (\<lambda>uid. Ret (uid, Some p))
           in case (To4_bytes srcIP, To4_bytes dstIP) of
             (Some srcIPv4, Some dstIPv4) \<Rightarrow>
               go_bind (querySocketUidFromProcFsInternal p fs path ipProto srcIPv4 srcPort dstIPv4 dstPort)
                 (\<lambda>uid. if uid \<noteq> - 1 then Ret (uid, Some p) else query6)
           | _ \<Rightarrow> query6)"

text \<open>\<^verbatim>\<open>legacyUidDumper.DumpUid\<close> of \<^verbatim>\<open>route.go\<close>, on parsed addresses; it never returns an error.\<close>

definition legacy_DumpUid ::
  "bool \<Rightarrow> (bytes \<Rightarrow> bytes list option) \<Rightarrow> procfs option \<Rightarrow> (bytes \<Rightarrow> bytes) \<Rightarrow> int \<Rightarrow> bytes \<Rightarrow> int \<Rightarrow> bytes \<Rightarrow> int \<Rightarrow>
     (int \<times> procfs option) go" where
  "legacy_DumpUid big fs st ParseIP ipProto srcIP srcPort dstIP dstPort =
     querySocketUidFromProcFs big fs st ipProto (ParseIP srcIP) (word_of_int srcPort) (ParseIP dstIP) (word_of_int dstPort)"

section \<open>What the process knows of the network\<close>

text \<open>
  The other operations of \<^verbatim>\<open>route.go\<close>: who is asked for owners, over the tables above or not, the kind
  and name of the network, which are set when they differ, and whether IPv6 is discarded.
\<close>

datatype 'd uid_dumper = PlatformDumper 'd | LegacyDumper 'd

record 'd route_state =
  rt_dumper :: "'d uid_dumper option"
  rt_networkType :: bytes
  rt_ssid :: bytes
  rt_discardIPv6 :: bool
  rt_updates :: nat

definition SetUidDumper :: "'d \<Rightarrow> bool \<Rightarrow> 'd route_state \<Rightarrow> 'd route_state" where
  "SetUidDumper uidDumper useProcfs s =
     s\<lparr>rt_dumper := Some (if useProcfs then LegacyDumper uidDumper else PlatformDumper uidDumper)\<rparr>"

definition GetPackageName :: "('d \<Rightarrow> int \<Rightarrow> bytes + bytes) \<Rightarrow> 'd uid_dumper \<Rightarrow> int \<Rightarrow> bytes + bytes" where
  "GetPackageName ask d uid = (case d of PlatformDumper p \<Rightarrow> ask p uid | LegacyDumper p \<Rightarrow> ask p uid)"

definition SetNetworkType :: "bytes \<Rightarrow> 'd route_state \<Rightarrow> 'd route_state" where
  "SetNetworkType networkType s =
     (if rt_networkType s \<noteq> networkType then s\<lparr>rt_networkType := networkType, rt_updates := Suc (rt_updates s)\<rparr> else s)"

definition SetSSID :: "bytes \<Rightarrow> 'd route_state \<Rightarrow> 'd route_state" where
  "SetSSID ssid s = (if rt_ssid s \<noteq> ssid then s\<lparr>rt_ssid := ssid, rt_updates := Suc (rt_updates s)\<rparr> else s)"

definition SetDiscardIPv6 :: "bool \<Rightarrow> 'd route_state \<Rightarrow> 'd route_state" where
  "SetDiscardIPv6 d s = s\<lparr>rt_discardIPv6 := d\<rparr>"

section \<open>The best row\<close>

text \<open>What the search is for: the first usable row of the best rank there is.\<close>

definition usable :: "procfs \<Rightarrow> bytes \<Rightarrow> bool" where
  "usable p row \<longleftrightarrow> (let fields = Fields row; n = int (length fields) in
     netIndexOfLocal p < n \<and> netIndexOfUid p < n \<and> netIndexOfRemote p < n \<and> netIndexOfInode p < n \<and>
     snd (Atoi (fields ! nat (netIndexOfUid p))))"

definition row_uid :: "procfs \<Rightarrow> bytes \<Rightarrow> int" where
  "row_uid p row = to_int32 (fst (Atoi (Fields row ! nat (netIndexOfUid p))))"

definition row_local :: "procfs \<Rightarrow> bytes \<Rightarrow> bytes" where
  "row_local p row = Fields row ! nat (netIndexOfLocal p)"

definition row_remote :: "procfs \<Rightarrow> bytes \<Rightarrow> bytes" where
  "row_remote p row = Fields row ! nat (netIndexOfRemote p)"

definition first_uid :: "procfs \<Rightarrow> (bytes \<Rightarrow> bool) \<Rightarrow> bytes list \<Rightarrow> int \<Rightarrow> int" where
  "first_uid p matches rows other =
     (case find (\<lambda>row. usable p row \<and> matches row) rows of Some row \<Rightarrow> row_uid p row | None \<Rightarrow> other)"

lemma first_uid_Nil [simp]: "first_uid p m [] other = other"
  by (simp add: first_uid_def)

lemma first_uid_Cons:
  "first_uid p m (row # rows) other = (if usable p row \<and> m row then row_uid p row else first_uid p m rows other)"
  by (simp add: first_uid_def)

lemma first_uid_none: "(\<And>row. row \<in> set rows \<Longrightarrow> \<not> m row) \<Longrightarrow> first_uid p m rows other = other"
  by (induction rows) (auto simp: first_uid_Cons)

lemma first_uid_False [simp]: "first_uid p (\<lambda>_. False) rows other = other"
  by (simp add: first_uid_none)

lemma search_rows_from:
  assumes "best \<le> 2"
  shows "search_rows p source dest zeros rows best uid =
    first_uid p (\<lambda>r. EqualFold source (row_local p r) \<and> EqualFold dest (row_remote p r)) rows
      (if best = 2 then uid else first_uid p (\<lambda>r. EqualFold source (row_local p r)) rows
        (if best = 1 then uid else first_uid p (\<lambda>r. \<exists>z \<in> set zeros. EqualFold source z) rows uid))"
  using assms
proof (induction rows arbitrary: best uid)
  case (Cons row rows)
  define ok where "ok = usable p row"
  define rank where "rank = row_rank source dest zeros (row_local p row) (row_remote p row)"
  have step: "search_rows p source dest zeros (row # rows) best uid =
    (if ok \<and> best < rank then if rank = 3 then row_uid p row else search_rows p source dest zeros rows rank (row_uid p row)
     else search_rows p source dest zeros rows best uid)"
    by (auto simp: ok_def usable_def rank_def row_uid_def row_local_def row_remote_def Let_def split: prod.split)
  define Z where "Z \<longleftrightarrow> (\<exists>z \<in> set zeros. EqualFold source z)"
  have rank: "rank = (if EqualFold source (row_local p row) \<and> EqualFold dest (row_remote p row) then 3
    else if EqualFold source (row_local p row) then 2 else if Z then 1 else 0)"
    by (simp add: rank_def row_rank_def Z_def)
  have best: "best = 0 \<or> best = 1 \<or> best = 2" using Cons.prems by auto
  show ?case
    unfolding step first_uid_Cons ok_def[symmetric] Z_def[symmetric]
    using best by (auto simp: rank Cons.IH[folded Z_def])
qed simp

text \<open>The zero names never have the length of an IPv4 name.\<close>

lemma nativeEndianIP_length: "nativeEndianIP big ip = Ret x \<Longrightarrow> length x = length ip"
  by (induction big ip arbitrary: x rule: nativeEndianIP.induct) (auto simp: go_bind_Ret_iff split: if_splits)

lemma nativeEndianIP_inj: "nativeEndianIP big a = Ret x \<Longrightarrow> nativeEndianIP big b = Ret x \<Longrightarrow> a = b"
proof (induction big a arbitrary: x b rule: nativeEndianIP.induct)
  case (1 big)
  with nativeEndianIP_length[OF 1(2)] show ?case by simp
next
  case (2 big c d e f r)
  then obtain t where t: "nativeEndianIP big r = Ret t" "x = (if big then [c, d, e, f] else [f, e, d, c]) @ t"
    by (auto simp: go_bind_Ret_iff)
  from 2(3) t(2) nativeEndianIP_length[OF 2(3)] obtain c' d' e' f' r' where b: "b = c' # d' # e' # f' # r'"
    by (cases "(big, b)" rule: nativeEndianIP.cases) (auto split: if_splits)
  from 2(3) t(2) have "nativeEndianIP big r' = Ret t" "c = c'" "d = d'" "e = e'" "f = f'"
    by (auto simp: b go_bind_Ret_iff split: if_splits)
  with 2(1)[OF t(1)] b show ?case by simp
qed auto

lemma socket_name_Ret: "socket_name big ip port = Ret s \<longleftrightarrow>
    (\<exists>x. nativeEndianIP big ip = Ret x \<and> s = hex_string x @ 58 # hex_string (be16 port))"
  by (auto simp: socket_name_def go_bind_Ret_iff str_def)

lemma socket_name_EqualFold:
  assumes "socket_name big a port = Ret s" "socket_name big b port = Ret t" "EqualFold s t"
  shows "a = b"
proof -
  obtain x y where x: "nativeEndianIP big a = Ret x" "s = hex_string x @ 58 # hex_string (be16 port)"
    and y: "nativeEndianIP big b = Ret y" "t = hex_string y @ 58 # hex_string (be16 port)"
    using assms(1,2) by (auto simp: socket_name_Ret)
  have "map fold_case (hex_string x) = map fold_case (hex_string y)"
    using assms(3) by (simp add: x(2) y(2) EqualFold_def)
  then have "x = y" unfolding fold_hex_string by (rule hex_string_inj)
  with x(1) y(1) nativeEndianIP_inj show ?thesis by blast
qed

text \<open>So the test on the source tells whether the source itself is unspecified.\<close>

lemma zero_source:
  assumes "socket_name big srcIP port = Ret source" "zero_names big ipProto srcIP port = Ret zeros"
    and "z \<in> set zeros" "EqualFold source z"
  shows "srcIP = replicate 16 0 \<or> srcIP = IPv4zero"
  using assms socket_name_EqualFold[OF assms(1) _ assms(4)]
  by (auto simp: zero_names_def go_bind_Ret_iff split: if_splits)

lemma zero_names_iff:
  assumes "socket_name big srcIP port = Ret source"
  shows "\<exists>zeros. zero_names big ipProto srcIP port = Ret zeros \<and>
    ((\<exists>z \<in> set zeros. EqualFold source z) \<longleftrightarrow> ipProto = 17 \<and> (srcIP = replicate 16 0 \<or> srcIP = IPv4zero))"
proof -
  have "\<exists>z. socket_name big (replicate 16 0) port = Ret z" "\<exists>z. socket_name big IPv4zero port = Ret z"
    by (simp_all add: socket_name_def IPv4zero_def numeral_eq_Suc)
  then obtain z6 z4 where z: "socket_name big (replicate 16 0) port = Ret z6" "socket_name big IPv4zero port = Ret z4"
    by blast
  have len: "srcIP = replicate 16 0 \<Longrightarrow> length srcIP \<noteq> 4" "srcIP = IPv4zero \<Longrightarrow> length srcIP \<noteq> 4 \<and> To4_bytes srcIP \<noteq> None"
    by (simp_all add: To4_bytes_def IPv4zero_def)
  obtain zeros where zs: "zero_names big ipProto srcIP port = Ret zeros" "ipProto \<noteq> 17 \<Longrightarrow> zeros = []"
    "ipProto = 17 \<Longrightarrow> srcIP = replicate 16 0 \<Longrightarrow> z6 \<in> set zeros" "ipProto = 17 \<Longrightarrow> srcIP = IPv4zero \<Longrightarrow> z4 \<in> set zeros"
  proof (cases "ipProto = 17")
    case True
    with z len that[of "if length srcIP = 4 then [z4] else if To4_bytes srcIP \<noteq> None then [z6, z4] else [z6]"]
    show thesis by (simp add: zero_names_def)
  qed (use that[of "[]"] in \<open>simp add: zero_names_def\<close>)
  have "(\<exists>z \<in> set zeros. EqualFold source z) \<longleftrightarrow> ipProto = 17 \<and> (srcIP = replicate 16 0 \<or> srcIP = IPv4zero)"
  proof
    assume "\<exists>z \<in> set zeros. EqualFold source z"
    then have "zeros \<noteq> []" "srcIP = replicate 16 0 \<or> srcIP = IPv4zero" using zero_source[OF assms zs(1)] by auto
    with zs(2) show "ipProto = 17 \<and> (srcIP = replicate 16 0 \<or> srcIP = IPv4zero)" by blast
  next
    assume u: "ipProto = 17 \<and> (srcIP = replicate 16 0 \<or> srcIP = IPv4zero)"
    with assms z have "source = z6 \<and> srcIP = replicate 16 0 \<or> source = z4 \<and> srcIP = IPv4zero" by auto
    with zs(3,4) u EqualFold_refl[of source] show "\<exists>z \<in> set zeros. EqualFold source z" by blast
  qed
  with zs(1) show ?thesis by blast
qed

section \<open>Properties\<close>

text \<open>
  C22: The search of a table finds the owner of the first usable row with both addresses of the socket,
  if there is one; else of the first with its local address; else, when the socket is UDP and its own
  address is unspecified, of the first usable row whatever it is; else nothing (-1). A usable row has all
  the columns and a number as owner.
\<close>

theorem procfs_best_row:
  assumes n: "socket_name (bigEndian p) srcIP srcPort = Ret source" "socket_name (bigEndian p) dstIP dstPort = Ret dest"
    and f: "fs path = Some rows"
  shows "querySocketUidFromProcFsInternal p fs path ipProto srcIP srcPort dstIP dstPort = Ret
    (first_uid p (\<lambda>r. EqualFold source (row_local p r) \<and> EqualFold dest (row_remote p r)) rows
      (first_uid p (\<lambda>r. EqualFold source (row_local p r)) rows
        (if ipProto = 17 \<and> (srcIP = replicate 16 0 \<or> srcIP = IPv4zero) then first_uid p (\<lambda>_. True) rows (- 1) else - 1)))"
proof -
  define u where "u \<longleftrightarrow> ipProto = 17 \<and> (srcIP = replicate 16 0 \<or> srcIP = IPv4zero)"
  obtain zeros where zs: "zero_names (bigEndian p) ipProto srcIP srcPort = Ret zeros"
    and iff: "(\<exists>z \<in> set zeros. EqualFold source z) = u"
    using zero_names_iff[OF n(1), of ipProto] unfolding u_def[symmetric] by blast
  have "querySocketUidFromProcFsInternal p fs path ipProto srcIP srcPort dstIP dstPort =
    Ret (search_rows p source dest zeros rows 0 (- 1))"
    by (simp only: querySocketUidFromProcFsInternal_def n f zs go_bind.simps option.case)
  also have "search_rows p source dest zeros rows 0 (- 1) =
    first_uid p (\<lambda>r. EqualFold source (row_local p r) \<and> EqualFold dest (row_remote p r)) rows
      (first_uid p (\<lambda>r. EqualFold source (row_local p r)) rows (first_uid p (\<lambda>_. u) rows (- 1)))"
    using search_rows_from[of 0 p source dest zeros rows "- 1"] unfolding iff by simp
  finally show ?thesis unfolding u_def[symmetric] by (cases u) simp_all
qed

definition proc_tcp_header :: bytes where
  "proc_tcp_header = str ''  sl  local_address rem_address   st tx_queue rx_queue tr tm->when retrnsmt   uid  timeout inode''"

definition proc_udp_row :: bytes where
  "proc_udp_row = str ''  70: 00000000:1F90 00000000:0000 07 00000000:00000000 00:00000000 00000000 10042        0 31337 2''"

definition linux_columns :: procfs where
  "linux_columns = \<lparr>netIndexOfLocal = 1, netIndexOfRemote = 2, netIndexOfUid = 7, netIndexOfInode = 9, bigEndian = False\<rparr>"

lemma initOnce_linux: "initOnce False (\<lambda>_. Some [proc_tcp_header]) = linux_columns"
  by code_simp

lemma proc_fields:
  "Fields proc_tcp_header = map str [''sl'', ''local_address'', ''rem_address'', ''st'', ''tx_queue'', ''rx_queue'', ''tr'',
     ''tm->when'', ''retrnsmt'', ''uid'', ''timeout'', ''inode'']"
  "Fields proc_udp_row = map str [''70:'', ''00000000:1F90'', ''00000000:0000'', ''07'', ''00000000:00000000'', ''00:00000000'',
     ''00000000'', ''10042'', ''0'', ''31337'', ''2'']"
  by code_simp+

lemma proc_rows:
  "\<not> usable linux_columns proc_tcp_header" "usable linux_columns proc_udp_row" "row_uid linux_columns proc_udp_row = 10042"
proof -
  have a: "snd (Atoi (str ''tm->when'')) = False" "Atoi (str ''10042'') = (10042, True)"
    by (simp_all add: Atoi_def str_def Let_def)
  show "\<not> usable linux_columns proc_tcp_header" "usable linux_columns proc_udp_row" "row_uid linux_columns proc_udp_row = 10042"
    by (simp_all add: usable_def row_uid_def proc_fields linux_columns_def a to_int32_id)
qed

theorem procfs_best_row_witness:
  "querySocketUidFromProcFsInternal linux_columns (\<lambda>_. Some [proc_tcp_header, proc_udp_row]) [] 17
     (replicate 16 0) 53 (replicate 16 0) 53 = Ret 10042"
proof -
  let ?s = "str ''00000000000000000000000000000000:0035''"
  have n: "socket_name (bigEndian linux_columns) (replicate 16 0) 53 = Ret ?s" by code_simp
  have ne: "\<not> EqualFold ?s (row_local linux_columns proc_udp_row)" by code_simp
  show ?thesis
    by (subst procfs_best_row[OF n n, where rows = "[proc_tcp_header, proc_udp_row]"])
      (simp_all only: first_uid_Cons first_uid_Nil proc_rows ne if_True if_False simp_thms)
qed

text \<open>
  A UDP socket bound to the unspecified address is never found for a packet of a specified source:
  when no row has the source as its local address, the search of a table finds nothing, whatever rows
  of unspecified addresses and the same port it has.
\<close>

theorem procfs_unbound_udp:
  assumes n: "socket_name (bigEndian p) srcIP srcPort = Ret source" "socket_name (bigEndian p) dstIP dstPort = Ret dest"
    and f: "fs path = Some rows" and u: "srcIP \<noteq> replicate 16 0" "srcIP \<noteq> IPv4zero"
    and rows: "\<forall>row \<in> set rows. \<not> EqualFold source (row_local p row)"
  shows "querySocketUidFromProcFsInternal p fs path ipProto srcIP srcPort dstIP dstPort = Ret (- 1)"
proof -
  obtain zeros where zs: "zero_names (bigEndian p) ipProto srcIP srcPort = Ret zeros"
    and none: "\<not> (\<exists>z \<in> set zeros. EqualFold source z)"
    using zero_names_iff[OF n(1), of ipProto] u by blast
  have "search_rows p source dest zeros rows 0 (- 1) = - 1"
    using search_rows_from[of 0 p source dest zeros rows "- 1"] rows none by (simp add: first_uid_none)
  then show ?thesis
    by (simp only: querySocketUidFromProcFsInternal_def n f zs go_bind.simps option.case)
qed

theorem procfs_unbound_udp_witness:
  "row_local linux_columns proc_udp_row = str ''00000000:1F90'' \<and>
   querySocketUidFromProcFsInternal linux_columns (\<lambda>_. Some [proc_tcp_header, proc_udp_row]) [] 17
     [10, 0, 0, 1] 8080 [1, 1, 1, 1] 443 = Ret (- 1)"
proof -
  let ?s = "str ''0100000a:1f90''"
  have n: "socket_name (bigEndian linux_columns) [10, 0, 0, 1] 8080 = Ret ?s"
    "socket_name (bigEndian linux_columns) [1, 1, 1, 1] 443 = Ret (str ''01010101:01bb'')" by code_simp+
  have l: "row_local linux_columns proc_udp_row = str ''00000000:1F90''" by code_simp
  have ne: "\<forall>row \<in> set [proc_tcp_header, proc_udp_row]. \<not> EqualFold ?s (row_local linux_columns row)" by code_simp
  have u: "[10, 0, 0, 1] \<noteq> replicate 16 (0 :: byte)" "[10, 0, 0, 1] \<noteq> IPv4zero" by code_simp+
  from procfs_unbound_udp[OF n _ u ne, of "\<lambda>_. Some [proc_tcp_header, proc_udp_row]" "[]" 17] l show ?thesis by simp
qed

end
