(* ===== verification/Tun2ray.thy ===== *)
theory Tun2ray
  imports TCP_NAT
begin

text \<open>
  The tunnel the Java side makes (\<^verbatim>\<open>tun.go\<close>): what it opens and leaves open, and what its two
  handlers decide of a new connection and a new UDP session: whether to refuse it, the tag and owner it is
  given, what is sniffed, and what is opened, registered and closed on the way. The core, the device and
  the operating system are arguments, by what they return.
\<close>

section \<open>The tunnel\<close>

record Tun2ray =
  dns4 :: Addr
  dns6 :: "Addr option"
  fakedns :: bool
  sniffing :: bool
  overrideDestination :: bool
  dumpUID :: bool
  trafficStats :: bool
  selfUID :: int
  blockedUIDs :: "int set option"

definition GetTrafficStatsEnabled :: "Tun2ray \<Rightarrow> bool" where
  "GetTrafficStatsEnabled t = trafficStats t"

record TunConfig =
  cfg_Addr4 :: bytes
  cfg_Addr6 :: bytes
  cfg_Dns4 :: bytes
  cfg_Dns6 :: bytes
  cfg_Implementation :: int
  cfg_FakeDNS :: bool
  cfg_Sniffing :: bool
  cfg_OverrideDestination :: bool
  cfg_DumpUID :: bool
  cfg_TrafficStats :: bool
  cfg_PCap :: bool
  cfg_ProtectPath :: bytes
  cfg_BlockedUIDs :: "int set option"

definition NewBlockedUIDList :: "int set" where
  "NewBlockedUIDList = {}"

definition BlockedUIDList_Add :: "int \<Rightarrow> int set \<Rightarrow> int set" where
  "BlockedUIDList_Add uid l = insert uid l"

text \<open>What is open; the dialer of the process is set or not.\<close>

datatype resource = Device | PcapFile | ProtectServer | AlternativeDialer

datatype new_error = PcapError bytes | DeviceError bytes | UidDumperError bytes

text \<open>
  What the calls come to: making the file for the capture, the device, the uid dumper of the process,
  and listening for the protect server, which may fail without a trace.
\<close>

record tun_calls =
  call_pcap :: "bytes option"
  call_device :: "bytes option"
  call_uidDumper :: "bytes option"
  call_getuid :: int
  call_protectServer :: bool

text \<open>The addresses are parsed by \<^verbatim>\<open>netip.MustParseAddr\<close>, which panics.\<close>

definition NewTun2ray ::
  "(bytes \<Rightarrow> Addr option) \<Rightarrow> bool \<Rightarrow> tun_calls \<Rightarrow> TunConfig \<Rightarrow> ((new_error + Tun2ray) \<times> resource list) go" where
  "NewTun2ray parse resolver calls config =
     (if \<not> resolver then Panic
      else case (parse (cfg_Addr4 config), parse (cfg_Addr6 config), parse (cfg_Dns4 config)) of
          (Some _, Some _, Some d4) \<Rightarrow>
            if length (cfg_Dns6 config) > 0 \<and> parse (cfg_Dns6 config) = None then Panic
            else
              let t = \<lparr>dns4 = d4, dns6 = (if length (cfg_Dns6 config) > 0 then parse (cfg_Dns6 config) else None),
                    fakedns = cfg_FakeDNS config, sniffing = cfg_Sniffing config,
                    overrideDestination = cfg_OverrideDestination config, dumpUID = cfg_DumpUID config,
                    trafficStats = cfg_TrafficStats config, selfUID = 0, blockedUIDs = None\<rparr>;
                  pcap = (cfg_Implementation config = 0 \<and> cfg_PCap config);
                  device = (cfg_Implementation config = 0 \<or> cfg_Implementation config = 1);
                  files = (if pcap then [PcapFile] else []);
                  opened = files @ (if device then [Device] else []);
                  dumper = (cfg_DumpUID config \<or> cfg_TrafficStats config \<or> cfg_BlockedUIDs config \<noteq> None)
              in if pcap \<and> call_pcap calls \<noteq> None then Ret (Inl (PcapError (the (call_pcap calls))), [])
                 else if device \<and> call_device calls \<noteq> None then Ret (Inl (DeviceError (the (call_device calls))), files)
                 else if dumper \<and> call_uidDumper calls \<noteq> None then Ret (Inl (UidDumperError (the (call_uidDumper calls))), opened)
                 else Ret (Inr (t\<lparr>selfUID := (if dumper then call_getuid calls else 0), blockedUIDs := cfg_BlockedUIDs config\<rparr>),
                   opened @ (if length (cfg_ProtectPath config) > 0 \<and> call_protectServer calls then [ProtectServer] else []) @ [AlternativeDialer])
        | _ \<Rightarrow> Panic)"

datatype close_event = UnsetDialer | CloseDevice | Cancel nat | CloseProtectServer

text \<open>\<open>Close\<close>, with the registered connections in order.\<close>

definition tun_Close :: "bool \<Rightarrow> bool \<Rightarrow> nat list \<Rightarrow> close_event list" where
  "tun_Close device protectServer connections =
     [UnsetDialer] @ (if device then [CloseDevice] else []) @ map Cancel connections @
     (if protectServer then [CloseProtectServer] else [])"

section \<open>What a handler decides\<close>

record inbound =
  Tag :: bytes
  UID :: "int option"

record sniffing_request =
  MetadataOnly :: bool
  RouteOnly :: bool
  OverrideDestinationForProtocol :: "bytes list"

datatype refusal = WrongDNSPort | BlockedUID int

text \<open>A destination is an address and a port.\<close>

definition is_dns :: "Tun2ray \<Rightarrow> AddrPort \<Rightarrow> bool" where
  "is_dns t dest \<longleftrightarrow> fst dest = dns4 t \<or> dns6 t = Some (fst dest)"

definition needs_uid :: "Tun2ray \<Rightarrow> bool" where
  "needs_uid t \<longleftrightarrow> dumpUID t \<or> trafficStats t \<or> blockedUIDs t \<noteq> None"

definition sniffing_for :: "Tun2ray \<Rightarrow> bytes list \<Rightarrow> AddrPort \<Rightarrow> sniffing_request option" where
  "sniffing_for t protocols dest =
     (if \<not> is_dns t dest \<and> (sniffing t \<or> fakedns t)
      then Some \<lparr>MetadataOnly = fakedns t \<and> \<not> sniffing t, RouteOnly = \<not> overrideDestination t,
        OverrideDestinationForProtocol = (if fakedns t then [str ''fakedns''] else []) @ (if sniffing t then protocols else [])\<rparr>
      else None)"

text \<open>
  The common beginning of the handlers: \<open>dump\<close> is the owner of the socket, \<open>None\<close> when asking for it
  fails. The owner is 0 where nobody asks.
\<close>

definition decide ::
  "Tun2ray \<Rightarrow> bytes list \<Rightarrow> int option \<Rightarrow> AddrPort \<Rightarrow> refusal + inbound \<times> sniffing_request option \<times> int" where
  "decide t protocols dump dest =
     (if is_dns t dest \<and> snd dest \<noteq> 53 then Inl WrongDNSPort
      else let tag = (if is_dns t dest then str ''dns-in'' else str ''tun'');
               u = (case dump of Some u \<Rightarrow> u | None \<Rightarrow> - 1)
           in if needs_uid t
              then (case blockedUIDs t of
                  Some blocked \<Rightarrow>
                    if u \<in> blocked then Inl (BlockedUID u)
                    else Inr (\<lparr>Tag = tag, UID = Some u\<rparr>, sniffing_for t protocols dest, u)
                | None \<Rightarrow> Inr (\<lparr>Tag = tag, UID = Some u\<rparr>, sniffing_for t protocols dest, u))
              else Inr (\<lparr>Tag = tag, UID = None\<rparr>, sniffing_for t protocols dest, 0))"

datatype handler_event =
    CloseApp
  | StatsBegin int
  | StatsEnd int
  | Register
  | Unregister
  | Dial inbound "sniffing_request option"
  | DialFailed
  | Relay
  | CloseProxy
  | DeleteSession
  | CloseQueue

definition counted :: "Tun2ray \<Rightarrow> int \<Rightarrow> bool" where
  "counted t uid \<longleftrightarrow> trafficStats t \<and> uid \<noteq> selfUID t"

text \<open>
  \<open>NewConnection\<close>: the deferred calls run at the end, the last first. \<open>dialled\<close> is whether the core makes
  a connection.
\<close>

definition NewConnection :: "Tun2ray \<Rightarrow> int option \<Rightarrow> bool \<Rightarrow> AddrPort \<Rightarrow> handler_event list" where
  "NewConnection t dump dialled dest =
     (case decide t [str ''http'', str ''tls''] dump dest of
        Inl _ \<Rightarrow> [CloseApp]
      | Inr (ib, req, uid) \<Rightarrow>
          let begin_stats = (if counted t uid then [StatsBegin uid] else []);
              end_stats = (if counted t uid then [StatsEnd uid] else [])
          in if \<not> dialled then begin_stats @ [Register, Dial ib req, DialFailed, CloseApp] @ end_stats
             else begin_stats @ [Register, Dial ib req, Relay, Unregister, CloseApp, CloseProxy] @ end_stats)"

text \<open>\<open>newPacket\<close>, the worker of a UDP session.\<close>

definition newPacket :: "Tun2ray \<Rightarrow> int option \<Rightarrow> bool \<Rightarrow> AddrPort \<Rightarrow> handler_event list" where
  "newPacket t dump dialled dest =
     (case decide t [str ''quic''] dump dest of
        Inl _ \<Rightarrow> [DeleteSession, CloseQueue]
      | Inr (ib, req, uid) \<Rightarrow>
          let begin_stats = (if counted t uid then [StatsBegin uid] else []);
              end_stats = (if counted t uid then [StatsEnd uid] else [])
          in if \<not> dialled then [Register, Dial ib req, DialFailed, DeleteSession, CloseQueue]
             else [Register, Dial ib req] @ begin_stats @ [Relay, DeleteSession, CloseQueue, Unregister, CloseProxy] @ end_stats)"

section \<open>Who is refused\<close>

text \<open>An owner that cannot be found counts as -1.\<close>

definition owner_of :: "int option \<Rightarrow> int" where
  "owner_of dump = (case dump of Some u \<Rightarrow> u | None \<Rightarrow> - 1)"

definition refused :: "Tun2ray \<Rightarrow> int option \<Rightarrow> AddrPort \<Rightarrow> bool" where
  "refused t dump dest \<longleftrightarrow>
     (is_dns t dest \<and> snd dest \<noteq> 53) \<or> (\<exists>blocked. blockedUIDs t = Some blocked \<and> owner_of dump \<in> blocked)"

lemma decide_refused: "refused t dump dest \<Longrightarrow> \<exists>r. decide t ps dump dest = Inl r"
  by (auto simp: refused_def owner_of_def decide_def Let_def needs_uid_def split: option.splits)

lemma decide_accepted:
  "\<not> refused t dump dest \<Longrightarrow> \<exists>ib uid. decide t ps dump dest = Inr (ib, sniffing_for t ps dest, uid) \<and>
     Tag ib = (if is_dns t dest then str ''dns-in'' else str ''tun'') \<and>
     UID ib = (if needs_uid t then Some (owner_of dump) else None)"
  by (auto simp: refused_def owner_of_def decide_def Let_def needs_uid_def split: option.splits)

lemma NewConnection_refused: "refused t dump dest \<Longrightarrow> NewConnection t dump dialled dest = [CloseApp]"
  using decide_refused[of t dump dest "[str ''http'', str ''tls'']"] by (auto simp: NewConnection_def)

lemma newPacket_refused: "refused t dump dest \<Longrightarrow> newPacket t dump dialled dest = [DeleteSession, CloseQueue]"
  using decide_refused[of t dump dest "[str ''quic'']"] by (auto simp: newPacket_def)

lemma NewConnection_accepted:
  assumes "\<not> refused t dump dest"
  obtains ib where "\<And>i r. Dial i r \<in> set (NewConnection t dump dialled dest) \<longleftrightarrow>
      i = ib \<and> r = sniffing_for t [str ''http'', str ''tls''] dest"
    "Tag ib = (if is_dns t dest then str ''dns-in'' else str ''tun'')"
    "UID ib = (if needs_uid t then Some (owner_of dump) else None)"
    "count_list (NewConnection t dump dialled dest) CloseApp = 1"
    "\<And>u. count_list (NewConnection t dump dialled dest) (StatsBegin u) = count_list (NewConnection t dump dialled dest) (StatsEnd u)"
proof -
  from decide_accepted[OF assms, of "[str ''http'', str ''tls'']"] obtain ib uid where
    d: "decide t [str ''http'', str ''tls''] dump dest = Inr (ib, sniffing_for t [str ''http'', str ''tls''] dest, uid)"
    and ib: "Tag ib = (if is_dns t dest then str ''dns-in'' else str ''tun'')"
      "UID ib = (if needs_uid t then Some (owner_of dump) else None)" by blast
  show thesis by (rule that[of ib]) (auto simp: NewConnection_def d Let_def ib)
qed

lemma newPacket_accepted:
  assumes "\<not> refused t dump dest"
  obtains ib where "\<And>i r. Dial i r \<in> set (newPacket t dump dialled dest) \<longleftrightarrow> i = ib \<and> r = sniffing_for t [str ''quic''] dest"
    "Tag ib = (if is_dns t dest then str ''dns-in'' else str ''tun'')"
    "count_list (newPacket t dump dialled dest) DeleteSession = 1" "count_list (newPacket t dump dialled dest) CloseQueue = 1"
proof -
  from decide_accepted[OF assms, of "[str ''quic'']"] obtain ib uid where
    d: "decide t [str ''quic''] dump dest = Inr (ib, sniffing_for t [str ''quic''] dest, uid)"
    and ib: "Tag ib = (if is_dns t dest then str ''dns-in'' else str ''tun'')" by blast
  show thesis by (rule that[of ib]) (auto simp: newPacket_def d Let_def ib)
qed

lemma dns_not_sniffed: "is_dns t dest \<Longrightarrow> sniffing_for t ps dest = None"
  by (simp add: sniffing_for_def)

section \<open>Properties\<close>


text \<open>A tunnel with one blocked app and the resolver 10.0.0.2, and a query of an app that is not blocked.\<close>

definition blocking_tun :: Tun2ray where
  "blocking_tun = \<lparr>dns4 = Addr4 0x0a000002, dns6 = None, fakedns = True, sniffing = True, overrideDestination = False,
     dumpUID = False, trafficStats = True, selfUID = 10000, blockedUIDs = Some {10001}\<rparr>"


text \<open>
  What an end leaves behind: a connection or session whose dialling fails stays registered, in the list
  that is only gone through on closing the tunnel, and one that is relayed does not; and a tunnel whose uid
  dumper is missing is an error, but its device stays open, the one error after which it does.
\<close>

theorem left_behind:
  assumes "Dial ib req \<in> set (NewConnection t dump dialled dest)" "NewTun2ray parse resolver calls config = Ret (Inl err, opened)"
  shows "int (count_list (NewConnection t dump dialled dest) Register) - int (count_list (NewConnection t dump dialled dest) Unregister) =
      (if dialled then 0 else 1) \<and>
    int (count_list (newPacket t dump dialled dest) Register) - int (count_list (newPacket t dump dialled dest) Unregister) =
      (if dialled then 0 else 1) \<and>
    (Device \<in> set opened \<longleftrightarrow> (\<exists>e. err = UidDumperError e) \<and> cfg_Implementation config \<in> {0, 1})"
proof -
  obtain x where "decide t [str ''http'', str ''tls''] dump dest = Inr x"
    using assms(1) by (cases "decide t [str ''http'', str ''tls''] dump dest") (auto simp: NewConnection_def)
  moreover from this obtain y where "decide t [str ''quic''] dump dest = Inr y"
    by (auto simp: decide_def Let_def split: if_splits option.splits)
  ultimately have "int (count_list (NewConnection t dump dialled dest) Register) - int (count_list (NewConnection t dump dialled dest) Unregister) =
      (if dialled then 0 else 1)"
    "int (count_list (newPacket t dump dialled dest) Register) - int (count_list (newPacket t dump dialled dest) Unregister) =
      (if dialled then 0 else 1)"
    by (auto simp: NewConnection_def newPacket_def Let_def split: prod.split)
  moreover have "Device \<in> set opened \<longleftrightarrow> (\<exists>e. err = UidDumperError e) \<and> cfg_Implementation config \<in> {0, 1}"
    using assms(2) by (auto simp: NewTun2ray_def Let_def split: if_splits option.splits)
  ultimately show ?thesis by blast
qed

theorem left_behind_witness:
  "\<exists>t config err opened. NewTun2ray (\<lambda>_. Some (Addr4 1)) True
       \<lparr>call_pcap = None, call_device = None, call_uidDumper = Some [1], call_getuid = 0, call_protectServer = True\<rparr> config = Ret (Inl err, opened) \<and>
     Device \<in> set opened \<and>
     count_list (NewConnection t None False (Addr4 2, 80)) Register = 1 \<and> count_list (NewConnection t None False (Addr4 2, 80)) Unregister = 0"
proof -
  let ?config = "\<lparr>cfg_Addr4 = [], cfg_Addr6 = [], cfg_Dns4 = [], cfg_Dns6 = [], cfg_Implementation = 1, cfg_FakeDNS = False,
    cfg_Sniffing = False, cfg_OverrideDestination = False, cfg_DumpUID = True, cfg_TrafficStats = False, cfg_PCap = False,
    cfg_ProtectPath = [], cfg_BlockedUIDs = None\<rparr>"
  let ?t = "\<lparr>dns4 = Addr4 1, dns6 = None, fakedns = False, sniffing = False, overrideDestination = False, dumpUID = False,
    trafficStats = False, selfUID = 0, blockedUIDs = None\<rparr>"
  let ?calls = "\<lparr>call_pcap = None, call_device = None, call_uidDumper = Some [1], call_getuid = 0, call_protectServer = True\<rparr>"
  have n: "NewTun2ray (\<lambda>_. Some (Addr4 1)) True ?calls ?config = Ret (Inl (UidDumperError [1]), [Device])"
    by (simp add: NewTun2ray_def)
  have c: "NewConnection ?t None False (Addr4 2, 80) = [Register, Dial \<lparr>Tag = str ''tun'', UID = None\<rparr> None, DialFailed, CloseApp]"
    by (simp add: NewConnection_def decide_def is_dns_def needs_uid_def sniffing_for_def counted_def)
  then have "Dial \<lparr>Tag = str ''tun'', UID = None\<rparr> None \<in> set (NewConnection ?t None False (Addr4 2, 80))" by simp
  from left_behind[OF this n] c have "Device \<in> set [Device]" "count_list (NewConnection ?t None False (Addr4 2, 80)) Unregister = 0"
    by simp_all
  with n c show ?thesis by (intro exI[of _ ?t] exI[of _ ?config]) simp
qed

end
