(* ===== verification/Tun_UDP.thy ===== *)
theory Tun_UDP
  imports Prelude Machine "HOL-Library.Sublist"
begin

text \<open>
  The table of UDP sessions (\<^verbatim>\<open>NewPacket\<close> and \<^verbatim>\<open>newPacket\<close> of \<^verbatim>\<open>tun.go\<close>).
  A packet of a source without a session makes a queue and a worker; the worker makes a connection, a
  sender writes the queue's packets to it, and at the end the worker takes the session out of the table
  and closes the queue. The goroutines interleave between the uses of the table, the channels and the
  connection; each is a step. Queues are numbered as they are made. A source is of type \<open>'s\<close>, a packet
  of type \<open>'p\<close>.
\<close>

section \<open>The state\<close>

text \<open>A worker refuses or dials, relays until an error, takes its session out of the table, closes its queue.\<close>

datatype 's worker = NoWorker | Setup 's | Relaying 's | Deleting 's | Closing 's | Finished

datatype sender = NoSender | Sending | Draining | Ended

record ('s, 'p) udp_sessions =
  udpTable :: "'s \<rightharpoonup> nat"
  next_queue :: nat
  packets :: "nat \<Rightarrow> 'p list"
  queue_closed :: "nat \<Rightarrow> bool"
  worker :: "nat \<Rightarrow> 's worker"
  sender :: "nat \<Rightarrow> sender"
  putting :: "(nat \<times> 'p) list"
  accepted :: "nat \<Rightarrow> 'p list"
  written :: "nat \<Rightarrow> 'p list"

definition no_sessions :: "('s, 'p) udp_sessions" where
  "no_sessions = \<lparr>udpTable = Map.empty, next_queue = 0, packets = (\<lambda>_. []), queue_closed = (\<lambda>_. False),
     worker = (\<lambda>_. NoWorker), sender = (\<lambda>_. NoSender), putting = [], accepted = (\<lambda>_. []), written = (\<lambda>_. [])\<rparr>"

section \<open>The operations\<close>

text \<open>
  The first part of \<open>NewPacket\<close>, under the table's lock: find the queue or make one. A packet of a
  session that is there is released when its owner is blocked.
\<close>

definition NewPacket_lookup :: "'s \<Rightarrow> bool \<Rightarrow> 'p \<Rightarrow> ('s, 'p) udp_sessions \<Rightarrow> ('s, 'p) udp_sessions" where
  "NewPacket_lookup source blocked p s =
     (case udpTable s source of
        Some q \<Rightarrow> if blocked then s else s\<lparr>putting := putting s @ [(q, p)]\<rparr>
      | None \<Rightarrow>
          let q = next_queue s in
          s\<lparr>udpTable := (udpTable s)(source \<mapsto> q), next_queue := Suc q, worker := (worker s)(q := Setup source),
            putting := putting s @ [(q, p)]\<rparr>)"

text \<open>
  The second: the packet goes into the channel of 16 places or, once the queue is closed, is released;
  \<open>pickPut\<close> is Go's pick when both are possible. \<open>None\<close> while neither is.
\<close>

definition NewPacket_put :: "bool \<Rightarrow> nat \<Rightarrow> 'p \<Rightarrow> (nat \<times> 'p) list \<Rightarrow> ('s, 'p) udp_sessions \<Rightarrow> ('s, 'p) udp_sessions option" where
  "NewPacket_put pickPut q p others s =
     (let s1 = s\<lparr>putting := others\<rparr>; room = length (packets s q) < 16 in
      if room \<and> (pickPut \<or> \<not> queue_closed s q)
      then Some (s1\<lparr>packets := (packets s)(q := packets s q @ [p]), accepted := (accepted s)(q := accepted s q @ [p])\<rparr>)
      else if queue_closed s q then Some s1 else None)"

text \<open>
  The worker \<open>q\<close>: it refuses the session or cannot dial, or begins to relay and starts the sender; stops
  relaying; takes the session out; closes the queue.
\<close>

definition worker_step :: "bool \<Rightarrow> nat \<Rightarrow> ('s, 'p) udp_sessions \<Rightarrow> ('s, 'p) udp_sessions option" where
  "worker_step dialled q s =
     (case worker s q of
        Setup source \<Rightarrow>
          Some (if dialled then s\<lparr>worker := (worker s)(q := Relaying source), sender := (sender s)(q := Sending)\<rparr>
                else s\<lparr>worker := (worker s)(q := Deleting source)\<rparr>)
      | Relaying source \<Rightarrow> Some (s\<lparr>worker := (worker s)(q := Deleting source)\<rparr>)
      | Deleting source \<Rightarrow> Some (s\<lparr>worker := (worker s)(q := Closing source), udpTable := (udpTable s)(source := None)\<rparr>)
      | Closing source \<Rightarrow> Some (s\<lparr>worker := (worker s)(q := Finished), queue_closed := (queue_closed s)(q := True)\<rparr>)
      | _ \<Rightarrow> None)"

text \<open>
  The sender: it writes a packet, and ends when that fails; when the queue is closed it ranges over the
  channel, releasing packets. The channel itself is never closed, so the range waits when it is empty.
\<close>

definition sender_step :: "bool \<Rightarrow> bool \<Rightarrow> nat \<Rightarrow> ('s, 'p) udp_sessions \<Rightarrow> ('s, 'p) udp_sessions option" where
  "sender_step pickClosed ok q s =
     (case sender s q of
        Sending \<Rightarrow>
          if queue_closed s q \<and> (pickClosed \<or> packets s q = []) then Some (s\<lparr>sender := (sender s)(q := Draining)\<rparr>)
          else (case packets s q of
              p # ps \<Rightarrow> Some (s\<lparr>packets := (packets s)(q := ps), written := (written s)(q := written s q @ [p]),
                sender := (sender s)(q := if ok then Sending else Ended)\<rparr>)
            | [] \<Rightarrow> None)
      | Draining \<Rightarrow>
          (case packets s q of
             p # ps \<Rightarrow> Some (s\<lparr>packets := (packets s)(q := ps)\<rparr>)
           | [] \<Rightarrow> None)
      | _ \<Rightarrow> None)"

text \<open>
  The replies of a session: what the connection gives is written back to the app, until reading or writing
  fails. A read has its bytes, the address if it is an IP address, and what the device then says; \<open>write\<close>
  is the function the packet came with. The result says whether the loop has ended.
\<close>

primrec relay_replies ::
  "('w \<Rightarrow> 'h \<Rightarrow> bytes \<Rightarrow> 'a option \<Rightarrow> 'e option \<times> 'h) \<Rightarrow> 'h \<Rightarrow> ('r + bytes \<times> 'a option \<times> 'w) list \<Rightarrow> bool \<times> 'h" where
  "relay_replies write st [] = (False, st)"
| "relay_replies write st (r # rs) =
     (case r of
        Inl e \<Rightarrow> (True, st)
      | Inr (b, addr, dev) \<Rightarrow>
          (case write dev st b addr of
             (Some e, st') \<Rightarrow> (True, st')
           | (None, st') \<Rightarrow> relay_replies write st' rs))"

section \<open>Runs\<close>

inductive udp_step :: "('s, 'p) udp_sessions \<Rightarrow> ('s, 'p) udp_sessions \<Rightarrow> bool" where
  packet_lookup: "udp_step s (NewPacket_lookup source blocked p s)"
| packet_put: "putting s = xs @ (q, p) # ys \<Longrightarrow> NewPacket_put pick q p (xs @ ys) s = Some s' \<Longrightarrow> udp_step s s'"
| worker_goes: "worker_step dialled q s = Some s' \<Longrightarrow> udp_step s s'"
| sender_goes: "sender_step pick ok q s = Some s' \<Longrightarrow> udp_step s s'"

abbreviation udp_runs :: "('s, 'p) udp_sessions \<Rightarrow> ('s, 'p) udp_sessions \<Rightarrow> bool" where
  "udp_runs \<equiv> reaches udp_step"

text \<open>A worker that still has its session in the table.\<close>

fun holds :: "'s worker \<Rightarrow> 's option" where
  "holds (Setup source) = Some source"
| "holds (Relaying source) = Some source"
| "holds (Deleting source) = Some source"
| "holds _ = None"

definition udp_inv :: "('s, 'p) udp_sessions \<Rightarrow> bool" where
  "udp_inv s \<longleftrightarrow> (\<forall>source q. udpTable s source = Some q \<longleftrightarrow> holds (worker s q) = Some source) \<and>
     (\<forall>q. next_queue s \<le> q \<longrightarrow> worker s q = NoWorker \<and> sender s q = NoSender \<and> \<not> queue_closed s q) \<and>
     (\<forall>q. queue_closed s q \<longrightarrow> worker s q = Finished) \<and>
     (\<forall>q source. worker s q = Setup source \<longrightarrow> sender s q = NoSender) \<and>
     (\<forall>q. length (packets s q) \<le> 16 \<and> prefix (written s q) (accepted s q) \<and>
        (sender s q \<noteq> Draining \<longrightarrow> accepted s q = written s q @ packets s q))"

lemma udp_inv_lookup: "udp_inv s \<Longrightarrow> udp_inv (NewPacket_lookup source blocked p s)"
  by (auto simp: udp_inv_def NewPacket_lookup_def Let_def split: option.splits) (metis option.distinct(1))

lemma udp_inv_put: "udp_inv s \<Longrightarrow> NewPacket_put pick q p others s = Some s' \<Longrightarrow> udp_inv s'"
  by (auto simp: udp_inv_def NewPacket_put_def Let_def split: if_splits)

text \<open>The worker that takes its session out is the only one that has it.\<close>

lemma udp_inv_unique: "udp_inv s \<Longrightarrow> holds (worker s q) = Some source \<Longrightarrow> holds (worker s r) = Some source \<Longrightarrow> q = r"
  unfolding udp_inv_def by (metis option.inject)

lemma udp_inv_worker:
  assumes inv: "udp_inv s" and step: "worker_step dialled q s = Some s'"
  shows "udp_inv s'"
proof (cases "worker s q")
  case (Deleting source)
  then have "udpTable s x = Some r \<longleftrightarrow> holds (worker s r) = Some x" "holds (worker s r) = Some source \<Longrightarrow> r = q" for x r
    using inv udp_inv_unique[OF inv, of q source r] by (auto simp: udp_inv_def)
  then have "udpTable s' x = Some r \<longleftrightarrow> holds (worker s' r) = Some x" for x r
    using step Deleting by (cases "x = source"; cases "r = q") (auto simp: worker_step_def)
  then show ?thesis using inv step Deleting by (auto simp: udp_inv_def worker_step_def split: if_splits)
qed (use assms in \<open>auto simp: udp_inv_def worker_step_def split: if_splits\<close>)

lemma udp_inv_sender:
  assumes "udp_inv s" "sender_step pick ok q s = Some s'"
  shows "udp_inv s'"
proof -
  have "length (packets s q) \<le> 16" "prefix (written s q) (accepted s q)"
    "sender s q \<noteq> Draining \<longrightarrow> accepted s q = written s q @ packets s q"
    using assms(1) by (auto simp: udp_inv_def)
  with assms show ?thesis
    by (cases "sender s q"; cases "packets s q") (auto simp: udp_inv_def sender_step_def split: if_splits)
qed

lemma udp_step_inv: "udp_step s s' \<Longrightarrow> udp_inv s \<Longrightarrow> udp_inv s'"
  by (induction rule: udp_step.induct) (auto intro: udp_inv_lookup udp_inv_put udp_inv_worker udp_inv_sender)

interpretation udp: machine udp_step udp_inv no_sessions
proof
  fix s s' assume "udp_inv s" "udp_step s s'"
  then show "udp_inv s'" by (rule udp_step_inv[rotated])
qed (simp add: udp_inv_def no_sessions_def)

section \<open>Properties\<close>

text \<open>
  C3: In every interleaving, a source in the table has one worker, and a worker that has not yet taken its
  session out has its source in the table: so a source never has two sessions at once. A queue in the table
  is open, so no packet is looked up into a closed one; and a session's packets are written in the order in
  which they were accepted, without loss as long as the sender lives.
\<close>

theorem udp_one_session:
  assumes "udp_runs no_sessions s"
  shows "(udpTable s source = Some q \<longleftrightarrow> holds (worker s q) = Some source) \<and>
    (udpTable s source = Some q \<longrightarrow> \<not> queue_closed s q) \<and>
    prefix (written s q) (accepted s q) \<and> (sender s q \<noteq> Draining \<longrightarrow> accepted s q = written s q @ packets s q) \<and>
    length (packets s q) \<le> 16"
proof -
  have inv: "udp_inv s" by (rule udp.reachable[OF assms])
  then have "queue_closed s q \<longrightarrow> worker s q = Finished" "udpTable s source = Some q \<longleftrightarrow> holds (worker s q) = Some source"
    by (simp_all add: udp_inv_def)
  then have "udpTable s source = Some q \<longrightarrow> \<not> queue_closed s q" by auto
  with inv show ?thesis by (simp add: udp_inv_def)
qed

lemma draining_step:
  assumes "udp_step s s'" "udp_inv s" "sender s q = Draining"
  shows "sender s' q = Draining"
  using assms
proof (induction rule: udp_step.induct)
  case (worker_goes dialled q' s s')
  then have "q = q' \<Longrightarrow> \<forall>source. worker s q \<noteq> Setup source" by (auto simp: udp_inv_def)
  with worker_goes show ?case by (auto simp: worker_step_def split: worker.splits if_splits)
qed (auto simp: NewPacket_lookup_def NewPacket_put_def sender_step_def Let_def
    split: option.splits if_splits sender.splits list.splits)

lemma draining_runs: "udp_runs s s' \<Longrightarrow> udp_inv s \<Longrightarrow> sender s q = Draining \<Longrightarrow> sender s' q = Draining"
  by (rule udp.runs_with[where P = "\<lambda>s. sender s q = Draining"]) (blast intro: draining_step)

text \<open>
  C35: The goroutine of a sender that sees its queue closed never ends: it ranges over the channel of
  packets, which nothing closes. And every session that is being relayed can come to this, whatever the
  other goroutines do: when its relaying stops and the sender is waiting for a packet, it does.
\<close>

theorem udp_sender_leaks:
  assumes "udp_runs no_sessions s" "worker s q = Relaying source" "sender s q = Sending"
  shows "\<exists>s'. udp_runs s s' \<and> worker s' q = Finished \<and> (\<forall>s''. udp_runs s' s'' \<longrightarrow> sender s'' q = Draining)"
proof -
  let ?s1 = "s\<lparr>worker := (worker s)(q := Deleting source)\<rparr>"
  let ?s2 = "?s1\<lparr>worker := (worker s)(q := Closing source), udpTable := (udpTable s)(source := None)\<rparr>"
  let ?s3 = "?s2\<lparr>worker := (worker s)(q := Finished), queue_closed := (queue_closed s)(q := True)\<rparr>"
  let ?s4 = "?s3\<lparr>sender := (sender s)(q := Draining)\<rparr>"
  have "udp_step s ?s1" "udp_step ?s1 ?s2" "udp_step ?s2 ?s3"
    by (rule worker_goes[of True q]; simp add: worker_step_def assms)+
  moreover have "udp_step ?s3 ?s4"
    by (rule sender_goes[of True True q]) (simp add: sender_step_def assms)
  ultimately have run: "udp_runs s ?s4"
    by (meson reaches_next reaches_refl)
  have "udp_inv ?s4" by (rule udp.runs[OF run udp.reachable[OF assms(1)]])
  then have "\<forall>s''. udp_runs ?s4 s'' \<longrightarrow> sender s'' q = Draining"
    by (auto intro: draining_runs)
  with run show ?thesis by (intro exI[of _ ?s4]) simp
qed

text \<open>One packet of one source, and its session dialled.\<close>

definition one_session :: "(nat, nat) udp_sessions" where
  "one_session = (case worker_step True 0 (NewPacket_lookup 7 False 1 no_sessions) of Some s \<Rightarrow> s | None \<Rightarrow> no_sessions)"

lemma one_session_runs: "udp_runs no_sessions one_session"
proof -
  have "worker_step True 0 (NewPacket_lookup 7 False 1 (no_sessions :: (nat, nat) udp_sessions)) = Some one_session"
    by (simp add: one_session_def worker_step_def NewPacket_lookup_def no_sessions_def)
  then have "udp_step (NewPacket_lookup 7 False 1 no_sessions) one_session" by (rule worker_goes)
  moreover have "udp_runs no_sessions (NewPacket_lookup 7 False 1 no_sessions)"
    by (rule reaches_next[OF reaches_refl]) (rule packet_lookup)
  ultimately show ?thesis by (blast intro: reaches_next)
qed

lemma one_session_state:
  "worker one_session 0 = Relaying 7" "sender one_session 0 = Sending" "udpTable one_session 7 = Some 0"
  by (simp_all add: one_session_def worker_step_def NewPacket_lookup_def no_sessions_def)

theorem udp_sender_leaks_witness:
  "\<exists>s'. udp_runs one_session s' \<and> worker s' 0 = Finished \<and> sender s' 0 = Draining"
proof -
  from udp_sender_leaks[OF one_session_runs one_session_state(1,2)] obtain s' where
    s': "udp_runs one_session s'" "worker s' 0 = Finished" "\<forall>s''. udp_runs s' s'' \<longrightarrow> sender s'' 0 = Draining" by blast
  moreover from s'(3) have "sender s' 0 = Draining" using reaches_refl[of udp_step s'] by simp
  ultimately show ?thesis by blast
qed

theorem udp_one_session_witness:
  "udp_runs no_sessions one_session \<and> udpTable one_session 7 = Some 0 \<and> \<not> queue_closed one_session 0"
  using udp_one_session[OF one_session_runs, of 7 0] one_session_runs one_session_state(3) by blast

end
