(* ===== verification/Tunnel.thy ===== *)
theory Tunnel
  imports GVisor Sys_Tun Procfs Tun2ray Tun_UDP
begin

text \<open>
  A TCP connection of an app on its way through the tunnel, over the parts that handle it: the system tun
  turns its packets around (\<^verbatim>\<open>nat\<close>), its listener finds the connection behind the port, the owner
  is looked for in the tables of the kernel (\<^verbatim>\<open>procfs.go\<close>), and the handler decides (\<^verbatim>\<open>tun.go\<close>).
  And the replies of a UDP session on their way back to the app.
\<close>

section \<open>The owner of a connection\<close>

text \<open>
  The dumper is asked with the addresses as text; \<open>IP_bytes\<close> is what \<^verbatim>\<open>net.ParseIP\<close> makes of the
  text of an address: 16 bytes, an IPv4 address mapped.
\<close>

definition IP_bytes :: "Addr \<Rightarrow> bytes" where
  "IP_bytes a = (case a of
     Addr4 w \<Rightarrow> replicate 10 0 @ [255, 255] @ be32 w
   | Addr16 w \<Rightarrow> be64 (ucast (drop_bit 64 w)) @ be64 (ucast w))"

definition DumpUid ::
  "bool \<Rightarrow> (bytes \<Rightarrow> bytes list option) \<Rightarrow> procfs option \<Rightarrow> int \<Rightarrow> AddrPort \<Rightarrow> AddrPort \<Rightarrow> int option" where
  "DumpUid big fs st ipProto src dst =
     (case querySocketUidFromProcFs big fs st ipProto (IP_bytes (fst src)) (snd src) (IP_bytes (fst dst)) (snd dst) of
        Ret (uid, _) \<Rightarrow> Some uid
      | _ \<Rightarrow> None)"

text \<open>What the listener does with a connection it accepts: an unknown one is closed.\<close>

definition accept_TCP ::
  "tcpForwarder \<Rightarrow> int \<Rightarrow> AddrPort \<Rightarrow> Tun2ray \<Rightarrow> (AddrPort \<Rightarrow> AddrPort \<Rightarrow> int option) \<Rightarrow> bool \<Rightarrow> handler_event list \<times> tcpForwarder" where
  "accept_TCP f now peer t dump dialled =
     (case tcp_dispatch f now peer of
        (accepted.NewConnection src dst, f') \<Rightarrow> (NewConnection t (dump src dst) dialled dst, f')
      | (_, f') \<Rightarrow> ([CloseApp], f'))"

text \<open>And what the gVisor stack does with a request for a connection: without an endpoint it is reset.\<close>

definition accept_gVisor ::
  "AddrPort \<times> AddrPort \<Rightarrow> bytes option \<Rightarrow> Tun2ray \<Rightarrow> (AddrPort \<Rightarrow> AddrPort \<Rightarrow> int option) \<Rightarrow> bool \<Rightarrow> handler_event list" where
  "accept_gVisor ident errT t dump dialled =
     concat (map (\<lambda>e. case e of CompleteRequest _ \<Rightarrow> []
        | HandlerConnection src dst \<Rightarrow> NewConnection t (dump src dst) dialled dst) (gTcp_request ident errT))"

section \<open>What the kernel says\<close>

text \<open>
  The address as it stands in the table that lists the connection: IPv4 connections are those of
  \<^verbatim>\<open>/proc/net/tcp\<close>, IPv6 ones those of \<^verbatim>\<open>/proc/net/tcp6\<close>.
\<close>

definition table_of :: "AddrPort \<Rightarrow> AddrPort \<Rightarrow> bytes" where
  "table_of src dst = (case (fst src, fst dst) of (Addr4 _, Addr4 _) \<Rightarrow> str ''/proc/net/tcp'' | _ \<Rightarrow> str ''/proc/net/tcp6'')"

definition table_bytes :: "Addr \<Rightarrow> bytes" where
  "table_bytes a = (case a of Addr4 w \<Rightarrow> be32 w | Addr16 w \<Rightarrow> IP_bytes a)"

text \<open>The kernel lists a connection of \<open>uid\<close>: the first usable row with both its ends has that owner.\<close>

definition listed :: "procfs \<Rightarrow> (bytes \<Rightarrow> bytes list option) \<Rightarrow> AddrPort \<Rightarrow> AddrPort \<Rightarrow> int \<Rightarrow> bool" where
  "listed p fs src dst uid \<longleftrightarrow> (\<exists>rows local remote row. fs (table_of src dst) = Some rows \<and>
     socket_name (bigEndian p) (table_bytes (fst src)) (snd src) = Ret local \<and>
     socket_name (bigEndian p) (table_bytes (fst dst)) (snd dst) = Ret remote \<and>
     find (\<lambda>r. usable p r \<and> EqualFold local (row_local p r) \<and> EqualFold remote (row_remote p r)) rows = Some row \<and>
     row_uid p row = uid)"

definition has_columns :: "procfs \<Rightarrow> bool" where
  "has_columns p \<longleftrightarrow> netIndexOfLocal p \<ge> 0 \<and> netIndexOfRemote p \<ge> 0 \<and> netIndexOfUid p \<ge> 0 \<and> netIndexOfInode p \<ge> 0"

text \<open>Neither address is an IPv4 address in disguise, or both are IPv4's.\<close>

definition one_family :: "Addr \<Rightarrow> Addr \<Rightarrow> bool" where
  "one_family a b \<longleftrightarrow> (case (a, b) of
     (Addr4 _, Addr4 _) \<Rightarrow> True
   | (Addr16 _, Addr16 _) \<Rightarrow> To4_bytes (IP_bytes a) = None \<and> To4_bytes (IP_bytes b) = None
   | _ \<Rightarrow> False)"

lemma To4_bytes_v4: "To4_bytes (IP_bytes (Addr4 w)) = Some (be32 w)"
  by (simp add: To4_bytes_def IP_bytes_def sub_def eval_nat_numeral)

lemma search_table_listed:
  assumes names: "socket_name (bigEndian p) srcIP srcPort = Ret local" "socket_name (bigEndian p) dstIP dstPort = Ret remote"
    and f: "fs path = Some rows"
    and row: "find (\<lambda>r. usable p r \<and> EqualFold local (row_local p r) \<and> EqualFold remote (row_remote p r)) rows = Some row"
  shows "querySocketUidFromProcFsInternal p fs path 6 srcIP srcPort dstIP dstPort = Ret (row_uid p row)"
proof -
  have z: "zero_names (bigEndian p) 6 srcIP srcPort = Ret []" by (simp add: zero_names_def)
  have "search_rows p local remote [] rows 0 (- 1) = row_uid p row"
    using search_rows_from[of 0 p local remote "[]" rows "- 1"] row by (simp add: first_uid_def)
  then show ?thesis by (simp only: querySocketUidFromProcFsInternal_def names f z go_bind.simps option.case)
qed

lemma DumpUid_listed:
  assumes st: "st = Some p" "has_columns p" and fam: "one_family (fst src) (fst dst)"
    and listed: "listed p fs src dst uid" and uid: "uid \<noteq> - 1"
  shows "DumpUid big fs st 6 src dst = Some uid"
proof -
  from listed obtain rows local remote row where l: "fs (table_of src dst) = Some rows"
    "socket_name (bigEndian p) (table_bytes (fst src)) (snd src) = Ret local"
    "socket_name (bigEndian p) (table_bytes (fst dst)) (snd dst) = Ret remote"
    "find (\<lambda>r. usable p r \<and> EqualFold local (row_local p r) \<and> EqualFold remote (row_remote p r)) rows = Some row"
    "row_uid p row = uid" by (auto simp: listed_def)
  from search_table_listed[of p _ _ local _ _ remote fs, OF l(2,3,1,4)] l(5) have q:
    "querySocketUidFromProcFsInternal p fs (table_of src dst) 6 (table_bytes (fst src)) (snd src) (table_bytes (fst dst)) (snd dst) = Ret uid"
    by simp
  have c: "\<not> (netIndexOfLocal p < 0 \<or> netIndexOfRemote p < 0 \<or> netIndexOfUid p < 0 \<or> netIndexOfInode p < 0)"
    using st(2) by (auto simp: has_columns_def)
  consider v w where "fst src = Addr4 v" "fst dst = Addr4 w" | v w where "fst src = Addr16 v" "fst dst = Addr16 w"
      "To4_bytes (IP_bytes (fst src)) = None"
    using fam by (auto simp: one_family_def split: Addr.splits)
  then show ?thesis
  proof cases
    case 1
    with q c uid show ?thesis
      by (simp add: DumpUid_def querySocketUidFromProcFs_def st(1) To4_bytes_v4 table_of_def table_bytes_def Let_def)
  next
    case 2
    have "str ''/proc/net/tcp'' @ str ''6'' = str ''/proc/net/tcp6''" by (simp add: str_def)
    with q c 2 show ?thesis
      by (simp add: DumpUid_def querySocketUidFromProcFs_def st(1) table_of_def table_bytes_def Let_def)
  qed
qed

section \<open>The way of a connection\<close>

text \<open>
  What is expected of a connection of \<open>uid\<close>: it is closed once, and dialled, in the name of the owner if
  one is looked for, unless it goes to a resolver on a wrong port or its owner is blocked.
\<close>

definition handled_right :: "Tun2ray \<Rightarrow> AddrPort \<Rightarrow> int \<Rightarrow> handler_event list \<Rightarrow> bool" where
  "handled_right t dst uid events \<longleftrightarrow> count_list events CloseApp = 1 \<and>
     (if (is_dns t dst \<and> snd dst \<noteq> 53) \<or> (\<exists>blocked. blockedUIDs t = Some blocked \<and> uid \<in> blocked)
      then \<forall>ib req. Dial ib req \<notin> set events
      else \<exists>ib req. Dial ib req \<in> set events \<and> UID ib = (if needs_uid t then Some uid else None))"

lemma NewConnection_right: "handled_right t dst uid (NewConnection t (Some uid) dialled dst)"
proof (cases "refused t (Some uid) dst")
  case True
  then show ?thesis by (auto simp: NewConnection_refused handled_right_def refused_def owner_of_def)
next
  case False
  then obtain ib where "\<And>i r. Dial i r \<in> set (NewConnection t (Some uid) dialled dst) \<longleftrightarrow>
      i = ib \<and> r = sniffing_for t [str ''http'', str ''tls''] dst"
    "UID ib = (if needs_uid t then Some (owner_of (Some uid)) else None)"
    "count_list (NewConnection t (Some uid) dialled dst) CloseApp = 1" by (rule NewConnection_accepted[where dialled = dialled]) blast
  moreover have "\<not> ((is_dns t dst \<and> snd dst \<noteq> 53) \<or> (\<exists>blocked. blockedUIDs t = Some blocked \<and> uid \<in> blocked))"
    using False by (simp add: refused_def owner_of_def)
  ultimately show ?thesis unfolding handled_right_def by (simp add: owner_of_def)
qed

lemma accept_TCP_right:
  assumes conn: "fst (tcp_dispatch f now peer) = accepted.NewConnection src dst"
    and kernel: "st = Some cols" "has_columns cols" "one_family (fst src) (fst dst)" "listed cols fs src dst uid" "uid \<noteq> - 1"
  shows "handled_right t dst uid (fst (accept_TCP f now peer t (DumpUid big fs st 6) dialled))"
proof -
  obtain f2 where "tcp_dispatch f now peer = (accepted.NewConnection src dst, f2)"
    using conn by (cases "tcp_dispatch f now peer") simp
  with DumpUid_listed[OF kernel, of big] have
    "fst (accept_TCP f now peer t (DumpUid big fs st 6) dialled) = NewConnection t (Some uid) dialled dst"
    by (simp add: accept_TCP_def)
  then show ?thesis by (simp add: NewConnection_right)
qed

lemma accept_gVisor_right:
  assumes "st = Some cols" "has_columns cols" "one_family (fst src) (fst dst)" "listed cols fs src dst uid" "uid \<noteq> - 1"
  shows "handled_right t dst uid (accept_gVisor (src, dst) None t (DumpUid big fs st 6) dialled)"
  using DumpUid_listed[OF assms, of big] NewConnection_right by (simp add: accept_gVisor_def gTcp_request_def)


text \<open>An IPv4 connection from 0.0.0.0:0 to itself, which the kernel lists under 10001.\<close>

definition listed_row :: bytes where
  "listed_row = str ''   0: 00000000:0000 00000000:0000 01 00000000:00000000 00:00000000 00000000 10001        0 31337 1''"

lemma listed_row_fields:
  "Fields listed_row = map str [''0:'', ''00000000:0000'', ''00000000:0000'', ''01'', ''00000000:00000000'', ''00:00000000'',
     ''00000000'', ''10001'', ''0'', ''31337'', ''1'']"
  by code_simp

lemma listed_row_listed:
  "listed linux_columns (\<lambda>_. Some [listed_row]) (Addr4 0, 0) (Addr4 0, 0) 10001"
proof -
  let ?n = "str ''00000000:0000''"
  have n: "socket_name (bigEndian linux_columns) (be32 0) 0 = Ret ?n" by code_simp
  have a: "Atoi (str ''10001'') = (10001, True)" by (simp add: Atoi_def str_def Let_def)
  have u: "usable linux_columns listed_row" "row_uid linux_columns listed_row = 10001"
    by (simp_all add: usable_def row_uid_def listed_row_fields linux_columns_def a to_int32_id)
  have "row_local linux_columns listed_row = ?n" "row_remote linux_columns listed_row = ?n"
    by (simp_all add: row_local_def row_remote_def listed_row_fields linux_columns_def)
  moreover have "EqualFold ?n ?n" by code_simp
  ultimately show ?thesis using n u by (simp add: listed_def table_of_def table_bytes_def)
qed


section \<open>The replies of a UDP session\<close>

text \<open>
  The function a packet comes with, writing to the device: what it holds, and what it has written. A packet
  the device refuses is not written.
\<close>

definition reply_write ::
  "header \<Rightarrow> bytes option \<Rightarrow> udp_reply \<times> bytes list \<Rightarrow> bytes \<Rightarrow> AddrPort option \<Rightarrow> bytes option \<times> udp_reply \<times> bytes list" where
  "reply_write h dev st data addr =
     (case writeBack4 h (fst st) dev data addr of
        ((_, err), q, u) \<Rightarrow> (err, u, if dev = None then snd st @ [q] else snd st))"

text \<open>A packet that carries a reply: the data behind a head of \<open>n\<close> bytes, with the right ends.\<close>

definition carries_reply :: "header \<Rightarrow> nat \<Rightarrow> AddrPort \<Rightarrow> AddrPort \<Rightarrow> bytes \<times> AddrPort option \<Rightarrow> bytes \<Rightarrow> bool" where
  "carries_reply h n src dst r packet \<longleftrightarrow> (\<exists>q. packet = q @ fst r \<and> length q = n \<and>
     Sys_Tun.fields h q = (case snd r of Some a \<Rightarrow> a | None \<Rightarrow> dst, src))"

lemma relay_replies_written:
  assumes laws: "header_laws h ok fam" and fam: "\<forall>(b, a) \<in> set rs. \<forall>x \<in> set_option a. fam (fst x)" "fam (fst (ur_destination u))"
    and u: "ok (ur_header u)" "Sys_Tun.fields h (ur_header u) = (x, ur_source u)"
    and stop: "tail = [] \<or> (\<exists>e more. tail = Inl e # more) \<or> (\<exists>b a e more. tail = Inr (b, a, Some e) # more)"
  shows "\<exists>out u'. relay_replies (reply_write h) (u, ws) (map (\<lambda>(b, a). Inr (b, a, None)) rs @ tail) = (tail \<noteq> [], u', ws @ out) \<and>
    list_all2 (carries_reply h (length (ur_header u)) (ur_source u) (ur_destination u)) rs out"
  using fam u
proof (induction rs arbitrary: u x ws)
  case Nil
  then show ?case using stop
    by (auto simp: reply_write_def writeBack4_def write_result_def Let_def)
next
  case (Cons r rs)
  obtain b a where r: "r = (b, a)" by (cases r)
  have f: "fam (fst (case a of Some y \<Rightarrow> y | None \<Rightarrow> ur_destination u))" using Cons.prems(1,2) r by (cases a) auto
  from writeBack4_fields[OF laws Cons.prems(3,4) f, of None b] obtain q where
    q: "writeBack4 h u None b a = (write_result b None, q @ b, u\<lparr>ur_header := q\<rparr>)" "ok q" "length q = length (ur_header u)"
    "Sys_Tun.fields h q = ((case a of Some y \<Rightarrow> y | None \<Rightarrow> ur_destination u), ur_source u)" by blast
  have rest: "\<forall>(b, a) \<in> set rs. \<forall>x \<in> set_option a. fam (fst x)" using Cons.prems(1) by simp
  from Cons.IH[of "u\<lparr>ur_header := q\<rparr>" _ "ws @ [q @ b]", OF rest] Cons.prems(2) q(2,4) obtain out u' where
    o: "relay_replies (reply_write h) (u\<lparr>ur_header := q\<rparr>, ws @ [q @ b]) (map (\<lambda>(b, a). Inr (b, a, None)) rs @ tail) =
      (tail \<noteq> [], u', (ws @ [q @ b]) @ out)"
    "list_all2 (carries_reply h (length q) (ur_source u) (ur_destination u)) rs out" by auto
  have "carries_reply h (length (ur_header u)) (ur_source u) (ur_destination u) r (q @ b)"
    unfolding carries_reply_def r using q(3,4) by auto
  moreover have "reply_write h None (u, ws) b a = (None, u\<lparr>ur_header := q\<rparr>, ws @ [q @ b])"
    using q(1) by (simp add: reply_write_def write_result_def)
  ultimately show ?case using o q(3)
    by (intro exI[of _ "(q @ b) # out"] exI[of _ u']) (simp add: r)
qed



end
