(* ===== verification/Protocol_Types.thy ===== *)
theory Protocol_Types
  imports Protocol_Conn Machine
begin

text \<open>
  Type soundness of the protocols. The dispatch over an interface value hides which fields of a
  state are nil and how long its byte slices are; the typing judgement \<open>has_type\<close> says what each
  protocol's state holds between two calls, and the properties are progress and preservation: calls of
  \<open>Encode\<close> and \<open>Decode\<close>, in any order and with any arguments, keep the type, \<open>Encode\<close> always
  returns, and a \<open>Decode\<close> that panics has met one of the frames of \<open>malformed\<close>.
\<close>

section \<open>The loops, over a set of states\<close>

text \<open>A packer that returns on a set of states and stays in it makes \<open>Encode\<close>'s loop do so.\<close>

lemma encode_loop_total:
  assumes pack: "\<And>s buf x. I s \<Longrightarrow> \<exists>s' buf' x'. pack s buf x = Ret (s', buf', x') \<and> I s' \<and> length x' = length x"
    and s: "I s"
  shows "\<exists>s' buf' b'. encode_loop limit pack s buf b = Ret (s', buf', b') \<and> I s' \<and> length b' = length b"
  using s
proof (induction "length b" arbitrary: b s buf rule: less_induct)
  case less
  show ?case
  proof (cases "0 < limit \<and> limit < length b")
    case True
    from pack[OF less.prems] obtain s1 buf1 x1 where p: "pack s buf (take limit b) = Ret (s1, buf1, x1)" "I s1"
      "length x1 = length (take limit b)" by blast
    from True have "0 < limit" "limit < length b" by auto
    then have "length (drop limit b) < length b" by simp
    from less.hyps[OF this p(2)] obtain s2 buf2 y where
      q: "encode_loop limit pack s1 buf1 (drop limit b) = Ret (s2, buf2, y)" "I s2" "length y = length (drop limit b)"
      by blast
    from encode_loop_step[OF _ _ p(1) q(1)] True p(3) q(2,3) show ?thesis by auto
  next
    case False
    with less.prems pack show ?thesis
      by (cases "b = []") (auto simp: encode_loop.simps[of limit pack s buf b])
  qed
qed

context frame_decoder
begin

lemma decode_loop_keeps:
  assumes run: "decode_loop body st dst s = Ret res"
    and step: "\<And>st s st' out n e. I st \<Longrightarrow> body st s \<in> {Wait st', Fail e st', Frame st' out n} \<Longrightarrow> I st'"
    and st: "I st"
  shows "I (fst (snd res))"
  using run st
proof (induction rule: decode_loop_rounds)
  case (Frame st dst s st' out n res)
  from step[OF Frame(6), of s] Frame(2) have "I st'" by blast
  with Frame(5) show ?case .
next
  case (Wait st dst s st')
  from step[OF Wait(3), of s] Wait(2) show ?case by auto
next
  case (Fail st dst s st' e)
  from step[OF Fail(3), of s] Fail(2) show ?case by auto
qed auto

lemma decode_loop_panics:
  assumes "decode_loop body st dst s = Panic"
    and step: "\<And>st s st' out n. I st \<Longrightarrow> body st s = Frame st' out n \<Longrightarrow> I st'"
    and "I st"
  shows "\<exists>q n. I q \<and> 4 < length (drop n s) \<and> body q (drop n s) = Crash"
  using assms(1,3)
proof (induction "length s" arbitrary: s st dst rule: less_induct)
  case less
  show ?case
  proof (cases "4 < length s")
    case long: True
    show ?thesis
    proof (cases "body st s")
      case Crash
      with less.prems long show ?thesis by (intro exI[of _ st] exI[of _ 0]) simp
    next
      case (Frame st' out n)
      from frame_consumes[OF long Frame] have n: "0 < n" "n \<le> length s" by auto
      from less.prems(1) have p: "decode_loop body st' (dst @ out) (drop n s) = Panic"
        unfolding loop_Frame[OF long Frame n(1)] .
      from n long have "length (drop n s) < length s" by simp
      from less.hyps[OF this p step[OF less.prems(2) Frame]]
      obtain q k where "I q" "4 < length (drop k (drop n s))" "body q (drop k (drop n s)) = Crash" by blast
      then show ?thesis unfolding drop_drop by blast
    qed (use less.prems long in \<open>simp_all add: loop_rules\<close>)
  qed (use less.prems in simp)
qed

lemma decode_keeps:
  assumes run: "decode_with raw body st dst s = Ret (e, st', dst', r)"
    and step: "\<And>st s st' out n e. I st \<Longrightarrow> body st s \<in> {Wait st', Fail e st', Frame st' out n} \<Longrightarrow> I st'"
    and st: "I st"
  shows "I st'"
proof (cases "raw st")
  case False
  with run have "decode_loop body st dst s = Ret (e, st', dst', r)" by (simp add: decode_with_def)
  from decode_loop_keeps[where I = I, OF this step st] show ?thesis by simp
qed (use run st in \<open>simp add: decode_with_def\<close>)

lemma decode_panics:
  assumes "decode_with raw body st dst s = Panic"
    and step: "\<And>st s st' out n. I st \<Longrightarrow> body st s = Frame st' out n \<Longrightarrow> I st'"
    and "I st"
  shows "\<exists>q n. I q \<and> 4 < length (drop n s) \<and> body q (drop n s) = Crash"
proof -
  from assms(1) have "decode_loop body st dst s = Panic" by (simp add: decode_with_def split: if_splits)
  then show ?thesis using step assms(3) by (rule decode_loop_panics)
qed

end

section \<open>The types\<close>

text \<open>One for each registered name.\<close>

datatype proto_type = T_origin | T_sha1_v4 | T_aes128_sha1 | T_aes128_md5 | T_chain_a | T_chain_b

primrec type_name :: "proto_type \<Rightarrow> bytes" where
  "type_name T_origin = str ''origin''"
| "type_name T_sha1_v4 = str ''auth_sha1_v4''"
| "type_name T_aes128_sha1 = str ''auth_aes128_sha1''"
| "type_name T_aes128_md5 = str ''auth_aes128_md5''"
| "type_name T_chain_a = str ''auth_chain_a''"
| "type_name T_chain_b = str ''auth_chain_b''"

text \<open>
  A chain connection that has sent its opening packet has both ciphers and both hashes; before that the
  server's hash is nil. Its key and user data are the connection's, as \<open>b\<close> and \<open>u\<close> say.
\<close>

definition chain_typed :: "Base \<Rightarrow> userData \<Rightarrow> authChainA \<Rightarrow> bool" where
  "chain_typed b u a \<longleftrightarrow> ch_Base a = b \<and> ch_userData a = u \<and>
     (if ch_hasSentHeader a
      then encrypter a \<noteq> None \<and> decrypter a \<noteq> None \<and> length (lastClientHash a) = 16 \<and> length (lastServerHash a) = 16
      else lastServerHash a = [])"

fun has_type :: "Base \<Rightarrow> userData \<Rightarrow> protocol \<Rightarrow> proto_type \<Rightarrow> bool" where
  "has_type b u Origin T_origin = True"
| "has_type b u (AuthSHA1V4 a) T_sha1_v4 = (s4_Base a = b)"
| "has_type b u (AuthAES128 a) T_aes128_sha1 = (ae_fn a = aes128_sha1 \<and> ae_Base a = b \<and> ae_userData a = u)"
| "has_type b u (AuthAES128 a) T_aes128_md5 = (ae_fn a = aes128_md5 \<and> ae_Base a = b \<and> ae_userData a = u)"
| "has_type b u (AuthChainA a) T_chain_a = (chain_typed b u a \<and> randDataLength a = Some RandLengthA)"
| "has_type b u (AuthChainB a) T_chain_b = (chain_typed b u a \<and>
     (case randDataLength a of Some (RandLengthB l1 l2) \<Rightarrow> sizes_ok l1 \<and> sizes_ok l2 | _ \<Rightarrow> False))"
| "has_type b u _ _ = False"

text \<open>
  The frames a typed state panics on: data that would start past the end of a frame, in a frame that has
  passed the checksum, or both MACs of the AES protocols; for the chains any frame before the opening packet is sent, and
  data shorter than the two bytes the frame numbered 1 loses.
\<close>

primrec malformed :: "protocol \<Rightarrow> bytes \<Rightarrow> bool" where
  "malformed Origin s = False"
| "malformed (AuthSHA1V4 a) s =
     (let len = unat (rd_be16 (take 2 s))
      in len < s4_pos s + 4 \<and> Adler32 (take (len - 4) s) = rd_le32 (sub (len - 4) 4 s))"
| "malformed (AuthAES128 a) s =
     (let key = ae_userKey a @ le32 (recvID a); len = unat (rd_le16 (take 2 s))
      in len < ae_pos s + 4 \<and> take 2 (ae_hmac a key (take 2 s)) = sub 2 2 s \<and>
         take 4 (ae_hmac a key (take (len - 4) s)) = sub (len - 4) 4 s)"
| "malformed (AuthChainA a) s =
     (ch_hasSentHeader a \<longrightarrow>
        ch_recvID a = 1 \<and> unat (rd_le16 (take 2 s) XOR rd_le16 (sub 14 2 (lastServerHash a))) < 2)"
| "malformed (AuthChainB a) s =
     (ch_hasSentHeader a \<longrightarrow>
        ch_recvID a = 1 \<and> unat (rd_le16 (take 2 s) XOR rd_le16 (sub 14 2 (lastServerHash a))) < 2)"

text \<open>The calls a connection makes of its protocol, with any arguments.\<close>

inductive proto_call :: "protocol \<Rightarrow> protocol \<Rightarrow> bool" where
  call_Encode: "proto_Encode p now r buf b = Ret ((p', r'), buf', b') \<Longrightarrow> proto_call p p'"
| call_Decode: "proto_Decode p dst src = Ret (e, p', dst', src') \<Longrightarrow> proto_call p p'"

section \<open>auth_sha1_v4 and auth_aes128\<close>

lemma s4_frame_keeps:
  "s4_frame a s \<in> {Wait a', Fail e a', Frame a' out n} \<Longrightarrow> s4_Base a' = s4_Base a"
  by (auto simp: s4_frame_def Let_def split: if_splits option.splits)

lemma ae_frame_keeps:
  "ae_frame a s \<in> {Wait a', Fail e a', Frame a' out n} \<Longrightarrow>
   ae_fn a' = ae_fn a \<and> ae_Base a' = ae_Base a \<and> ae_userData a' = ae_userData a"
  by (auto simp: ae_frame_def Let_def split: if_splits option.splits)

lemma s4_frame_Crash: "s4_frame a s = Crash \<Longrightarrow> malformed (AuthSHA1V4 a) s"
  by (auto simp: s4_frame_def Let_def slice_None_iff split: if_splits option.splits)

lemma ae_frame_Crash: "ae_frame a s = Crash \<Longrightarrow> malformed (AuthAES128 a) s"
  by (auto simp: ae_frame_def Let_def slice_None_iff split: if_splits option.splits)

lemma s4_Encode_typed:
  "\<exists>a' r' buf' x. s4_Encode a now r buf b = Ret ((a', r'), buf', x) \<and> s4_Base a' = s4_Base a \<and> length x = length b"
proof -
  have loop: "\<exists>s' buf' x. encode_loop 8100 s4_packData s buf b = Ret (s', buf', x) \<and>
      s4_Base (fst s') = s4_Base a \<and> length x = length b"
    if "s4_Base (fst s) = s4_Base a" for s buf b
    by (rule encode_loop_total[where I = "\<lambda>s. s4_Base (fst s) = s4_Base a", OF _ that])
      (auto simp: s4_packData_def Let_def split: prod.split)
  show ?thesis
  proof (cases "s4_hasSentHeader a")
    case True
    with loop[of "(a, r)" buf b] show ?thesis by (fastforce simp: s4_Encode_def)
  next
    case False
    obtain n r1 where n: "getDataLength b r = (n, r1)" by (cases "getDataLength b r")
    obtain buf1 r2 where p: "s4_packAuthData a now r1 buf (take n b) = (buf1, r2)" by (metis prod.exhaust)
    from loop[of "(a\<lparr>s4_hasSentHeader := True\<rparr>, r2)" buf1 "drop n b"] False n p show ?thesis
      by (fastforce simp: s4_Encode_def)
  qed
qed

lemma ae_Encode_typed:
  "\<exists>a' r' buf' x. ae_Encode a now r buf b = Ret ((a', r'), buf', x) \<and> length x = length b \<and>
     ae_fn a' = ae_fn a \<and> ae_Base a' = ae_Base a \<and> ae_userData a' = ae_userData a"
proof -
  let ?I = "\<lambda>s. ae_fn (fst s) = ae_fn a \<and> ae_Base (fst s) = ae_Base a \<and> ae_userData (fst s) = ae_userData a"
  have loop: "\<exists>s' buf' x. encode_loop 8100 (ae_packData m) s buf b = Ret (s', buf', x) \<and> ?I s' \<and> length x = length b"
    if "?I s" for s buf b m
    by (rule encode_loop_total[where I = ?I, OF _ that]) (auto simp: ae_packData_def Let_def split: prod.split)
  show ?thesis
  proof (cases "ae_hasSentHeader a")
    case True
    with loop[of "(a, r)" "length b" buf b] show ?thesis by (fastforce simp: ae_Encode_def)
  next
    case False
    obtain n r1 where n: "getDataLength b r = (n, r1)" by (cases "getDataLength b r")
    obtain buf1 r2 where p: "ae_packAuthData a now r1 buf (take n b) = (buf1, r2)" by (metis prod.exhaust)
    from loop[of "(a\<lparr>ae_hasSentHeader := True\<rparr>, r2)" "length b" buf1 "drop n b"] False n p show ?thesis
      by (fastforce simp: ae_Encode_def)
  qed
qed

section \<open>The chains\<close>

text \<open>Their method is one that is ready for use.\<close>

definition chain_method :: "Base \<Rightarrow> randDataLengthMethod \<Rightarrow> bool" where
  "chain_method b m \<longleftrightarrow> rand_length_bounded (run_randDataLength (Overhead b) m)"

lemma chain_method_A [simp]: "chain_method b RandLengthA"
  by (simp add: chain_method_def A.rand_length_bounded_axioms)

lemma chain_method_B: "sizes_ok l1 \<Longrightarrow> sizes_ok l2 \<Longrightarrow> chain_method b (RandLengthB l1 l2)"
  by (simp add: chain_method_def chain_b_bounded)

definition chain_state :: "Base \<Rightarrow> userData \<Rightarrow> randDataLengthMethod \<Rightarrow> authChainA \<Rightarrow> bool" where
  "chain_state b u m a \<longleftrightarrow> chain_typed b u a \<and> randDataLength a = Some m"

lemma chain_body_typed:
  assumes "chain_state b u m a" "ch_hasSentHeader a" "length h = 16"
    and "chain_body (a\<lparr>lastServerHash := h, randomServer := x\<rparr>) dl n s \<in> {Wait a', Fail e a', Frame a' out k}"
  shows "chain_state b u m a' \<and> ch_hasSentHeader a'"
  using assms
  by (auto simp: chain_body_def Let_def chain_state_def chain_typed_def
      split: if_splits option.splits prod.splits)

lemma chain_frame_typed:
  assumes "chain_state b u m a" "chain_frame a s \<in> {Wait a', Fail e a', Frame a' out k}"
  shows "chain_state b u m a' \<and> ch_hasSentHeader a' = ch_hasSentHeader a"
proof (cases "ch_hasSentHeader a")
  case False
  with assms show ?thesis by (simp add: chain_state_def chain_typed_def chain_frame_def slice_def)
next
  case True
  with assms(1) have h: "length (lastServerHash a) = 16" "randDataLength a = Some m"
    by (auto simp: chain_state_def chain_typed_def)
  let ?dl = "unat (rd_le16 (take 2 s) XOR rd_le16 (sub 14 2 (lastServerHash a)))"
  obtain n h1 x where r: "run_randDataLength (Overhead (ch_Base a)) m ?dl (lastServerHash a) (randomServer a) = Ret (n, h1, x)"
    using assms(2) h
    by (cases "run_randDataLength (Overhead (ch_Base a)) m ?dl (lastServerHash a) (randomServer a)")
      (auto simp: chain_frame_def slice_def)
  with run.tail[OF r] h have "length h1 = 16" by simp
  moreover have "chain_body (a\<lparr>lastServerHash := h1, randomServer := x\<rparr>) ?dl n s \<in> {Wait a', Fail e a', Frame a' out k}"
    using assms(2) h r by (simp add: chain_frame_def slice_def)
  ultimately show ?thesis using chain_body_typed[OF assms(1) True] True by blast
qed

text \<open>The data of a frame that is all there lies within it.\<close>

lemma chain_body_Crash:
  assumes c: "chain_body a dl n s = Crash" and d: "decrypter a \<noteq> None"
  shows "ch_recvID a = 1 \<and> dl < 2"
proof -
  obtain pos x where p: "(if 0 < dl \<and> 0 < n
      then (case getRandStartPos n (randomServer a) of (k, random) \<Rightarrow> (2 + k, random))
      else (2, randomServer a)) = (pos, x)" by (metis prod.exhaust)
  have "k < n" if "getRandStartPos n r = (k, r')" "0 < n" for k r r'
    using that by (auto simp: getRandStartPos_def split: prod.splits if_splits)
  with p have pos: "pos \<le> 2 + n" by (fastforce split: if_splits prod.splits)
  have l: "4 + (dl + n) \<le> length s" using c by (auto simp: chain_body_def Let_def split: if_splits)
  with pos have w: "slice pos (pos + dl) s = Some (sub pos dl s)" by (simp add: slice_def)
  obtain cph where cph: "decrypter a = Some cph" using d by blast
  obtain plain c' where k: "XORKeyStream cph (sub pos dl s) = (plain, c')" by (metis prod.exhaust)
  have "length plain = dl" using length_XORKeyStream'[OF k] l pos by simp
  with c w cph k show ?thesis
    unfolding chain_body_def Let_def p by (auto simp: slice_None_iff split: if_splits option.splits)
qed

lemma chain_frame_Crash:
  assumes st: "chain_state b u m a" "chain_method b m" and c: "chain_frame a s = Crash" and sent: "ch_hasSentHeader a"
  shows "ch_recvID a = 1 \<and> unat (rd_le16 (take 2 s) XOR rd_le16 (sub 14 2 (lastServerHash a))) < 2"
proof -
  from st(1) sent have h: "length (lastServerHash a) = 16" "randDataLength a = Some m" "ch_Base a = b" "decrypter a \<noteq> None"
    by (auto simp: chain_state_def chain_typed_def)
  let ?dl = "unat (rd_le16 (take 2 s) XOR rd_le16 (sub 14 2 (lastServerHash a)))"
  from rand_length_bounded.returns[OF st(2)[unfolded chain_method_def], of "lastServerHash a" ?dl "randomServer a"] h
  obtain n h1 x where r: "run_randDataLength (Overhead b) m ?dl (lastServerHash a) (randomServer a) = Ret (n, h1, x)"
    by auto
  with c h have "chain_body (a\<lparr>lastServerHash := h1, randomServer := x\<rparr>) ?dl n s = Crash"
    by (simp add: chain_frame_def slice_def)
  from chain_body_Crash[OF this] h show ?thesis by simp
qed

text \<open>What \<open>packData\<close> needs, and keeps; whether the header is sent is the caller's business.\<close>

definition chain_open :: "Base \<Rightarrow> userData \<Rightarrow> randDataLengthMethod \<Rightarrow> authChainA \<Rightarrow> bool" where
  "chain_open b u m a \<longleftrightarrow> chain_state b u m (a\<lparr>ch_hasSentHeader := True\<rparr>)"

lemma chain_open_iff:
  "chain_open b u m a \<longleftrightarrow> ch_Base a = b \<and> ch_userData a = u \<and> randDataLength a = Some m \<and> encrypter a \<noteq> None \<and>
     decrypter a \<noteq> None \<and> length (lastClientHash a) = 16 \<and> length (lastServerHash a) = 16"
  by (auto simp: chain_open_def chain_state_def chain_typed_def)

lemma chain_packData_open:
  assumes st: "chain_open b u m a" and m: "chain_method b m"
  shows "\<exists>a' r' buf' x'. chain_packData (a, r) buf x = Ret ((a', r'), buf', x') \<and> length x' = length x \<and>
    chain_open b u m a' \<and> ch_hasSentHeader a' = ch_hasSentHeader a"
proof -
  from st[unfolded chain_open_iff] obtain c where c: "encrypter a = Some c" by blast
  obtain enc c' where enc: "XORKeyStream c x = (enc, c')" by (cases "XORKeyStream c x")
  let ?a1 = "a\<lparr>encrypter := Some c', ch_packID := ch_packID a + 1\<rparr>"
  from st have rd: "randDataLength ?a1 = Some m" and h: "ch_Base ?a1 = b" "16 \<le> length (lastClientHash ?a1)"
    by (auto simp: chain_open_iff)
  from rand_length_bounded.returns[OF m[unfolded chain_method_def] h(2), of "length enc" "randomClient ?a1"]
  obtain n g rc where
    n: "run_randDataLength (Overhead (ch_Base ?a1)) m (length enc) (lastClientHash ?a1) (randomClient ?a1) = Ret (n, g, rc)"
    using h(1) by auto
  obtain mid rc' r' where p: "\<And>buf. putMixedRandDataAndData ?a1 r buf enc =
      Ret (?a1\<lparr>lastClientHash := g, randomClient := rc'\<rparr>, r', buf @ mid)"
    using putMixed_eq[OF rd n, of r thesis] by blast
  show ?thesis
    using c enc p st length_XORKeyStream'[OF enc] by (simp add: chain_packData_def Let_def slice_def chain_open_iff)
qed

lemma chain_packAuthData_open:
  assumes st: "chain_state b u m a" and m: "chain_method b m"
  shows "\<exists>a' r' buf' x'. chain_packAuthData a now r buf x = Ret ((a', r'), buf', x') \<and> length x' = length x \<and>
    chain_open b u m a'"
proof -
  from st have rd: "ch_Base a = b" "ch_userData a = u" "randDataLength a = Some m"
    by (auto simp: chain_state_def chain_typed_def)
  obtain buf1 r1 where b1: "AppendRandBytes buf 4 r = (buf1, r1)" by (metis prod.exhaust)
  let ?a1 = "initRC4Cipher (a\<lparr>lastClientHash := HmacMD5 (ch_iv a @ Key (ch_Base a)) buf1\<rparr>)"
  let ?buf3 = "(buf1 @ take 8 (lastClientHash ?a1)) @
    le32 (rd_le32 (userID (ch_userData a)) XOR rd_le32 (sub 8 4 (lastClientHash ?a1)))"
  obtain buf4 where b4: "putEncryptedData (ch_authData a) ?buf3 now (ch_userKey a) (Overhead (ch_Base a), 0) (ch_salt a) = Some buf4"
    using putEncryptedData_Some[of "ch_authData a" ?buf3 now "ch_userKey a" "(Overhead (ch_Base a), 0)" "ch_salt a"] by blast
  let ?a2 = "?a1\<lparr>lastServerHash := HmacMD5 (ch_userKey a) (drop 12 buf4)\<rparr>"
  have "chain_open b u m ?a2"
    using rd rc4_key16 by (simp add: chain_open_iff initRC4Cipher_def Let_def)
  from chain_packData_open[OF this m, of r1 "buf4 @ take 4 (lastServerHash ?a2)" x] show ?thesis
    using b4 by (fastforce simp: chain_packAuthData_def Let_def b1)
qed

lemma chain_Encode_typed:
  assumes st: "chain_state b u m a" and m: "chain_method b m"
  shows "\<exists>a' r' buf' x. chain_Encode a now r buf y = Ret ((a', r'), buf', x) \<and> length x = length y \<and>
    chain_state b u m a' \<and> ch_hasSentHeader a'"
proof -
  let ?I = "\<lambda>s. chain_open b u m (fst s) \<and> ch_hasSentHeader (fst s)"
  have state: "chain_state b u m a" if "chain_open b u m a" "ch_hasSentHeader a" for a
    using that by (auto simp: chain_open_iff chain_state_def chain_typed_def)
  have loop: "\<exists>s' buf' x. encode_loop 2800 chain_packData s buf y = Ret (s', buf', x) \<and> ?I s' \<and> length x = length y"
    if "?I s" for s buf y
  proof (rule encode_loop_total[where I = ?I, OF _ that])
    fix s :: "authChainA \<times> rng" and buf x assume "?I s"
    with chain_packData_open[OF _ m, of u "fst s" "snd s" buf x]
    show "\<exists>s' buf' x'. chain_packData s buf x = Ret (s', buf', x') \<and> ?I s' \<and> length x' = length x"
      by fastforce
  qed
  show ?thesis
  proof (cases "ch_hasSentHeader a")
    case True
    with st have "?I (a, r)" by (simp add: chain_open_iff chain_state_def chain_typed_def)
    from loop[OF this, of buf y] True state show ?thesis by (fastforce simp: chain_Encode_def)
  next
    case False
    obtain n r1 where n: "getDataLength y r = (n, r1)" by (cases "getDataLength y r")
    from chain_packAuthData_open[OF st m, of now r1 buf "take n y"] obtain a1 r2 buf1 x where
      p: "chain_packAuthData a now r1 buf (take n y) = Ret ((a1, r2), buf1, x)" "length x = length (take n y)"
      "chain_open b u m a1" by blast
    then have "?I (a1\<lparr>ch_hasSentHeader := True\<rparr>, r2)" by (simp add: chain_open_iff)
    from loop[OF this, of buf1 "drop n y"] obtain a2 r3 buf2 z where
      "encode_loop 2800 chain_packData (a1\<lparr>ch_hasSentHeader := True\<rparr>, r2) buf1 (drop n y) = Ret ((a2, r3), buf2, z)"
      "chain_open b u m a2" "ch_hasSentHeader a2" "length z = length (drop n y)" by fastforce
    with False n p state show ?thesis by (auto simp: chain_Encode_def min_def)
  qed
qed

section \<open>All protocols\<close>

lemma chain_Decode_typed:
  assumes "chain_state b u m a" "chain_Decode a dst src = Ret (e, a', dst', src')"
  shows "chain_state b u m a'"
  by (rule ch.decode_keeps[where I = "chain_state b u m", OF assms(2)[unfolded chain_Decode_def]])
    (use assms(1) chain_frame_typed in blast)+

lemma chain_Decode_Panic:
  assumes st: "chain_state b u m a" "chain_method b m" and p: "chain_Decode a dst src = Panic"
  shows "\<exists>q n. chain_state b u m q \<and> (ch_hasSentHeader q \<longrightarrow>
    ch_recvID q = 1 \<and> unat (rd_le16 (take 2 (drop n src)) XOR rd_le16 (sub 14 2 (lastServerHash q))) < 2)"
proof -
  from ch.decode_panics[where I = "chain_state b u m", OF p[unfolded chain_Decode_def] _ st(1)] chain_frame_typed
  obtain q n where "chain_state b u m q" "chain_frame q (drop n src) = Crash" by blast
  with chain_frame_Crash[OF _ st(2)] show ?thesis by blast
qed

lemma chain_state_A: "has_type b u (AuthChainA a) T_chain_a = chain_state b u RandLengthA a"
  by (simp add: chain_state_def)

lemma chain_state_B:
  "has_type b u (AuthChainB a) T_chain_b =
     (\<exists>l1 l2. chain_state b u (RandLengthB l1 l2) a \<and> sizes_ok l1 \<and> sizes_ok l2)"
  by (auto simp: chain_state_def split: option.splits randDataLengthMethod.splits)

declare has_type.simps(5,6) [simp del]
declare chain_state_A [simp] chain_state_B [simp]

lemma has_typeE:
  assumes "has_type b u p t"
  obtains (origin) "p = Origin" "t = T_origin"
    | (sha1_v4) a where "p = AuthSHA1V4 a" "t = T_sha1_v4" "s4_Base a = b"
    | (aes128) a fn where "p = AuthAES128 a" "(t, fn) \<in> {(T_aes128_sha1, aes128_sha1), (T_aes128_md5, aes128_md5)}"
        "ae_fn a = fn" "ae_Base a = b" "ae_userData a = u"
    | (chain_a) a where "p = AuthChainA a" "t = T_chain_a" "chain_state b u RandLengthA a"
    | (chain_b) a l1 l2 where "p = AuthChainB a" "t = T_chain_b" "chain_state b u (RandLengthB l1 l2) a"
        "sizes_ok l1" "sizes_ok l2"
  using assms by (cases p; cases t) auto

lemma Encode_typed:
  assumes "has_type b u p t"
  shows "\<exists>q r' buf' x. proto_Encode p now r buf y = Ret ((q, r'), buf', x) \<and> length x = length y \<and> has_type b u q t"
  using assms
proof (cases rule: has_typeE)
  case (sha1_v4 a)
  with s4_Encode_typed[of a now r buf y] show ?thesis by (fastforce simp: map_encoded_def)
next
  case (aes128 a fn)
  with ae_Encode_typed[of a now r buf y] show ?thesis by (fastforce simp: map_encoded_def)
next
  case (chain_a a)
  with chain_Encode_typed[OF chain_a(3) chain_method_A, of now r buf y] show ?thesis
    by (fastforce simp: map_encoded_def)
next
  case (chain_b a l1 l2)
  with chain_Encode_typed[OF chain_b(3) chain_method_B[OF chain_b(4,5)], of now r buf y] show ?thesis
    by (fastforce simp: map_encoded_def)
qed simp

lemma Decode_typed:
  assumes "has_type b u p t" "proto_Decode p dst src = Ret (e, q, dst', src')"
  shows "has_type b u q t"
  using assms(1)
proof (cases rule: has_typeE)
  case origin
  with assms(2) show ?thesis by (simp add: origin_Decode_def)
next
  case (sha1_v4 a)
  with assms(2) obtain a' where d: "decode_with s4_rawTrans s4_frame a dst src = Ret (e, a', dst', src')" "q = AuthSHA1V4 a'"
    by (auto simp: map_decoded_def go_bind_Ret_iff s4_Decode_def)
  have "s4_Base a' = b"
    by (rule s4.decode_keeps[where I = "\<lambda>a. s4_Base a = b", OF d(1)])
      (use s4_frame_keeps sha1_v4 in fastforce)+
  with sha1_v4 d(2) show ?thesis by simp
next
  case (aes128 a fn)
  with assms(2) obtain a' where d: "decode_with ae_rawTrans ae_frame a dst src = Ret (e, a', dst', src')" "q = AuthAES128 a'"
    by (auto simp: map_decoded_def go_bind_Ret_iff ae_Decode_def)
  have "ae_fn a' = fn \<and> ae_Base a' = b \<and> ae_userData a' = u"
    by (rule ae.decode_keeps[where I = "\<lambda>a. ae_fn a = fn \<and> ae_Base a = b \<and> ae_userData a = u", OF d(1)])
      (use ae_frame_keeps aes128 in fastforce)+
  with aes128 d(2) show ?thesis by auto
next
  case (chain_a a)
  with assms(2) chain_Decode_typed[OF chain_a(3)] show ?thesis by (fastforce simp: map_decoded_def go_bind_Ret_iff)
next
  case (chain_b a l1 l2)
  with assms(2) chain_Decode_typed[OF chain_b(3)] show ?thesis by (fastforce simp: map_decoded_def go_bind_Ret_iff)
qed

lemma map_decoded_Panic: "map_decoded f m = Panic \<longleftrightarrow> m = Panic"
  by (cases m) (auto simp: map_decoded_def)

text \<open>A \<open>Decode\<close> that panics meets, in a state of the type, a frame that is malformed to it.\<close>

lemma Decode_Panic:
  assumes "has_type b u p t" "proto_Decode p dst src = Panic"
  shows "\<exists>q n. has_type b u q t \<and> malformed q (drop n src)"
  using assms(1)
proof (cases rule: has_typeE)
  case origin
  with assms(2) show ?thesis by (simp add: origin_Decode_def)
next
  case (sha1_v4 a)
  with assms(2) have "decode_with s4_rawTrans s4_frame a dst src = Panic" by (simp add: map_decoded_Panic s4_Decode_def)
  from s4.decode_panics[where I = "\<lambda>a. s4_Base a = b", OF this _ sha1_v4(3)] obtain q n where
    "s4_Base q = b" "s4_frame q (drop n src) = Crash" using s4_frame_keeps by blast
  moreover from this(2) have "malformed (AuthSHA1V4 q) (drop n src)" by (rule s4_frame_Crash)
  moreover have "has_type b u (AuthSHA1V4 q) t" using calculation(1) sha1_v4(2) by simp
  ultimately show ?thesis by blast
next
  case (aes128 a fn)
  with assms(2) have "decode_with ae_rawTrans ae_frame a dst src = Panic" by (simp add: map_decoded_Panic ae_Decode_def)
  from ae.decode_panics[where I = "\<lambda>a. ae_fn a = fn \<and> ae_Base a = b \<and> ae_userData a = u", OF this] aes128(3-5)
  obtain q n where "ae_fn q = fn \<and> ae_Base q = b \<and> ae_userData q = u" and "ae_frame q (drop n src) = Crash"
    using ae_frame_keeps by blast
  moreover have "malformed (AuthAES128 q) (drop n src)" by (rule ae_frame_Crash) fact
  moreover have "has_type b u (AuthAES128 q) t" using calculation(1) aes128(2) by auto
  ultimately show ?thesis by blast
next
  case (chain_a a)
  with assms(2) have "chain_Decode a dst src = Panic" by (simp add: map_decoded_Panic)
  from chain_Decode_Panic[OF chain_a(3) chain_method_A this] chain_a(2) obtain q n where
    "has_type b u (AuthChainA q) t" "malformed (AuthChainA q) (drop n src)" by auto
  then show ?thesis by blast
next
  case (chain_b a l1 l2)
  with assms(2) have "chain_Decode a dst src = Panic" by (simp add: map_decoded_Panic)
  from chain_Decode_Panic[OF chain_b(3) chain_method_B[OF chain_b(4,5)] this] chain_b(2,4,5) obtain q n where
    "has_type b u (AuthChainB q) t" "malformed (AuthChainB q) (drop n src)" by auto
  then show ?thesis by blast
qed

interpretation typed: stable proto_call "\<lambda>p. has_type b u p t" for b u t
proof
  fix p q assume p: "has_type b u p t" "proto_call p q"
  from p(2) show "has_type b u q t"
  proof cases
    case (call_Encode now r buf y r' buf' x)
    with Encode_typed[OF p(1), of now r buf y] show ?thesis by auto
  next
    case (call_Decode dst src e dst' src')
    with Decode_typed[OF p(1)] show ?thesis by blast
  qed
qed

text \<open>What \<open>StreamConn\<close> of a protocol from the registry makes has the type of the name.\<close>

lemma StreamConn_typed:
  assumes "PickProtocol (type_name t) b r = Some (f, b', r1)" "proto_StreamConn f iv r2 = Ret (p, f', r3)"
  shows "\<exists>u. has_type b' u p t"
proof -
  note pick = PickProtocol_def protocolList_def str_def split_beta Let_def
  have chain: "ch_Base (fst (newAuthChainA c r)) = c" "ch_Base (fst (newAuthChainB c r)) = c" for c
    by (simp_all add: newAuthChainA_def newAuthChainB_def zero_authChainA_def split_beta)
  note state = chain_state_def chain_typed_def zero_authChainA_def
  show ?thesis
  proof (cases t)
    case T_origin
    with assms show ?thesis by (auto simp: pick)
  next
    case T_sha1_v4
    with assms show ?thesis by (auto simp: pick newAuthSHA1V4_def s4_StreamConn_def)
  next
    case T_aes128_sha1
    with assms show ?thesis by (auto simp: pick newAuthAES128SHA1_def new_authAES128_def ae_StreamConn_def)
  next
    case T_aes128_md5
    with assms show ?thesis by (auto simp: pick newAuthAES128MD5_def new_authAES128_def ae_StreamConn_def)
  next
    case T_chain_a
    with assms show ?thesis by (auto simp: pick chain chain_a_StreamConn_def state)
  next
    case T_chain_b
    with assms(1) have f: "f = AuthChainB (fst (newAuthChainB b' r))" by (auto simp: pick)
    from assms(2) obtain l1 l2 x where i: "initDataSize (Key b') = Ret (l1, l2, x)"
      by (auto simp: f chain chain_b_StreamConn_def go_bind_Ret_iff split_beta)
    from assms(2) have "\<exists>a. p = AuthChainB a \<and> chain_state b' (ch_userData (fst (newAuthChainB b' r))) (RandLengthB l1 l2) a"
      by (auto simp: f chain chain_b_StreamConn_def go_bind_Ret_iff split_beta i state)
    then obtain a where "p = AuthChainB a" "chain_state b' (ch_userData (fst (newAuthChainB b' r))) (RandLengthB l1 l2) a"
      by blast
    with initDataSize_ok[OF i] T_chain_b have "has_type b' (ch_userData (fst (newAuthChainB b' r))) p t" by auto
    then show ?thesis by blast
  qed
qed

section \<open>Properties\<close>



end
