(* ===== verification/Chain_Padding.thy ===== *)
theory Chain_Padding
  imports Auth_Chain
begin

text \<open>
  The padding of \<^verbatim>\<open>auth_chain_b\<close> against a specification. The protocol's authors think of a
  list of packet sizes: the frame is filled up to one of the sizes that it fits in, taken at random, and
  is not if the draw falls outside them. \<open>getRandLength\<close> finds the sizes by binary search and computes with indices.
\<close>

section \<open>The specification\<close>

text \<open>The sizes a frame of \<open>v\<close> bytes fits in, and the choice among them by a draw from as many as there are sizes.\<close>

definition fitting :: "nat list \<Rightarrow> nat \<Rightarrow> nat list" where
  "fitting sizes v = filter (\<lambda>s. v \<le> s) sizes"

definition chosen :: "nat list \<Rightarrow> nat \<Rightarrow> nat \<Rightarrow> nat option" where
  "chosen sizes v i = (if i < length (fitting sizes v) then Some (fitting sizes v ! i - v) else None)"

text \<open>
  The first list, then the second; when the second draw is its greatest, a length that depends on that of the
  data, and otherwise none.
\<close>

definition padding_spec ::
  "nat list \<Rightarrow> nat list \<Rightarrow> nat \<Rightarrow> nat \<Rightarrow> bytes \<Rightarrow> XorShift128Plus \<Rightarrow> (nat \<times> bytes \<times> XorShift128Plus) go" where
  "padding_spec l1 l2 overhead len lastHash random =
     (if len \<ge> 1440 then Ret (0, lastHash, random)
      else go_bind (InitFromBinAndLength lastHash len) (\<lambda>(random, lastHash).
        case Next random of (x, random1) \<Rightarrow>
        case Next random1 of (y, random2) \<Rightarrow>
        (case chosen l1 (len + overhead) (unat x mod length l1) of
           Some n \<Rightarrow> Ret (n, lastHash, random1)
         | None \<Rightarrow>
             (case chosen l2 (len + overhead) (unat y mod length l2) of
                Some n \<Rightarrow> Ret (n, lastHash, random2)
              | None \<Rightarrow>
                  if Suc (unat y mod length l2) < length l2 then Ret (0, lastHash, random2)
                  else case band_draw len random2 of (n, random3) \<Rightarrow> Ret (n, lastHash, random3)))))"

section \<open>Sorted lists\<close>

lemma filter_sorted:
  fixes v :: nat
  shows "sorted xs \<Longrightarrow> filter (\<lambda>x. v \<le> x) xs = drop (length (takeWhile (\<lambda>x. x < v) xs)) xs"
proof (induction xs)
  case (Cons x xs)
  show ?case
  proof (cases "x < v")
    case False
    with Cons.prems have "filter (\<lambda>y. v \<le> y) xs = xs" by (intro filter_True) auto
    with False show ?thesis by simp
  qed (use Cons in simp)
qed simp

text \<open>What the code computes from the position of the search is the choice.\<close>

lemma search_chosen:
  assumes "sorted l"
  shows "chosen l v i =
    (let pos = sort_Search (length l) (\<lambda>i. l ! i \<ge> v) in if pos + i < length l then Some (l ! (pos + i) - v) else None)"
proof -
  let ?p = "length (takeWhile (\<lambda>x. x < v) l)"
  have "?p \<le> length l" by (rule length_takeWhile_le)
  then show ?thesis
    by (auto simp: chosen_def fitting_def filter_sorted[OF assms] sort_Search_sorted[OF assms] Let_def)
qed

lemma chain_b_padding:
  assumes "sizes_ok l1" "sizes_ok l2"
  shows "chain_b_getRandLength l1 l2 overhead len h r = padding_spec l1 l2 overhead len h r"
proof (cases "1440 \<le> len")
  case False
  from assms have l: "sorted l1" "sorted l2" "l1 \<noteq> []" "l2 \<noteq> []" by (simp_all add: sizes_ok_def)
  have i: "(q + j < q + length l2 - Suc 0) = (Suc j < length l2)" for q j using l(4) by (cases l2) auto
  show ?thesis
  proof (cases "InitFromBinAndLength h len")
    case (Ret res)
    obtain r0 h' where res: "res = (r0, h')" by (cases res)
    obtain x r1 where x: "Next r0 = (x, r1)" by (cases "Next r0")
    obtain y r2 where y: "Next r1 = (y, r2)" by (cases "Next r1")
    show ?thesis
      using False l(3,4) Ret res x y
      by (simp add: chain_b_getRandLength_def padding_spec_def search_chosen[OF l(1)] search_chosen[OF l(2)] Let_def i
          diff_diff_left)
  qed (use False in \<open>simp_all add: chain_b_getRandLength_def padding_spec_def\<close>)
qed (simp add: chain_b_getRandLength_def padding_spec_def)

section \<open>Properties\<close>

text \<open>
  C29: A connection of \<open>auth_chain_b\<close> pads as specified: its two lists of sizes are sorted and not empty,
  and what \<open>getRandLength\<close> computes with two binary searches is the padding that fills the frame up to one of the sizes
  it fits in, chosen by the generator, for every length of data, hash and generator. Data, overhead and
  padding so chosen come to less than 1440 bytes.
\<close>

theorem chain_b_pads_as_specified:
  assumes "chain_b_StreamConn a iv r = Ret (p, a', r')"
  shows "\<exists>l1 l2. randDataLength p = Some (RandLengthB l1 l2) \<and> sizes_ok l1 \<and> sizes_ok l2 \<and>
    (\<forall>overhead len h x. run_randDataLength overhead (RandLengthB l1 l2) len h x = padding_spec l1 l2 overhead len h x) \<and>
    (\<forall>l \<in> {l1, l2}. \<forall>v i n. chosen l v i = Some n \<longrightarrow> v + n < 1440 \<and> v + n \<in> set l)"
proof -
  from assms obtain l1 l2 x where i: "initDataSize (Key (ch_Base a)) = Ret (l1, l2, x)"
    and p: "randDataLength p = Some (RandLengthB l1 l2)"
    by (auto simp: chain_b_StreamConn_def zero_authChainA_def go_bind_Ret_iff split: prod.splits)
  note ok = initDataSize_ok[OF i, THEN conjunct1] initDataSize_ok[OF i, THEN conjunct2]
  have "v + n < 1440 \<and> v + n \<in> set l" if c: "chosen l v i = Some n" and l: "sizes_ok l" for l v i n
  proof -
    from c have "i < length (fitting l v)" "n = fitting l v ! i - v" by (auto simp: chosen_def split: if_splits)
    moreover from this(1) have "fitting l v ! i \<in> set (fitting l v)" by (rule nth_mem)
    ultimately show ?thesis using l by (auto simp: fitting_def sizes_ok_def)
  qed
  with p ok chain_b_padding[OF ok] show ?thesis by auto
qed

theorem chain_b_pads_as_specified_witness:
  "\<exists>p l1 l2. randDataLength p = Some (RandLengthB l1 l2) \<and>
     (\<forall>overhead len h x. run_randDataLength overhead (RandLengthB l1 l2) len h x = padding_spec l1 l2 overhead len h x) \<and>
     (\<exists>a' r'. chain_b_StreamConn (chain_example (replicate 16 0)) [] \<lparr>draws = \<lambda>n. n, rpos = 0\<rparr> = Ret (p, a', r'))"
proof -
  let ?a = "chain_example (replicate 16 0)" and ?r = "\<lparr>draws = \<lambda>n. n, rpos = 0\<rparr>"
  have "length (Key (ch_Base ?a)) = 16"
    by (simp add: chain_example_def chain_a_StreamConn_def zero_authChainA_def split_beta)
  with chain_b_StreamConn_domain[of ?a "[]" ?r]
  obtain p a' r' where s: "chain_b_StreamConn ?a [] ?r = Ret (p, a', r')"
    by (cases "chain_b_StreamConn ?a [] ?r") auto
  from chain_b_pads_as_specified[OF s] s show ?thesis by blast
qed

end
