(* ===== verification/Sys_Tun_Life.thy ===== *)
theory Sys_Tun_Life
  imports Sys_Tun
begin

text \<open>
  The life of the system tun: what \<open>New\<close> starts and \<open>Close\<close> ends (\<^verbatim>\<open>nat/nat.go\<close>,
  \<^verbatim>\<open>nat/tcp.go\<close>, \<^verbatim>\<open>nat/tcpnat.go\<close>). Three goroutines run beside each other: the
  one that reads the device, the one that accepts connections from the listener, and the one that drops
  idle sessions. \<open>life_step\<close> has one step for each of their rounds and endings, and one for \<open>Close\<close>.
\<close>

section \<open>Accepting\<close>

text \<open>What \<^verbatim>\<open>Accept\<close> comes to: the peer of a connection, or an error.\<close>

datatype accept_error = ErrClosed | AcceptError bytes

definition dispatch ::
  "tcpForwarder \<Rightarrow> int \<Rightarrow> accept_error + AddrPort \<Rightarrow> (accept_error + accepted) \<times> tcpForwarder" where
  "dispatch t now res =
     (case res of
        Inl e \<Rightarrow> (Inl e, t)
      | Inr peer \<Rightarrow> (case tcp_dispatch t now peer of (a, t') \<Rightarrow> (Inr a, t')))"

text \<open>
  The loop, over what the calls come to: what was made of each connection, whether the error that ended it
  was logged, and the forwarder. When \<^verbatim>\<open>Accept\<close> does not return, neither does the loop. Behind
  it the context is cancelled.
\<close>

primrec dispatchLoop ::
  "tcpForwarder \<Rightarrow> (int \<times> (accept_error + AddrPort)) list \<Rightarrow> (accepted list \<times> bool \<times> tcpForwarder) go" where
  "dispatchLoop t [] = Hang"
| "dispatchLoop t (r # rs) =
     (case dispatch t (fst r) (snd r) of
        (Inl e, t') \<Rightarrow> Ret ([], e \<noteq> ErrClosed, t')
      | (Inr a, t') \<Rightarrow> go_bind (dispatchLoop t' rs) (\<lambda>(as, logged, t''). Ret (a # as, logged, t'')))"

section \<open>Writing\<close>

text \<open>
  A packet of the stack is written in one call as the views it consists of; \<open>errno\<close> is what writing to
  the device comes to.
\<close>

definition writeRawPacket :: "bytes option \<Rightarrow> bytes list \<Rightarrow> bytes option \<times> bytes" where
  "writeRawPacket errno views = (errno, concat views)"

section \<open>The goroutines\<close>

text \<open>The accepting goroutine waits for a connection, has one in its hands, or has ended.\<close>

datatype acceptor = Accepting | Dispatching AddrPort | AcceptorEnded

record tun_life =
  tl_tun :: SystemTun
  tl_listening :: bool
  tl_acceptor :: acceptor
  tl_cancelled :: bool
  tl_cleaning :: bool
  tl_reading :: bool
  tl_accepted :: "accepted list"
  tl_events :: "tun_event list"

definition tl_forwarder :: "tun_life \<Rightarrow> tcpForwarder" where
  "tl_forwarder s = st_forwarder (tl_tun s)"

definition set_forwarder :: "tcpForwarder \<Rightarrow> tun_life \<Rightarrow> tun_life" where
  "set_forwarder f s = s\<lparr>tl_tun := (tl_tun s)\<lparr>st_forwarder := f\<rparr>\<rparr>"

definition tun_started :: "SystemTun \<Rightarrow> tun_life" where
  "tun_started t = \<lparr>tl_tun = t, tl_listening = True, tl_acceptor = Accepting, tl_cancelled = False, tl_cleaning = True,
     tl_reading = True, tl_accepted = [], tl_events = []\<rparr>"

text \<open>\<open>Close\<close> closes the listener, and nothing else.\<close>

definition forwarder_Close :: "tun_life \<Rightarrow> tun_life" where
  "forwarder_Close s = s\<lparr>tl_listening := False\<rparr>"

definition SystemTun_Close :: "tun_life \<Rightarrow> tun_life" where
  "SystemTun_Close s = forwarder_Close s"

inductive life_step :: "headers \<Rightarrow> tun_life \<Rightarrow> tun_life \<Rightarrow> bool" for H where
  read_packet: "tl_reading s \<Longrightarrow> deliverPacket H (tl_tun s) now discard stale p = Ret (given, t, evs) \<Longrightarrow>
    life_step H s (s\<lparr>tl_tun := t, tl_events := tl_events s @ evs\<rparr>)"
| read_error: "tl_reading s \<Longrightarrow> life_step H s (s\<lparr>tl_reading := False\<rparr>)"
| accept: "tl_acceptor s = Accepting \<Longrightarrow> tl_listening s \<Longrightarrow> life_step H s (s\<lparr>tl_acceptor := Dispatching peer\<rparr>)"
| dispatched: "tl_acceptor s = Dispatching peer \<Longrightarrow> dispatch (tl_forwarder s) now (Inr peer) = (Inr a, f) \<Longrightarrow>
    life_step H s (set_forwarder f s\<lparr>tl_acceptor := Accepting, tl_accepted := tl_accepted s @ [a]\<rparr>)"
| accept_fails: "tl_acceptor s = Accepting \<Longrightarrow> dispatch (tl_forwarder s) now (Inl e) = (Inl e, f) \<Longrightarrow>
    e = ErrClosed \<longleftrightarrow> \<not> tl_listening s \<Longrightarrow>
    life_step H s (set_forwarder f s\<lparr>tl_acceptor := AcceptorEnded, tl_cancelled := True\<rparr>)"
| tick: "tl_cleaning s \<Longrightarrow>
    life_step H s (set_forwarder ((tl_forwarder s)\<lparr>tf_NAT := checkTimeout now order (tf_NAT (tl_forwarder s))\<rparr>) s)"
| ctx_done: "tl_cleaning s \<Longrightarrow> tl_cancelled s \<Longrightarrow> life_step H s (s\<lparr>tl_cleaning := False\<rparr>)"
| closing: "life_step H s (SystemTun_Close s)"

inductive_cases life_stepE: "life_step H s s'"

text \<open>The context is cancelled exactly when the accepting goroutine has ended; sessions are dropped until then.\<close>

definition life_inv :: "tun_life \<Rightarrow> bool" where
  "life_inv s \<longleftrightarrow> (tl_cancelled s \<longleftrightarrow> tl_acceptor s = AcceptorEnded) \<and> (tl_cleaning s \<or> tl_cancelled s)"

lemmas life_defs = tl_forwarder_def set_forwarder_def SystemTun_Close_def forwarder_Close_def

interpretation life: machine "life_step H" life_inv "tun_started t" for H t
proof
  show "life_inv (tun_started t)" by (simp add: life_inv_def tun_started_def)
next
  fix s s' assume "life_inv s" "life_step H s s'"
  from this(2,1) show "life_inv s'" by cases (auto simp: life_inv_def life_defs)
qed

text \<open>
  What has ended stays so, the listener stays closed, and behind it no connection is handed over but the
  one the goroutine may have had in its hands.
\<close>

definition in_hand :: "tun_life \<Rightarrow> nat" where
  "in_hand s = (case tl_acceptor s of Dispatching _ \<Rightarrow> 1 | _ \<Rightarrow> 0)"

definition ended :: "tun_life \<Rightarrow> tun_life \<Rightarrow> bool" where
  "ended s s' \<longleftrightarrow> (\<not> tl_cleaning s \<longrightarrow> \<not> tl_cleaning s') \<and> (\<not> tl_reading s \<longrightarrow> \<not> tl_reading s') \<and>
     (\<not> tl_listening s \<longrightarrow> \<not> tl_listening s' \<and>
        length (tl_accepted s') + in_hand s' \<le> length (tl_accepted s) + in_hand s) \<and>
     (tl_acceptor s = AcceptorEnded \<longrightarrow> tl_acceptor s' = AcceptorEnded \<and> tl_accepted s' = tl_accepted s)"

interpretation ends: stable "life_step H" "ended s" for H s
proof
  fix s1 s2 assume "ended s s1" "life_step H s1 s2"
  from this(2,1) show "ended s s2" by cases (auto simp: ended_def in_hand_def life_defs)
qed

lemma runs_ended: "reaches (life_step H) s s' \<Longrightarrow> ended s s'"
  by (erule ends.runs) (simp add: ended_def)

text \<open>The two goroutines of the forwarder have an ending to take once the listener is closed.\<close>

lemma closed_can_end:
  assumes inv: "life_inv s" and closed: "\<not> tl_listening s"
  shows "\<exists>s'. reaches (life_step H) s s' \<and> tl_acceptor s' = AcceptorEnded \<and> \<not> tl_cleaning s'"
proof -
  have fails: "\<exists>s1. reaches (life_step H) s s1 \<and> tl_acceptor s1 = AcceptorEnded \<and> tl_cancelled s1"
    if "tl_acceptor s = Accepting" "\<not> tl_listening s" for s
  proof -
    have "life_step H s (set_forwarder (tl_forwarder s) s\<lparr>tl_acceptor := AcceptorEnded, tl_cancelled := True\<rparr>)"
      by (rule accept_fails[where e = ErrClosed]) (use that in \<open>auto simp: dispatch_def\<close>)
    from reaches_one[of "life_step H", OF this] show ?thesis by fastforce
  qed
  have "\<exists>s1. reaches (life_step H) s s1 \<and> tl_acceptor s1 = AcceptorEnded \<and> tl_cancelled s1"
  proof (cases "tl_acceptor s")
    case (Dispatching peer)
    obtain a f where d: "dispatch (tl_forwarder s) 0 (Inr peer) = (Inr a, f)"
      by (cases "tcp_dispatch (tl_forwarder s) 0 peer") (simp add: dispatch_def)
    let ?s = "set_forwarder f s\<lparr>tl_acceptor := Accepting, tl_accepted := tl_accepted s @ [a]\<rparr>"
    have r: "reaches (life_step H) s ?s" by (rule reaches_one) (rule dispatched[OF Dispatching d])
    have "tl_acceptor ?s = Accepting" "\<not> tl_listening ?s" using closed by (simp_all add: life_defs)
    from fails[OF this] reaches_trans[OF _ r] show ?thesis by blast
  qed (use fails closed inv in \<open>auto simp: life_inv_def intro: reaches_refl\<close>)
  then obtain s1 where s1: "reaches (life_step H) s s1" "tl_acceptor s1 = AcceptorEnded" "tl_cancelled s1" by blast
  show ?thesis
  proof (cases "tl_cleaning s1")
    case True
    from reaches_next[OF s1(1) ctx_done[OF True s1(3)]] s1(2) show ?thesis by fastforce
  qed (use s1 in blast)
qed

text \<open>
  The loop ends exactly at the first error; and while the listener is open its calls are steps of the
  goroutine, at the end of which it has ended.
\<close>

lemma dispatchLoop_Hang: "dispatchLoop t rs = Hang \<longleftrightarrow> (\<forall>r \<in> set rs. \<exists>peer. snd r = Inr peer)"
proof (induction rs arbitrary: t)
  case (Cons r rs)
  show ?case
  proof (cases "snd r")
    case (Inr peer)
    obtain a t' where d: "dispatch t (fst r) (snd r) = (Inr a, t')"
      using Inr by (cases "tcp_dispatch t (fst r) peer") (simp add: dispatch_def)
    have "dispatchLoop t (r # rs) = Hang \<longleftrightarrow> dispatchLoop t' rs = Hang"
      by (cases "dispatchLoop t' rs") (auto simp: d)
    with Cons Inr show ?thesis by simp
  qed (simp add: dispatch_def)
qed simp

lemma dispatchLoop_run:
  assumes "tl_acceptor s = Accepting" "tl_listening s" "dispatchLoop (tl_forwarder s) rs = Ret (as, True, f)"
  shows "\<exists>s'. reaches (life_step H) s s' \<and> tl_accepted s' = tl_accepted s @ as \<and> tl_forwarder s' = f \<and>
    tl_acceptor s' = AcceptorEnded \<and> tl_listening s'"
  using assms
proof (induction rs arbitrary: s as)
  case (Cons r rs)
  show ?case
  proof (cases "snd r")
    case (Inl e)
    with Cons.prems(3) have e: "as = []" "e \<noteq> ErrClosed" "f = tl_forwarder s" by (auto simp: dispatch_def)
    have "life_step H s (set_forwarder f s\<lparr>tl_acceptor := AcceptorEnded, tl_cancelled := True\<rparr>)"
      by (rule accept_fails[where e = e and now = 0]) (use Cons.prems(1,2) e in \<open>simp_all add: dispatch_def\<close>)
    then have "reaches (life_step H) s (set_forwarder f s\<lparr>tl_acceptor := AcceptorEnded, tl_cancelled := True\<rparr>)"
      by (rule reaches_one)
    with e Cons.prems(2) show ?thesis by (intro exI conjI) (assumption, simp_all add: life_defs)
  next
    case (Inr peer)
    obtain a t' where d: "dispatch (tl_forwarder s) (fst r) (snd r) = (Inr a, t')"
      using Inr by (cases "tcp_dispatch (tl_forwarder s) (fst r) peer") (simp add: dispatch_def)
    let ?h = "s\<lparr>tl_acceptor := Dispatching peer\<rparr>"
    let ?s = "set_forwarder t' ?h\<lparr>tl_acceptor := Accepting, tl_accepted := tl_accepted ?h @ [a]\<rparr>"
    have "reaches (life_step H) s ?h" by (rule reaches_one) (rule accept[OF Cons.prems(1,2)])
    moreover have "life_step H ?h ?s"
      by (rule dispatched[where now = "fst r"]) (use d Inr in \<open>simp_all add: tl_forwarder_def\<close>)
    ultimately have r: "reaches (life_step H) s ?s" by (rule reaches_next)
    from Cons.prems(3) d obtain as' where as': "dispatchLoop t' rs = Ret (as', True, f)" "as = a # as'"
      by (auto simp: go_bind_Ret_iff)
    have "tl_acceptor ?s = Accepting" "tl_listening ?s" "tl_forwarder ?s = t'"
      using Cons.prems(2) by (simp_all add: life_defs)
    from Cons.IH[OF this(1,2)] as'(1) this(3) obtain s' where s': "reaches (life_step H) ?s s'"
      "tl_accepted s' = tl_accepted ?s @ as'" "tl_forwarder s' = f" "tl_acceptor s' = AcceptorEnded" "tl_listening s'" by auto
    from reaches_trans[OF s'(1) r] s'(2-5) as'(2) show ?thesis by auto
  qed
qed simp

text \<open>The goroutine that reads the device turns TCP packets to the listener, whatever the others do.\<close>

lemma still_turned:
  assumes "tl_reading s" "IPVersion H p = 4" "ip_proto (tcp4 H) p = 6"
    and q: "processIPv4 (tcp4 H) (tl_forwarder s) now p = (Some q, f)"
  shows "\<exists>s'. reaches (life_step H) s s' \<and> tl_events s' = tl_events s @ [Written q] \<and> tl_reading s'"
proof -
  have "deliverPacket H (tl_tun s) now False [] p = Ret (False, (tl_tun s)\<lparr>st_forwarder := f\<rparr>, [Written q])"
    using assms(2,3) q by (simp add: deliverPacket_def written_def tl_forwarder_def)
  with assms(1) have step: "life_step H s (s\<lparr>tl_tun := (tl_tun s)\<lparr>st_forwarder := f\<rparr>, tl_events := tl_events s @ [Written q]\<rparr>)"
    by (rule read_packet)
  have "reaches (life_step H) s (s\<lparr>tl_tun := (tl_tun s)\<lparr>st_forwarder := f\<rparr>, tl_events := tl_events s @ [Written q]\<rparr>)"
    by (rule reaches_one) (rule step)
  with assms(1) show ?thesis by fastforce
qed

section \<open>Properties\<close>

text \<open>
  C18: The life of the system tun, in every interleaving of its goroutines with calls of \<open>Close\<close>, which
  closes the listener. Once that is closed no connection is handed over any more, but for one the
  accepting goroutine may have in its hands; the accepting goroutine and the one that drops
  sessions can always end, and what has ended never starts again. The accepting goroutine ends with the
  first error of \<^verbatim>\<open>Accept\<close>, the tun being closed or not: from then on no connection is handed
  over, while the goroutine that reads the device, which \<open>Close\<close> does not end either, goes on
  turning the packets of every connection to the listener.
\<close>

theorem tun_life_ends:
  assumes "reaches (life_step H) (tun_started t) s"
  shows "(life_step H s (SystemTun_Close s) \<and> \<not> tl_listening (SystemTun_Close s) \<and> tl_reading (SystemTun_Close s) = tl_reading s) \<and>
    (\<not> tl_listening s \<longrightarrow> (\<exists>s'. reaches (life_step H) s s' \<and> tl_acceptor s' = AcceptorEnded \<and> \<not> tl_cleaning s')) \<and>
    (\<forall>s'. reaches (life_step H) s s' \<longrightarrow> ended s s') \<and>
    (\<forall>e. tl_acceptor s = Accepting \<and> (e = ErrClosed \<longleftrightarrow> \<not> tl_listening s) \<longrightarrow>
      (\<exists>s'. life_step H s s' \<and> tl_acceptor s' = AcceptorEnded \<and> tl_listening s' = tl_listening s \<and> tl_reading s' = tl_reading s)) \<and>
    (\<forall>now p q f. tl_reading s \<and> IPVersion H p = 4 \<and> ip_proto (tcp4 H) p = 6 \<and>
        processIPv4 (tcp4 H) (tl_forwarder s) now p = (Some q, f) \<longrightarrow>
      (\<exists>s'. reaches (life_step H) s s' \<and> tl_events s' = tl_events s @ [Written q] \<and> tl_reading s'))"
proof -
  have inv: "life_inv s" by (rule life.reachable[OF assms])
  have "\<exists>s'. life_step H s s' \<and> tl_acceptor s' = AcceptorEnded \<and> tl_listening s' = tl_listening s \<and> tl_reading s' = tl_reading s"
    if "tl_acceptor s = Accepting" "e = ErrClosed \<longleftrightarrow> \<not> tl_listening s" for e
    using accept_fails[OF that(1) _ that(2), of 0 "tl_forwarder s" H]
    by (intro exI[of _ "set_forwarder (tl_forwarder s) s\<lparr>tl_acceptor := AcceptorEnded, tl_cancelled := True\<rparr>"])
      (simp add: dispatch_def set_forwarder_def)
  moreover have "life_step H s (SystemTun_Close s) \<and> \<not> tl_listening (SystemTun_Close s) \<and> tl_reading (SystemTun_Close s) = tl_reading s"
    using closing by (simp add: SystemTun_Close_def forwarder_Close_def)
  ultimately show ?thesis
    by (intro conjI allI impI; (elim conjE)?) (use closed_can_end[OF inv] runs_ended still_turned in \<open>simp_all\<close>)
qed

theorem tun_life_ends_witness:
  "\<forall>H t. \<exists>s. reaches (life_step H) (tun_started t) s \<and> tl_listening s \<and> tl_acceptor s = AcceptorEnded \<and> tl_reading s"
proof (intro allI)
  fix H :: headers and t :: SystemTun
  have pre: "tl_acceptor (tun_started t) = Accepting \<and> (AcceptError [] = ErrClosed \<longleftrightarrow> \<not> tl_listening (tun_started t))"
    by (simp add: tun_started_def)
  have "reaches (life_step H) (tun_started t) (tun_started t)" by (rule reaches_refl)
  from tun_life_ends[OF this, THEN conjunct2, THEN conjunct2, THEN conjunct2, THEN conjunct1, rule_format, OF pre]
  obtain s where s: "life_step H (tun_started t) s" "tl_acceptor s = AcceptorEnded"
    "tl_listening s = tl_listening (tun_started t)" "tl_reading s = tl_reading (tun_started t)" by blast
  have "reaches (life_step H) (tun_started t) s" by (rule reaches_one) (rule s(1))
  with s(2-4)
  show "\<exists>s. reaches (life_step H) (tun_started t) s \<and> tl_listening s \<and> tl_acceptor s = AcceptorEnded \<and> tl_reading s"
    by (auto simp: tun_started_def)
qed

end
