(* ===== verification/Platform.thy ===== *)
theory Platform
  imports Go_Text
begin

text \<open>
  What the program is given by Android: the roots it trusts (\<^verbatim>\<open>ca.go\<close>), where it finds its
  assets (\<^verbatim>\<open>assets.go\<close>), and the lines it writes to the log (\<^verbatim>\<open>log.go\<close>). Files,
  assets, the store of the system and the parser of certificates are arguments, by what they return.
\<close>

section \<open>Roots\<close>

text \<open>
  The variable of \<^verbatim>\<open>crypto/x509\<close>, and whether its initialisation, which happens once, has run: it
  overwrites the variable. A pool is a list of certificates.
\<close>

record 'cert roots =
  initialised :: bool
  systemRoots :: "'cert list"

text \<open>\<^verbatim>\<open>initSystemRoots\<close>, by \<^verbatim>\<open>once.Do\<close>, and the roots a verification uses.\<close>

definition init_roots :: "'cert list \<Rightarrow> 'cert roots \<Rightarrow> 'cert roots" where
  "init_roots os_roots r = (if initialised r then r else \<lparr>initialised = True, systemRoots = os_roots\<rparr>)"

definition roots_used :: "'cert list \<Rightarrow> 'cert roots \<Rightarrow> 'cert list" where
  "roots_used os_roots r = systemRoots (init_roots os_roots r)"

datatype ca_error = NotInitialised | NoCertificates | CAError bytes

text \<open>
  What reading each source of certificates comes to: the asset, the store of Java if one is registered,
  the file of the user.
\<close>

record ca_sources =
  mozilla_pem :: "bytes + bytes"
  androidCAStore :: "(bytes + bytes) option"
  custom_pem :: "bytes + bytes"

text \<open>
  What has been read is installed; \<open>parse_pem\<close> gives the certificates \<^verbatim>\<open>AppendCertsFromPEM\<close>
  finds, \<open>None\<close> when it finds none. The deferred function empties the roots when there is an error.
\<close>

definition failed_roots :: "ca_error \<Rightarrow> 'cert roots \<Rightarrow> ca_error option \<times> 'cert roots" where
  "failed_roots e r = (Some e, r\<lparr>systemRoots := []\<rparr>)"

definition install_roots :: "(bytes \<Rightarrow> 'cert list option) \<Rightarrow> bytes + bytes \<Rightarrow> 'cert roots \<Rightarrow> ca_error option \<times> 'cert roots" where
  "install_roots parse_pem source r =
     (case source of
        Inl e \<Rightarrow> failed_roots (CAError e) r
      | Inr pem \<Rightarrow>
          (case parse_pem pem of
             Some pool \<Rightarrow> (None, r\<lparr>systemRoots := pool\<rparr>)
           | None \<Rightarrow> failed_roots NoCertificates r))"

text \<open>The providers are Mozilla 0, Go 1, Android 2, custom 3.\<close>

definition caProviderMozilla :: int where "caProviderMozilla = 0"
definition caProviderGo :: int where "caProviderGo = 1"
definition caProviderAndroid :: int where "caProviderAndroid = 2"
definition caProviderCustom :: int where "caProviderCustom = 3"

lemmas caProviders = caProviderMozilla_def caProviderGo_def caProviderAndroid_def caProviderCustom_def

text \<open>The store of Java, registered as what reading it comes to.\<close>

definition RegisterAndroidCAStore :: "(bytes + bytes) option \<Rightarrow> ca_sources \<Rightarrow> ca_sources" where
  "RegisterAndroidCAStore store src = src\<lparr>androidCAStore := store\<rparr>"

definition UpdateSystemRoots ::
  "(bytes \<Rightarrow> 'cert list option) \<Rightarrow> 'cert list \<Rightarrow> ca_sources \<Rightarrow> int \<Rightarrow> 'cert roots \<Rightarrow> (ca_error option \<times> 'cert roots) go" where
  "UpdateSystemRoots parse_pem os_roots src caProvider r =
     (if caProvider = caProviderGo then Ret (None, r)
      else let r1 = init_roots os_roots r
           in if caProvider = caProviderMozilla then Ret (install_roots parse_pem (mozilla_pem src) r1)
              else if caProvider = caProviderAndroid
              then Ret (case androidCAStore src of None \<Rightarrow> failed_roots NotInitialised r1 | Some b \<Rightarrow> install_roots parse_pem b r1)
              else if caProvider = caProviderCustom then Ret (install_roots parse_pem (custom_pem src) r1)
              else Panic)"

text \<open>The certificates a provider offers; \<open>None\<close> when it offers none.\<close>

definition offered :: "(bytes \<Rightarrow> 'cert list option) \<Rightarrow> ca_sources \<Rightarrow> int \<Rightarrow> 'cert list option" where
  "offered parse_pem src caProvider =
     (let pem = (if caProvider = 0 then mozilla_pem src else if caProvider = 3 then custom_pem src
                 else case androidCAStore src of Some b \<Rightarrow> b | None \<Rightarrow> Inl [])
      in case pem of Inr b \<Rightarrow> parse_pem b | Inl _ \<Rightarrow> None)"

section \<open>Assets\<close>

datatype asset_file = ExternalFile bytes | BuiltinAsset bytes

datatype asset_error = OpenError bytes | AssetNotFound bytes

text \<open>\<^verbatim>\<open>filepath.Split\<close>: the file name is what is behind the last slash.\<close>

definition file_name :: "bytes \<Rightarrow> bytes" where
  "file_name path = rev (takeWhile (\<lambda>b. b \<noteq> 47) (rev path))"

text \<open>\<open>stat\<close> is whether there is a file of that name, \<open>open_err\<close> the error of opening it, \<open>asset\<close> whether the asset is there.\<close>

definition fileSeeker ::
  "bytes \<Rightarrow> bytes \<Rightarrow> (bytes \<Rightarrow> bool) \<Rightarrow> (bytes \<Rightarrow> bytes option) \<Rightarrow> (bytes \<Rightarrow> bool) \<Rightarrow> bytes \<Rightarrow> asset_error + asset_file" where
  "fileSeeker externalAssets pre stat open_err asset path =
     (let fileName = file_name path; external = externalAssets @ fileName in
      if stat external then (case open_err external of Some e \<Rightarrow> Inl (OpenError e) | None \<Rightarrow> Inr (ExternalFile external))
      else if asset (pre @ fileName) then Inr (BuiltinAsset (pre @ fileName))
      else Inl (AssetNotFound fileName))"

section \<open>The log\<close>

datatype priority = LOG_DEBUG | LOG_INFO | LOG_WARN | LOG_ERROR

definition HasPrefix :: "bytes \<Rightarrow> bytes \<Rightarrow> bool" where
  "HasPrefix s p \<longleftrightarrow> take (length p) s = p"

text \<open>\<^verbatim>\<open>strings.Replace(s, old, "", 1)\<close> of a string that begins with \<open>old\<close>.\<close>

definition replace_front :: "bytes \<Rightarrow> bytes \<Rightarrow> bytes" where
  "replace_front s p = (if HasPrefix s p then drop (length p) s else s)"

text \<open>Every zero byte becomes a backslash and the digit 0.\<close>

definition replace_nul :: "bytes \<Rightarrow> bytes" where
  "replace_nul s = concat (map (\<lambda>b. if b = 0 then [92, 48] else [b]) s)"

text \<open>What C reads of the bytes it is given, up to the zero that \<^verbatim>\<open>C.CString\<close> appends or an earlier one.\<close>

definition c_string :: "bytes \<Rightarrow> bytes" where
  "c_string s = takeWhile (\<lambda>b. b \<noteq> 0) (s @ [0])"

definition v2ray_log_write :: "bytes \<Rightarrow> priority \<times> bytes" where
  "v2ray_log_write s =
     (let (priority, s1) =
        (if HasPrefix s (str ''[Debug] '') then (LOG_DEBUG, replace_front s (str ''[Debug] ''))
         else if HasPrefix s (str ''[Info] '') then (LOG_INFO, replace_front s (str ''[Info] ''))
         else if HasPrefix s (str ''[Warning] '') then (LOG_WARN, replace_front s (str ''[Warning] ''))
         else if HasPrefix s (str ''[Error] '') then (LOG_ERROR, replace_front s (str ''[Error] ''))
         else (LOG_DEBUG, s))
      in (priority, c_string (replace_nul s1)))"

definition std_log_write :: "bytes \<Rightarrow> (priority \<times> bytes) \<times> nat" where
  "std_log_write p = ((LOG_INFO, c_string (replace_nul p)), length p)"

section \<open>Closing what may be nil\<close>

text \<open>\<^verbatim>\<open>CloseIgnore\<close>: what is interrupted is not closed besides.\<close>

definition v2ray_log_Close :: "bytes option" where
  "v2ray_log_Close = None"

text \<open>
  \<^verbatim>\<open>init\<close>: the writer of the standard logger, without its date and time, and what makes the writer
  of the core's console log.
\<close>

datatype log_writer = StderrWriter | StdLogWriter | V2rayLogWriter

record log_setup =
  std_output :: log_writer
  std_flags :: uint32
  console_creator :: "log_writer option"

definition log_init :: "log_setup \<Rightarrow> log_setup" where
  "log_init g = g\<lparr>std_output := StdLogWriter, std_flags := std_flags g AND NOT 3, console_creator := Some V2rayLogWriter\<rparr>"

datatype closer = NilCloser | BothCloser nat | InterruptibleCloser nat | ClosableCloser nat | OtherCloser

datatype close_call = InterruptCall nat | CloseCall nat

fun CloseIgnore :: "closer list \<Rightarrow> close_call list" where
  "CloseIgnore [] = []"
| "CloseIgnore (NilCloser # cs) = CloseIgnore cs"
| "CloseIgnore (BothCloser c # cs) = InterruptCall c # CloseIgnore cs"
| "CloseIgnore (InterruptibleCloser c # cs) = InterruptCall c # CloseIgnore cs"
| "CloseIgnore (ClosableCloser c # cs) = CloseCall c # CloseIgnore cs"
| "CloseIgnore (OtherCloser # cs) = CloseIgnore cs"

section \<open>Properties\<close>

lemma install_roots_used:
  "roots_used os_roots (snd (install_roots parse_pem b (init_roots os_roots r))) =
     (case (case b of Inr pem \<Rightarrow> parse_pem pem | Inl _ \<Rightarrow> None) of Some pool \<Rightarrow> pool | None \<Rightarrow> [])"
  "fst (install_roots parse_pem b (init_roots os_roots r)) = None \<longleftrightarrow>
     (case b of Inr pem \<Rightarrow> parse_pem pem | Inl _ \<Rightarrow> None) \<noteq> None"
  by (auto simp: install_roots_def failed_roots_def roots_used_def init_roots_def split: sum.split option.split)



text \<open>
  A line is logged whole: what C reads is the line less the tag of its level, every zero byte written
  as a backslash and a zero, so it is never cut at one.
\<close>

lemma no_nul: "0 \<notin> set (replace_nul s)"
  by (induction s) (auto simp: replace_nul_def)

lemma c_string_whole: "c_string (replace_nul s) = replace_nul s"
proof -
  have "\<forall>b \<in> set (replace_nul s). b \<noteq> 0" using no_nul[of s] by auto
  then show ?thesis by (simp add: c_string_def takeWhile_append2)
qed

definition log_tags :: "(bytes \<times> priority) list" where
  "log_tags = [(str ''[Debug] '', LOG_DEBUG), (str ''[Info] '', LOG_INFO), (str ''[Warning] '', LOG_WARN), (str ''[Error] '', LOG_ERROR)]"

lemma log_line_whole:
  "(tag, pri) \<in> set log_tags \<Longrightarrow> v2ray_log_write (tag @ s) = (pri, replace_nul s)"
  "\<forall>(tag, pri) \<in> set log_tags. \<not> HasPrefix s tag \<Longrightarrow> v2ray_log_write s = (LOG_DEBUG, replace_nul s)"
  by (auto simp: log_tags_def v2ray_log_write_def HasPrefix_def replace_front_def c_string_whole str_def)

end
