(* ===== verification/Core_Errors.thy ===== *)
theory Core_Errors
  imports Prelude
begin

text \<open>
  The program's errors (\<^verbatim>\<open>errors/errors.go\<close>): a message, what stands before it, a severity,
  and the error underneath. What \<^verbatim>\<open>serial.ToString\<close> and \<^verbatim>\<open>serial.Concat\<close> make
  of the parts is a library's and an argument. A part of a message is of type \<open>'a\<close>. An error that is
  not of this kind has a text and perhaps a severity of its own. Severities are numbers, as they are in
  the logging library; the more severe, the smaller.
\<close>

section \<open>The data\<close>

datatype 'a go_error =
    Error (pathObj: "bytes option") (err_prefix: "'a list") (message: "'a list") (inner: "'a go_error option") (severity: nat)
  | Foreign (foreign_text: bytes) (own_severity: "nat option")

record severities =
  Severity_Error :: nat
  Severity_Warning :: nat
  Severity_Info :: nat
  Severity_Debug :: nat

text \<open>What the library makes of a part, of a whole message, and of a session's number as a part.\<close>

record 'a serial =
  ToString :: "'a \<Rightarrow> bytes"
  Concat :: "'a list \<Rightarrow> bytes"
  session_part :: "uint32 \<Rightarrow> 'a"

definition New_error :: "severities \<Rightarrow> 'a list \<Rightarrow> 'a go_error" where
  "New_error lv msg = Error None [] msg None (Severity_Info lv)"

section \<open>Operations on an error of the program\<close>

fun WithPathObj :: "bytes \<Rightarrow> 'a go_error \<Rightarrow> 'a go_error" where
  "WithPathObj obj (Error _ pre msg i s) = Error (Some obj) pre msg i s"
| "WithPathObj obj e = e"

fun Base :: "'a go_error option \<Rightarrow> 'a go_error \<Rightarrow> 'a go_error" where
  "Base e (Error obj pre msg _ s) = Error obj pre msg e s"
| "Base _ e = e"

fun atSeverity :: "nat \<Rightarrow> 'a go_error \<Rightarrow> 'a go_error" where
  "atSeverity s (Error obj pre msg i _) = Error obj pre msg i s"
| "atSeverity _ e = e"

definition AtDebug :: "severities \<Rightarrow> 'a go_error \<Rightarrow> 'a go_error" where "AtDebug lv = atSeverity (Severity_Debug lv)"
definition AtInfo :: "severities \<Rightarrow> 'a go_error \<Rightarrow> 'a go_error" where "AtInfo lv = atSeverity (Severity_Info lv)"
definition AtWarning :: "severities \<Rightarrow> 'a go_error \<Rightarrow> 'a go_error" where "AtWarning lv = atSeverity (Severity_Warning lv)"
definition AtError :: "severities \<Rightarrow> 'a go_error \<Rightarrow> 'a go_error" where "AtError lv = atSeverity (Severity_Error lv)"

text \<open>\<open>newError\<close> of a package: its errors carry an object of the package.\<close>

definition newError :: "bytes \<Rightarrow> severities \<Rightarrow> 'a list \<Rightarrow> 'a go_error" where
  "newError package_path lv values = WithPathObj package_path (New_error lv values)"

text \<open>\<open>pathObj\<close> is the path of the object's package.\<close>

definition TrimPrefix :: "bytes \<Rightarrow> bytes \<Rightarrow> bytes" where
  "TrimPrefix p s = (if take (length p) s = p then drop (length p) s else s)"

definition pkgPath :: "'a go_error \<Rightarrow> bytes" where
  "pkgPath e = (case e of
     Error (Some path) _ _ _ _ \<Rightarrow> TrimPrefix (str ''github.com/exclavenetwork/'') path | _ \<Rightarrow> [])"

text \<open>What one error adds to the text, and the text.\<close>

definition own_text :: "'a serial \<Rightarrow> 'a go_error \<Rightarrow> bytes" where
  "own_text ser e =
     (case e of
        Error obj pre msg i s \<Rightarrow>
          concat (map (\<lambda>p. str ''['' @ ToString ser p @ str ''] '') pre) @
          (if length (pkgPath e) > 0 then pkgPath e @ str '': '' else []) @ Concat ser msg
      | Foreign t _ \<Rightarrow> t)"

primrec Error_text :: "'a serial \<Rightarrow> 'a go_error \<Rightarrow> bytes" where
  "Error_text ser (Error obj pre msg i s) = own_text ser (Error obj pre msg i s) @
     (case map_option (Error_text ser) i of Some t \<Rightarrow> str '' > '' @ t | None \<Rightarrow> [])"
| "Error_text ser (Foreign t s) = t"

definition Inner :: "'a go_error \<Rightarrow> 'a go_error option" where
  "Inner e = (case e of Error _ _ _ i _ \<Rightarrow> i | Foreign _ _ \<Rightarrow> None)"

text \<open>\<open>Severity\<close>, if there is that method.\<close>

primrec Severity :: "'a go_error \<Rightarrow> nat option" where
  "Severity (Error obj pre msg i s) =
     Some (case map_option Severity i of
        None \<Rightarrow> s
      | Some None \<Rightarrow> s
      | Some (Some inner_s) \<Rightarrow> if inner_s < s then inner_s else s)"
| "Severity (Foreign t s) = s"

definition GetSeverity :: "severities \<Rightarrow> 'a go_error \<Rightarrow> nat" where
  "GetSeverity lv e = (case Severity e of Some s \<Rightarrow> s | None \<Rightarrow> Severity_Info lv)"

text \<open>
  \<open>WriteToLog\<close> with the session's number, 0 for none: what is logged, and the error afterwards, whose
  prefix has grown.
\<close>

fun WriteToLog :: "severities \<Rightarrow> 'a serial \<Rightarrow> uint32 \<Rightarrow> 'a go_error \<Rightarrow> (nat \<times> bytes) \<times> 'a go_error" where
  "WriteToLog lv ser sessionID (Error obj pre msg i s) =
     (let e = Error obj (if sessionID > 0 then pre @ [session_part ser sessionID] else pre) msg i s
      in ((GetSeverity lv e, Error_text ser e), e))"
| "WriteToLog lv ser sessionID e = ((GetSeverity lv e, Error_text ser e), e)"

text \<open>
  The options \<open>WriteToLog\<close> is called with change a holder whose number is 0; the one the program has sets the
  number of the context's session.
\<close>

record ExportOptionHolder =
  SessionID :: uint32

type_synonym ExportOption = "ExportOptionHolder \<Rightarrow> ExportOptionHolder"

definition ExportIDToError :: "uint32 \<Rightarrow> ExportOption" where
  "ExportIDToError sid = (\<lambda>h. h\<lparr>SessionID := sid\<rparr>)"

definition WriteToLog_opts ::
  "severities \<Rightarrow> 'a serial \<Rightarrow> ExportOption list \<Rightarrow> 'a go_error \<Rightarrow> (nat \<times> bytes) \<times> 'a go_error" where
  "WriteToLog_opts lv ser opts e =
     (let holder = fold (\<lambda>opt. opt) opts \<lparr>SessionID = 0\<rparr> in WriteToLog lv ser (SessionID holder) e)"

definition String :: "'a serial \<Rightarrow> 'a go_error \<Rightarrow> bytes" where
  "String ser e = Error_text ser e"

lemma WriteToLog_of_session:
  "WriteToLog_opts lv ser [] e = WriteToLog lv ser 0 e"
  "WriteToLog_opts lv ser (opts @ [ExportIDToError sid]) e = WriteToLog lv ser sid e"
  by (simp_all add: WriteToLog_opts_def ExportIDToError_def)

section \<open>Chains\<close>

text \<open>The error and those underneath, the outermost first.\<close>

primrec error_chain :: "'a go_error \<Rightarrow> 'a go_error list" where
  "error_chain (Error obj pre msg i s) = Error obj pre msg i s #
     (case map_option error_chain i of Some es \<Rightarrow> es | None \<Rightarrow> [])"
| "error_chain (Foreign t s) = [Foreign t s]"

definition stated :: "'a go_error \<Rightarrow> nat list" where
  "stated e = (case e of Error _ _ _ _ s \<Rightarrow> [s] | Foreign _ (Some s) \<Rightarrow> [s] | Foreign _ None \<Rightarrow> [])"

lemma error_chain_ne [simp]: "error_chain e \<noteq> []"
  by (cases e) auto

definition levels :: "'a go_error \<Rightarrow> nat list" where
  "levels e = concat (map stated (error_chain e))"

lemma levels_Error: "levels (Error obj pre msg i s) = s # (case i of Some e \<Rightarrow> levels e | None \<Rightarrow> [])"
  by (cases i) (simp_all add: levels_def stated_def)

lemma Severity_chain: "Severity e = (if levels e = [] then None else Some (Min (set (levels e))))"
proof (induction e)
  case (Error obj pre msg i s)
  show ?case
  proof (cases i)
    case (Some e)
    then have 1: "Severity e = (if levels e = [] then None else Some (Min (set (levels e))))"
      using Error by simp
    have "Min (insert s (set (levels e))) = min s (Min (set (levels e)))" if "levels e \<noteq> []"
      by (rule Min_insert) (use that in simp_all)
    then have "Min (insert s (set (levels e))) = (if Min (set (levels e)) < s then Min (set (levels e)) else s)" if "levels e \<noteq> []"
      using that by (metis min_def not_le)
    with 1 show ?thesis using Some by (cases "levels e = []") (simp_all add: levels_Error del: Min_less_iff)
  qed (simp add: levels_Error)
next
  case (Foreign t s)
  then show ?case by (cases s) (simp_all add: levels_def stated_def)
qed

fun join_texts :: "bytes list \<Rightarrow> bytes" where
  "join_texts [] = []"
| "join_texts [t] = t"
| "join_texts (t # ts) = t @ str '' > '' @ join_texts ts"

lemma join_texts_Cons: "ts \<noteq> [] \<Longrightarrow> join_texts (t # ts) = t @ str '' > '' @ join_texts ts"
  by (cases ts) auto

lemma Error_text_chain: "Error_text ser e = join_texts (map (own_text ser) (error_chain e))"
proof (induction e)
  case (Error obj pre msg i s)
  then show ?case by (cases i) (simp_all add: join_texts_Cons)
qed (simp add: own_text_def)

fun log_times :: "nat \<Rightarrow> severities \<Rightarrow> 'a serial \<Rightarrow> uint32 \<Rightarrow> 'a go_error \<Rightarrow> 'a go_error" where
  "log_times 0 lv ser sid e = e"
| "log_times (Suc n) lv ser sid e = log_times n lv ser sid (snd (WriteToLog lv ser sid e))"

lemma log_times_prefix:
  "sid > 0 \<Longrightarrow> log_times n lv ser sid (Error obj pre msg i s) = Error obj (pre @ replicate n (session_part ser sid)) msg i s"
proof (induction n arbitrary: pre)
  case (Suc n)
  then show ?case by (simp add: Let_def flip: replicate_append_same)
qed simp

section \<open>Properties\<close>

text \<open>
  What is logged of an error has the most severe level stated anywhere in its chain, or that of
  information when none is, and the texts of the whole chain from the outermost, with \<^verbatim>\<open> > \<close>
  between them. Logging an error of a session leaves its number on it: the text of the error that has been
  logged \<open>n\<close> times already begins with \<open>n + 1\<close> copies.
\<close>

theorem error_logged:
  "fst (WriteToLog lv ser 0 e) =
     ((if levels e = [] then Severity_Info lv else Min (set (levels e))),
      join_texts (map (own_text ser) (error_chain e))) \<and>
   (sid > 0 \<longrightarrow> snd (fst (WriteToLog lv ser sid (log_times n lv ser sid (Error None [] msg i s)))) =
      concat (replicate (Suc n) (str ''['' @ ToString ser (session_part ser sid) @ str ''] '')) @
      Error_text ser (Error None [] msg i s))"
proof
  have "fst (WriteToLog lv ser 0 e) = (GetSeverity lv e, Error_text ser e)" by (cases e) (simp_all add: Let_def)
  then show "fst (WriteToLog lv ser 0 e) =
     ((if levels e = [] then Severity_Info lv else Min (set (levels e))),
      join_texts (map (own_text ser) (error_chain e)))"
    by (simp add: GetSeverity_def Severity_chain Error_text_chain)
  show "sid > 0 \<longrightarrow> snd (fst (WriteToLog lv ser sid (log_times n lv ser sid (Error None [] msg i s)))) =
      concat (replicate (Suc n) (str ''['' @ ToString ser (session_part ser sid) @ str ''] '')) @
      Error_text ser (Error None [] msg i s)"
    by (simp add: log_times_prefix Let_def own_text_def pkgPath_def flip: replicate_append_same)
qed

text \<open>Two warnings around a failure of the system, logged for session 7 the second time.\<close>

definition plain_serial :: "bytes serial" where
  "plain_serial = \<lparr>ToString = id, Concat = concat, session_part = (\<lambda>n. [48 + ucast n])\<rparr>"

definition v2ray_severities :: severities where
  "v2ray_severities = \<lparr>Severity_Error = 1, Severity_Warning = 2, Severity_Info = 3, Severity_Debug = 4\<rparr>"

theorem error_logged_witness:
  "fst (WriteToLog v2ray_severities plain_serial 0
       (AtWarning v2ray_severities (Base (Some (Foreign (str ''EOF'') (Some 1))) (New_error v2ray_severities [str ''dial'']))))
     = (1, str ''dial > EOF'') \<and>
   snd (fst (WriteToLog v2ray_severities plain_serial 7 (log_times 1 v2ray_severities plain_serial 7 (Error None [] [str ''dial''] None 3))))
     = str ''[7] [7] dial''"
proof -
  let ?e = "AtWarning v2ray_severities (Base (Some (Foreign (str ''EOF'') (Some 1))) (New_error v2ray_severities [str ''dial'']))"
  note p = error_logged[of v2ray_severities plain_serial ?e 7 1 "[str ''dial'']" None 3]
  have "fst (WriteToLog v2ray_severities plain_serial 0 ?e) = (1, str ''dial > EOF'')"
    unfolding p[THEN conjunct1]
    by (simp add: AtWarning_def New_error_def v2ray_severities_def plain_serial_def levels_def stated_def own_text_def pkgPath_def str_def)
  moreover have "snd (fst (WriteToLog v2ray_severities plain_serial 7
      (log_times 1 v2ray_severities plain_serial 7 (Error None [] [str ''dial''] None 3)))) = str ''[7] [7] dial''"
    using p[THEN conjunct2] by (simp add: plain_serial_def own_text_def pkgPath_def str_def)
  ultimately show ?thesis by blast
qed

end
