(* ===== verification/Environment.thy ===== *)
theory Environment
  imports Platform Core_Errors
begin

text \<open>
  What the process itself is: its environment (\<^verbatim>\<open>env.go\<close>), its time zone
  (\<^verbatim>\<open>tz.go\<close>), what it says of its build (\<^verbatim>\<open>v2ray.go\<close>,
  \<^verbatim>\<open>with_clash.go\<close>, \<^verbatim>\<open>without_clash.go\<close>), the server for debugging
  (\<^verbatim>\<open>debug.go\<close>), and decryption (\<^verbatim>\<open>age.go\<close>). The C library, the runtime and
  the decrypting library are arguments, by what they return.
\<close>

section \<open>Environment\<close>

text \<open>
  \<^verbatim>\<open>os.Setenv\<close> refuses a name that is empty or holds an equals sign or a zero, and a value that
  holds a zero; \<^verbatim>\<open>os.Unsetenv\<close> never fails.
\<close>

type_synonym environ = "bytes \<rightharpoonup> bytes"

datatype env_error = EINVAL

definition env_name :: "bytes \<Rightarrow> bool" where
  "env_name key \<longleftrightarrow> key \<noteq> [] \<and> 61 \<notin> set key \<and> 0 \<notin> set key"

definition Setenv :: "bytes \<Rightarrow> bytes \<Rightarrow> environ \<Rightarrow> env_error option \<times> environ" where
  "Setenv key value env =
     (if \<not> env_name key \<or> 0 \<in> set value then (Some EINVAL, env) else (None, env(key \<mapsto> value)))"

definition Unsetenv :: "bytes \<Rightarrow> environ \<Rightarrow> env_error option \<times> environ" where
  "Unsetenv key env = (None, env(key := None))"

text \<open>Names are well-formed as long as the two functions are used, and setting and unsetting are inverse.\<close>

definition environ_ok :: "environ \<Rightarrow> bool" where
  "environ_ok env \<longleftrightarrow> (\<forall>key value. env key = Some value \<longrightarrow> env_name key \<and> 0 \<notin> set value)"

lemma environ_ok_Setenv: "environ_ok env \<Longrightarrow> environ_ok (snd (Setenv key value env))"
  by (auto simp: environ_ok_def Setenv_def)

lemma environ_ok_Unsetenv: "environ_ok env \<Longrightarrow> environ_ok (snd (Unsetenv key env))"
  by (auto simp: environ_ok_def Unsetenv_def)

lemma Setenv_Unsetenv:
  "env key = None \<Longrightarrow> Setenv key value env = (None, env') \<Longrightarrow> Unsetenv key env' = (None, env)"
  by (auto simp: Setenv_def Unsetenv_def split: if_splits)

section \<open>Time zone\<close>

text \<open>\<^verbatim>\<open>init\<close> makes the zone of the C library's local time Go's, a fixed one.\<close>

record time_zone =
  zone_name :: bytes
  zone_offset :: int

definition local_zone :: "int \<Rightarrow> bytes \<Rightarrow> time_zone" where
  "local_zone tm_gmtoff tm_zone = \<lparr>zone_name = c_string tm_zone, zone_offset = tm_gmtoff\<rparr>"

section \<open>Versions\<close>

definition GetGoVersion :: "bytes \<Rightarrow> bytes" where
  "GetGoVersion runtime_version = TrimPrefix (str ''go'') runtime_version"

text \<open>The text of the build information, if there is any, with a blank for every tabulator.\<close>

definition GetDepInfo :: "bytes option \<Rightarrow> bytes" where
  "GetDepInfo build_info =
     (case build_info of Some info \<Rightarrow> map (\<lambda>b. if b = 9 then 32 else b) info | None \<Rightarrow> [])"

definition GetV2RayVersion :: "bytes \<Rightarrow> bytes" where
  "GetV2RayVersion core_version = core_version"

lemma GetDepInfo_tabs: "9 \<notin> set (GetDepInfo info)"
  by (auto simp: GetDepInfo_def split: option.split)

text \<open>Whether the build has the plug-ins: a tag of the build chooses the file.\<close>

definition with_clash :: bool where "with_clash = True"
definition without_clash :: bool where "without_clash = False"

definition BuildWithClash :: "bool \<Rightarrow> bool" where
  "BuildWithClash tag = (if tag then with_clash else without_clash)"

section \<open>Debugging\<close>

text \<open>The server, and what happens to it: the goroutine that serves runs beside what follows.\<close>

record DebugInstance =
  server_addr :: bytes

datatype debug_event = ListenAndServe bytes | CloseServer bytes

definition NewDebugInstance :: "bytes \<Rightarrow> DebugInstance \<times> debug_event list" where
  "NewDebugInstance addr = (let s = \<lparr>server_addr = addr\<rparr> in (s, [ListenAndServe (server_addr s)]))"

definition debug_Close :: "DebugInstance \<Rightarrow> debug_event list" where
  "debug_Close d = [CloseServer (server_addr d)]"

section \<open>Decryption\<close>

text \<open>
  The keys are parsed, the armoured file is opened with them, and its content read: \<open>readAll\<close> gives what
  could be read and the error that ended it, and the caller gets both.
\<close>

definition AgeArmerDecrypt ::
  "(bytes \<Rightarrow> 'e + 'key list) \<Rightarrow> (bytes \<Rightarrow> 'key list \<Rightarrow> 'e + 'reader) \<Rightarrow> ('reader \<Rightarrow> bytes \<times> 'e option) \<Rightarrow>
     bytes \<Rightarrow> bytes \<Rightarrow> bytes \<times> 'e option" where
  "AgeArmerDecrypt ParseIdentities Decrypt readAll data privateKey =
     (case ParseIdentities privateKey of
        Inl e \<Rightarrow> ([], Some e)
      | Inr identities \<Rightarrow>
          (case Decrypt data identities of
             Inl e \<Rightarrow> ([], Some e)
           | Inr reader \<Rightarrow> readAll reader))"

lemma AgeArmerDecrypt_whole:
  "AgeArmerDecrypt parse dec readAll data key = (x, None) \<longleftrightarrow>
     (\<exists>ids reader. parse key = Inr ids \<and> dec data ids = Inr reader \<and> readAll reader = (x, None))"
  by (auto simp: AgeArmerDecrypt_def split: sum.splits)

end
