(* ===== verification/Go_URL.thy ===== *)
theory Go_URL
  imports Go_Numbers "HOL-Library.List_Lexorder"
begin

text \<open>
  What \<^verbatim>\<open>url.go\<close> and \<^verbatim>\<open>net.go\<close> use of Go's \<^verbatim>\<open>net/url\<close> and
  \<^verbatim>\<open>net\<close>: the escaping of query components, parsing and encoding a query, and hosts with ports,
  each with its round trip.
\<close>

section \<open>Searching for a byte\<close>

text \<open>\<^verbatim>\<open>strings.Cut\<close> at a byte: the text before its first place, the text behind it, and whether it is there.\<close>

fun Cut :: "byte \<Rightarrow> bytes \<Rightarrow> bytes \<times> bytes \<times> bool" where
  "Cut c [] = ([], [], False)"
| "Cut c (x # s) = (if x = c then ([], s, True) else (case Cut c s of (a, b, found) \<Rightarrow> (x # a, b, found)))"

text \<open>\<^verbatim>\<open>strings.LastIndexByte\<close>; \<open>None\<close> is -1.\<close>

fun LastIndexByte :: "bytes \<Rightarrow> byte \<Rightarrow> nat option" where
  "LastIndexByte [] c = None"
| "LastIndexByte (x # s) c =
     (case LastIndexByte s c of Some i \<Rightarrow> Some (Suc i) | None \<Rightarrow> if x = c then Some 0 else None)"

fun IndexByte :: "bytes \<Rightarrow> byte \<Rightarrow> nat option" where
  "IndexByte [] c = None"
| "IndexByte (x # s) c = (if x = c then Some 0 else map_option Suc (IndexByte s c))"

lemma Cut_absent: "c \<notin> set s \<Longrightarrow> Cut c s = (s, [], False)"
  by (induction s) auto

lemma Cut_at: "c \<notin> set a \<Longrightarrow> Cut c (a @ c # b) = (a, b, True)"
  by (induction a) auto

lemma Cut_length: "Cut c s = (a, b, found) \<Longrightarrow> length b \<le> length s \<and> (s \<noteq> [] \<longrightarrow> length b < length s)"
proof (induction s arbitrary: a b found)
  case (Cons x s)
  obtain a' b' f' where c: "Cut c s = (a', b', f')" by (rule prod_cases3)
  with Cons.IH[OF c] Cons.prems show ?case by (auto split: if_splits)
qed simp

lemma LastIndexByte_None [simp]: "LastIndexByte s c = None \<longleftrightarrow> c \<notin> set s"
  by (induction s) (auto split: option.splits)

lemma LastIndexByte_at: "c \<notin> set b \<Longrightarrow> LastIndexByte (a @ c # b) c = Some (length a)"
  by (induction a) (auto simp: option.case_eq_if)

lemma IndexByte_None [simp]: "IndexByte s c = None \<longleftrightarrow> c \<notin> set s"
  by (induction s) auto

lemma IndexByte_at: "c \<notin> set a \<Longrightarrow> IndexByte (a @ c # b) c = Some (length a)"
  by (induction a) auto

section \<open>Escaping\<close>

definition unreserved :: "byte \<Rightarrow> bool" where
  "unreserved c \<longleftrightarrow> (97 \<le> c \<and> c \<le> 122) \<or> (65 \<le> c \<and> c \<le> 90) \<or> (48 \<le> c \<and> c \<le> 57) \<or> c = 45 \<or> c = 95 \<or> c = 46 \<or> c = 126"

definition upper_hex :: "nat \<Rightarrow> byte" where
  "upper_hex d = of_nat (if d < 10 then 48 + d else 55 + d)"

definition escape_byte :: "byte \<Rightarrow> bytes" where
  "escape_byte c = (if c = 32 then [43] else if unreserved c then [c]
     else [37, upper_hex (unat c div 16), upper_hex (unat c mod 16)])"

definition QueryEscape :: "bytes \<Rightarrow> bytes" where
  "QueryEscape s = concat (map escape_byte s)"

definition unhex_digit :: "byte \<Rightarrow> nat option" where
  "unhex_digit c =
     (if 48 \<le> c \<and> c \<le> 57 then Some (unat c - 48)
      else if 97 \<le> c \<and> c \<le> 102 then Some (unat c - 87)
      else if 65 \<le> c \<and> c \<le> 70 then Some (unat c - 55) else None)"

text \<open>\<open>None\<close> is an error.\<close>

fun QueryUnescape :: "bytes \<Rightarrow> bytes option" where
  "QueryUnescape [] = Some []"
| "QueryUnescape (c # s) =
     (if c = 37 then
        (case s of
           a # b # t \<Rightarrow>
             (case (unhex_digit a, unhex_digit b) of
                (Some x, Some y) \<Rightarrow> map_option (\<lambda>r. of_nat (16 * x + y) # r) (QueryUnescape t)
              | _ \<Rightarrow> None)
         | _ \<Rightarrow> None)
      else map_option (\<lambda>r. (if c = 43 then 32 else c) # r) (QueryUnescape s))"

lemma unat_upper_hex: "d < 16 \<Longrightarrow> unat (upper_hex d) = (if d < 10 then 48 + d else 55 + d)"
  unfolding upper_hex_def by (rule unat_byte_of_nat[THEN trans]) (auto simp del: of_nat_add)

lemma unhex_upper_hex:
  assumes "d < 16"
  shows "unhex_digit (upper_hex d) = Some d"
  using assms by (auto simp: unhex_digit_def word_le_nat_alt unat_upper_hex)

lemma upper_hex_plain: "d < 16 \<Longrightarrow> unat (upper_hex d) \<noteq> 37 \<and> unat (upper_hex d) \<noteq> 38 \<and> unat (upper_hex d) \<noteq> 61 \<and> unat (upper_hex d) \<noteq> 59"
  by (auto simp: unat_upper_hex)

lemma unescape_byte: "QueryUnescape (escape_byte c @ s) = map_option ((#) c) (QueryUnescape s)"
proof -
  have "16 * (unat c div 16) + unat c mod 16 = unat c" by simp
  then have "of_nat (16 * (unat c div 16) + unat c mod 16) = c" by simp
  then show ?thesis
    using hex_digits_byte[of c] by (auto simp: escape_byte_def unhex_upper_hex unreserved_def)
qed

lemma QueryUnescape_Escape [wire_roundtrip]: "QueryUnescape (QueryEscape s) = Some s"
  by (induction s) (simp_all add: QueryEscape_def unescape_byte)

text \<open>An escaped text has none of the bytes that separate.\<close>

lemma escape_byte_plain: "x \<in> set (escape_byte c) \<Longrightarrow> x \<noteq> 38 \<and> x \<noteq> 59 \<and> x \<noteq> 61"
proof -
  assume x: "x \<in> set (escape_byte c)"
  have "upper_hex d \<noteq> 38 \<and> upper_hex d \<noteq> 61 \<and> upper_hex d \<noteq> 59" if "d < 16" for d
    using upper_hex_plain[OF that] by auto
  with x hex_digits_byte[of c] show ?thesis
    by (auto simp: escape_byte_def unreserved_def split: if_splits)
qed

lemma QueryEscape_plain: "38 \<notin> set (QueryEscape s)" "59 \<notin> set (QueryEscape s)" "61 \<notin> set (QueryEscape s)"
  using escape_byte_plain by (auto simp: QueryEscape_def)

section \<open>Queries\<close>

text \<open>
  \<^verbatim>\<open>url.Values\<close>, a map from keys to values, as an association list with distinct keys whose
  order means nothing.
\<close>

type_synonym Values = "(bytes \<times> bytes list) list"

fun values_add :: "bytes \<Rightarrow> bytes \<Rightarrow> Values \<Rightarrow> Values" where
  "values_add k v [] = [(k, [v])]"
| "values_add k v ((k', vs) # m) = (if k' = k then (k', vs @ [v]) # m else (k', vs) # values_add k v m)"

fun values_set :: "bytes \<Rightarrow> bytes \<Rightarrow> Values \<Rightarrow> Values" where
  "values_set k v [] = [(k, [v])]"
| "values_set k v ((k', vs) # m) = (if k' = k then (k', [v]) # m else (k', vs) # values_set k v m)"

definition values_del :: "bytes \<Rightarrow> Values \<Rightarrow> Values" where
  "values_del k m = filter (\<lambda>(k', _). k' \<noteq> k) m"

text \<open>One pair of a query; an error skips it.\<close>

definition parse_pair :: "bytes \<Rightarrow> Values \<Rightarrow> Values" where
  "parse_pair pair m =
     (if 59 \<in> set pair \<or> pair = [] then m
      else case Cut 61 pair of (k, v, _) \<Rightarrow>
        case (QueryUnescape k, QueryUnescape v) of
          (Some key, Some val) \<Rightarrow> values_add key val m
        | _ \<Rightarrow> m)"

function ParseQuery_loop :: "bytes \<Rightarrow> Values \<Rightarrow> Values" where
  "ParseQuery_loop query m =
     (if query = [] then m
      else case Cut 38 query of (pair, rest, _) \<Rightarrow> ParseQuery_loop rest (parse_pair pair m))"
  by pat_completeness auto
termination
  by (relation "measure (\<lambda>(q, m). length q)") (auto dest: Cut_length[OF sym])

declare ParseQuery_loop.simps [simp del]

definition ParseQuery :: "bytes \<Rightarrow> Values" where
  "ParseQuery query = ParseQuery_loop query []"

definition encode_pair :: "bytes \<times> bytes \<Rightarrow> bytes" where
  "encode_pair p = QueryEscape (fst p) @ 61 # QueryEscape (snd p)"

fun join_pairs :: "(bytes \<times> bytes) list \<Rightarrow> bytes" where
  "join_pairs [] = []"
| "join_pairs [p] = encode_pair p"
| "join_pairs (p # q # ps) = encode_pair p @ 38 # join_pairs (q # ps)"

definition pairs_of :: "Values \<Rightarrow> (bytes \<times> bytes) list" where
  "pairs_of m = concat (map (\<lambda>k. map (Pair k) (case map_of m k of Some vs \<Rightarrow> vs | None \<Rightarrow> [])) (sort (map fst m)))"

text \<open>\<^verbatim>\<open>Values.Encode\<close>: the keys in order.\<close>

definition Encode :: "Values \<Rightarrow> bytes" where
  "Encode m = join_pairs (pairs_of m)"

text \<open>The values of a key, none for a key that is not there; every key of a parsed query has one.\<close>

definition vals :: "Values \<Rightarrow> bytes \<Rightarrow> bytes list" where
  "vals m k = (case map_of m k of Some vs \<Rightarrow> vs | None \<Rightarrow> [])"

definition wf_values :: "Values \<Rightarrow> bool" where
  "wf_values m \<longleftrightarrow> distinct (map fst m) \<and> (\<forall>(k, vs) \<in> set m. vs \<noteq> [])"

lemma vals_Cons [simp]: "vals ((k', vs) # m) k = (if k = k' then vs else vals m k)"
  by (simp add: vals_def)

lemma vals_Nil [simp]: "vals [] k = []"
  by (simp add: vals_def)

lemma vals_add [simp]: "vals (values_add k v m) k' = vals m k' @ (if k' = k then [v] else [])"
  by (induction k v m rule: values_add.induct) auto

lemma vals_set [simp]: "vals (values_set k v m) k' = (if k' = k then [v] else vals m k')"
  by (induction k v m rule: values_set.induct) auto

lemma vals_del [simp]: "vals (values_del k m) k' = (if k' = k then [] else vals m k')"
  by (induction m) (auto simp: values_del_def)

lemma keys_add: "fst ` set (values_add k v m) = insert k (fst ` set m)"
  by (induction k v m rule: values_add.induct) auto

lemma keys_set: "fst ` set (values_set k v m) = insert k (fst ` set m)"
  by (induction k v m rule: values_set.induct) auto

lemma wf_values_Nil [simp]: "wf_values []"
  by (simp add: wf_values_def)

lemma wf_values_add [simp]: "wf_values m \<Longrightarrow> wf_values (values_add k v m)"
  using keys_add by (induction k v m rule: values_add.induct) (auto simp: wf_values_def)

lemma wf_values_set [simp]: "wf_values m \<Longrightarrow> wf_values (values_set k v m)"
  using keys_set by (induction k v m rule: values_set.induct) (auto simp: wf_values_def)

lemma wf_values_del [simp]: "wf_values m \<Longrightarrow> wf_values (values_del k m)"
  by (auto simp: wf_values_def values_del_def distinct_map_filter)

lemma wf_values_dom: "wf_values m \<Longrightarrow> map_of m k = (if vals m k = [] then None else Some (vals m k))"
  by (auto simp: wf_values_def vals_def split: option.splits dest: map_of_SomeD)

lemma wf_values_keys: "wf_values m \<Longrightarrow> set (map fst m) = {k. vals m k \<noteq> []}"
proof -
  assume wf: "wf_values m"
  have "set (map fst m) = {k. map_of m k \<noteq> None}" using dom_map_of_conv_image_fst[of m] by (simp add: dom_def)
  then show ?thesis by (simp add: wf_values_dom[OF wf])
qed

lemma wf_ParseQuery_loop: "wf_values m \<Longrightarrow> wf_values (ParseQuery_loop q m)"
proof (induction q m rule: ParseQuery_loop.induct)
  case (1 q m)
  have "wf_values (parse_pair pair m)" for pair
    using 1(2) by (auto simp: parse_pair_def split: prod.split option.split)
  with 1 show ?case by (subst ParseQuery_loop.simps) (auto split: prod.split)
qed

lemma wf_ParseQuery [simp]: "wf_values (ParseQuery q)"
  by (simp add: ParseQuery_def wf_ParseQuery_loop)

text \<open>A pair that is encoded is parsed back, and so is a list of pairs.\<close>

lemma encode_pair_plain: "38 \<notin> set (encode_pair p)" "59 \<notin> set (encode_pair p)" "encode_pair p \<noteq> []"
  by (simp_all add: encode_pair_def QueryEscape_plain)

lemma parse_encode_pair: "parse_pair (encode_pair p) m = values_add (fst p) (snd p) m"
proof -
  have "Cut 61 (encode_pair p) = (QueryEscape (fst p), QueryEscape (snd p), True)"
    unfolding encode_pair_def by (rule Cut_at) (rule QueryEscape_plain)
  then show ?thesis by (simp add: parse_pair_def encode_pair_plain QueryUnescape_Escape)
qed

lemma ParseQuery_join: "ParseQuery_loop (join_pairs ps) m = foldl (\<lambda>m p. values_add (fst p) (snd p) m) m ps"
proof (induction ps arbitrary: m rule: join_pairs.induct)
  case 1
  then show ?case by (simp add: ParseQuery_loop.simps)
next
  case (2 p)
  have "ParseQuery_loop (encode_pair p) m = ParseQuery_loop [] (parse_pair (encode_pair p) m)"
    by (subst ParseQuery_loop.simps) (simp add: Cut_absent encode_pair_plain)
  then show ?case by (simp add: parse_encode_pair ParseQuery_loop.simps)
next
  case (3 p q ps)
  have "ParseQuery_loop (encode_pair p @ 38 # join_pairs (q # ps)) m =
    ParseQuery_loop (join_pairs (q # ps)) (parse_pair (encode_pair p) m)"
    by (subst ParseQuery_loop.simps) (simp add: Cut_at encode_pair_plain)
  with 3 show ?case by (simp add: parse_encode_pair)
qed

lemma vals_foldl_add:
  "vals (foldl (\<lambda>m p. values_add (fst p) (snd p) m) m ps) k = vals m k @ map snd (filter (\<lambda>p. fst p = k) ps)"
  by (induction ps arbitrary: m) auto

lemma pairs_of_key:
  assumes "distinct (map fst m)"
  shows "map snd (filter (\<lambda>p. fst p = k) (pairs_of m)) = vals m k"
proof -
  have *: "map snd (filter (\<lambda>p. fst p = k) (concat (map (\<lambda>k. map (Pair k) (vals m k)) ks))) =
      (if k \<in> set ks then vals m k else [])" if "distinct ks" for ks
    using that by (induction ks) (auto simp: filter_map comp_def filter_empty_conv)
  have "vals m k = []" if "k \<notin> set (map fst m)" using that by (auto simp: vals_def map_of_eq_None_iff[THEN iffD2])
  with *[of "sort (map fst m)"] assms show ?thesis by (simp add: pairs_of_def vals_def)
qed

text \<open>Encoding a query and parsing it again keeps the values of every key.\<close>

lemma vals_Parse_Encode: "wf_values m \<Longrightarrow> vals (ParseQuery (Encode m)) k = vals m k"
  by (simp add: ParseQuery_def Encode_def ParseQuery_join vals_foldl_add pairs_of_key wf_values_def)

section \<open>Hosts and ports\<close>

text \<open>\<^verbatim>\<open>net.SplitHostPort\<close>; an error is its reason.\<close>

datatype addr_error = MissingPort | MissingBracket | TooManyColons | UnexpectedBracket

definition SplitHostPort_net :: "bytes \<Rightarrow> addr_error + bytes \<times> bytes" where
  "SplitHostPort_net hostport =
     (case LastIndexByte hostport 58 of
        None \<Rightarrow> Inl MissingPort
      | Some i \<Rightarrow>
          let finish = (\<lambda>host j k.
                if 91 \<in> set (drop j hostport) \<or> 93 \<in> set (drop k hostport) then Inl UnexpectedBracket
                else Inr (host, drop (i + 1) hostport))
          in if hd hostport = 91
             then (case IndexByte hostport 93 of
                 None \<Rightarrow> Inl MissingBracket
               | Some e \<Rightarrow>
                   if e + 1 = length hostport then Inl MissingPort
                   else if e + 1 = i then finish (sub 1 (e - 1) hostport) 1 (e + 1)
                   else if hostport ! (e + 1) = 58 then Inl TooManyColons else Inl MissingPort)
             else let host = take i hostport in
               if 58 \<in> set host then Inl TooManyColons else finish host 0 0)"

definition JoinHostPort :: "bytes \<Rightarrow> bytes \<Rightarrow> bytes" where
  "JoinHostPort host port = (if 58 \<in> set host then 91 # host @ [93, 58] @ port else host @ 58 # port)"

text \<open>\<^verbatim>\<open>splitHostPort\<close> of \<^verbatim>\<open>net/url\<close>, behind \<^verbatim>\<open>Hostname\<close> and \<^verbatim>\<open>Port\<close>.\<close>

definition digits :: "bytes \<Rightarrow> bool" where
  "digits s \<longleftrightarrow> (\<forall>c \<in> set s. 48 \<le> c \<and> c \<le> 57)"

definition strip_brackets :: "bytes \<Rightarrow> bytes" where
  "strip_brackets h = (if h \<noteq> [] \<and> hd h = 91 \<and> last h = 93 then sub 1 (length h - 2) h else h)"

definition url_split :: "bytes \<Rightarrow> bytes \<times> bytes" where
  "url_split hostPort =
     (case LastIndexByte hostPort 58 of
        Some i \<Rightarrow> if digits (drop (i + 1) hostPort) then (strip_brackets (take i hostPort), drop (i + 1) hostPort)
          else (strip_brackets hostPort, [])
      | None \<Rightarrow> (strip_brackets hostPort, []))"

lemma digits_Itoa: "digits (Itoa (int n))"
  using nat_digits_range by (auto simp: digits_def Itoa_def)

lemma digits_plain: "digits s \<Longrightarrow> 58 \<notin> set s \<and> 91 \<notin> set s \<and> 93 \<notin> set s"
  by (auto simp: digits_def)

lemma strip_brackets_around [simp]: "strip_brackets (91 # h @ [93]) = h"
  by (simp add: strip_brackets_def)

text \<open>What is joined is split, both by \<^verbatim>\<open>net\<close> and by \<^verbatim>\<open>net/url\<close>.\<close>

lemma SplitHostPort_Join:
  assumes "91 \<notin> set host" "93 \<notin> set host" and port: "58 \<notin> set port" "91 \<notin> set port" "93 \<notin> set port"
  shows "SplitHostPort_net (JoinHostPort host port) = Inr (host, port)"
proof (cases "58 \<in> set host")
  case True
  have "LastIndexByte ((91 # host @ [93]) @ 58 # port) 58 = Some (length host + 2)"
    by (subst LastIndexByte_at[OF port(1)]) simp
  moreover have "IndexByte ((91 # host) @ 93 # 58 # port) 93 = Some (length host + 1)"
    by (subst IndexByte_at) (use assms(2) in auto)
  ultimately show ?thesis using True assms by (simp add: SplitHostPort_net_def JoinHostPort_def)
next
  case False
  have "LastIndexByte (host @ 58 # port) 58 = Some (length host)" by (rule LastIndexByte_at[OF port(1)])
  moreover have "hd (host @ 58 # port) \<noteq> 91" using assms(1) by (cases host) auto
  ultimately show ?thesis using False assms by (simp add: SplitHostPort_net_def JoinHostPort_def)
qed

lemma url_split_Join:
  assumes "91 \<notin> set host" "digits port"
  shows "url_split (JoinHostPort host port) = (host, port)"
proof (cases "58 \<in> set host")
  case True
  have "LastIndexByte ((91 # host @ [93]) @ 58 # port) 58 = Some (length host + 2)"
    by (subst LastIndexByte_at) (use digits_plain[OF assms(2)] in auto)
  with True assms(2) show ?thesis
    using strip_brackets_around[of host] by (simp add: url_split_def JoinHostPort_def del: strip_brackets_around)
next
  case False
  have "LastIndexByte (host @ 58 # port) 58 = Some (length host)"
    by (subst LastIndexByte_at) (use digits_plain[OF assms(2)] in auto)
  moreover have "strip_brackets host = host" using assms(1) by (cases host) (auto simp: strip_brackets_def)
  ultimately show ?thesis using False assms(2) by (simp add: url_split_def JoinHostPort_def)
qed

lemma url_split_brackets:
  assumes "58 \<in> set host"
  shows "url_split (91 # host @ [93]) = (host, [])"
proof -
  obtain i where i: "LastIndexByte (91 # host @ [93]) 58 = Some i"
    using LastIndexByte_None[of "91 # host @ [93]" 58] assms by (cases "LastIndexByte (91 # host @ [93]) 58") auto
  have "i < length host + 1" using i
  proof (induction host arbitrary: i)
    case (Cons x host)
    then show ?case by (auto split: option.splits if_splits)
  qed simp
  then have "93 \<in> set (drop (i + 1) (91 # host @ [93]))" by (cases i) auto
  then have "\<not> digits (drop (i + 1) (91 # host @ [93]))" using digits_plain by blast
  with i show ?thesis by (simp add: url_split_def)
qed

end
