(* ===== verification/URL.thy ===== *)
theory URL
  imports Go_URL
begin

text \<open>
  The URL object the Java side uses (\<^verbatim>\<open>url.go\<close>) and \<^verbatim>\<open>SplitHostPort\<close> of
  \<^verbatim>\<open>net.go\<close>. The parser and printer of whole URLs are \<^verbatim>\<open>net/url\<close>'s, as are the
  unescaping of a path or fragment: they are arguments. The query operations refine the map from keys to
  lists of values.
\<close>

section \<open>The object\<close>

text \<open>\<^verbatim>\<open>url.Userinfo\<close> has a name and perhaps a password.\<close>

record netURL =
  Scheme :: bytes
  Opaque :: bytes
  User :: "(bytes \<times> bytes option) option"
  url_Host :: bytes
  Path :: bytes
  RawPath :: bytes
  RawQuery :: bytes
  Fragment :: bytes
  RawFragment :: bytes

definition NewURL :: "bytes \<Rightarrow> netURL" where
  "NewURL scheme = \<lparr>Scheme = scheme, Opaque = [], User = None, url_Host = [], Path = [], RawPath = [],
     RawQuery = [], Fragment = [], RawFragment = []\<rparr>"

definition ParseURL :: "(bytes \<Rightarrow> 'e + netURL) \<Rightarrow> bytes \<Rightarrow> 'e + netURL" where
  "ParseURL parse rawURL = (case parse rawURL of Inl e \<Rightarrow> Inl e | Inr u \<Rightarrow> Inr u)"

definition GetScheme :: "netURL \<Rightarrow> bytes" where "GetScheme u = Scheme u"
definition SetScheme :: "bytes \<Rightarrow> netURL \<Rightarrow> netURL" where "SetScheme scheme u = u\<lparr>Scheme := scheme\<rparr>"
definition GetOpaque :: "netURL \<Rightarrow> bytes" where "GetOpaque u = Opaque u"
definition SetOpaque :: "bytes \<Rightarrow> netURL \<Rightarrow> netURL" where "SetOpaque opaque u = u\<lparr>Opaque := opaque\<rparr>"

section \<open>User and password\<close>

text \<open>The text of the pair is \<^verbatim>\<open>net/url\<close>'s.\<close>

definition GetUserInfo :: "(bytes \<times> bytes option \<Rightarrow> bytes) \<Rightarrow> netURL \<Rightarrow> bytes" where
  "GetUserInfo text u = (case User u of Some i \<Rightarrow> text i | None \<Rightarrow> [])"

definition SetUsernamePassword :: "bytes \<Rightarrow> bytes \<Rightarrow> netURL \<Rightarrow> netURL" where
  "SetUsernamePassword username password u = u\<lparr>User := Some (username, Some password)\<rparr>"

definition HasUsername :: "netURL \<Rightarrow> bool" where
  "HasUsername u = (case User u of Some _ \<Rightarrow> True | None \<Rightarrow> False)"

definition GetUsername :: "netURL \<Rightarrow> bytes" where
  "GetUsername u = (case User u of Some (n, _) \<Rightarrow> n | None \<Rightarrow> [])"

definition SetUsername :: "bytes \<Rightarrow> netURL \<Rightarrow> netURL" where
  "SetUsername username u =
     (case User u of
        Some (_, pw) \<Rightarrow> (case pw of
            None \<Rightarrow> u\<lparr>User := Some (username, None)\<rparr>
          | Some password \<Rightarrow> u\<lparr>User := Some (username, Some password)\<rparr>)
      | None \<Rightarrow> u\<lparr>User := Some (username, None)\<rparr>)"

definition HasPassword :: "netURL \<Rightarrow> bool" where
  "HasPassword u = (case User u of Some (_, pw) \<Rightarrow> pw \<noteq> None | None \<Rightarrow> False)"

definition GetPassword :: "netURL \<Rightarrow> bytes" where
  "GetPassword u = (case User u of Some (_, Some password) \<Rightarrow> password | _ \<Rightarrow> [])"

definition SetPassword :: "bytes \<Rightarrow> netURL \<Rightarrow> netURL" where
  "SetPassword password u =
     (let u1 = (case User u of None \<Rightarrow> u\<lparr>User := Some ([], Some password)\<rparr> | Some _ \<Rightarrow> u)
      in u1\<lparr>User := Some (GetUsername u1, Some password)\<rparr>)"

section \<open>Host and port\<close>

definition GetHost :: "netURL \<Rightarrow> bytes" where
  "GetHost u = fst (url_split (url_Host u))"

definition SetHost :: "bytes \<Rightarrow> netURL \<Rightarrow> netURL" where
  "SetHost host u = (if 58 \<in> set host then u\<lparr>url_Host := 91 # host @ [93]\<rparr> else u\<lparr>url_Host := host\<rparr>)"

definition HasPort :: "netURL \<Rightarrow> bool" where
  "HasPort u = (case SplitHostPort_net (url_Host u) of Inl _ \<Rightarrow> False | Inr (_, portStr) \<Rightarrow> length portStr > 0)"

definition GetPort :: "netURL \<Rightarrow> int" where
  "GetPort u = (let portStr = snd (url_split (url_Host u)) in
     if portStr = [] then 0 else to_int32 (fst (Atoi portStr)))"

definition SetHostPort :: "bytes \<Rightarrow> int \<Rightarrow> netURL \<Rightarrow> netURL" where
  "SetHostPort host port u = u\<lparr>url_Host := JoinHostPort host (Itoa port)\<rparr>"

definition GetRawHost :: "netURL \<Rightarrow> bytes" where "GetRawHost u = url_Host u"
definition SetRawHost :: "bytes \<Rightarrow> netURL \<Rightarrow> netURL" where "SetRawHost host u = u\<lparr>url_Host := host\<rparr>"

section \<open>Path and fragment\<close>

definition GetPath :: "netURL \<Rightarrow> bytes" where "GetPath u = Path u"

definition SetPath :: "bytes \<Rightarrow> netURL \<Rightarrow> netURL" where
  "SetPath path u = u\<lparr>Path := path, RawPath := []\<rparr>"

definition GetRawPath :: "netURL \<Rightarrow> bytes" where
  "GetRawPath u = (if length (RawPath u) > 0 then RawPath u else Path u)"

text \<open>\<^verbatim>\<open>setPath\<close> and \<^verbatim>\<open>setFragment\<close> of \<^verbatim>\<open>net/url\<close>: the error, and the URL.\<close>

definition SetRawPath :: "(netURL \<Rightarrow> bytes \<Rightarrow> 'e option \<times> netURL) \<Rightarrow> bytes \<Rightarrow> netURL \<Rightarrow> 'e option \<times> netURL" where
  "SetRawPath setPath rawPath u = setPath u rawPath"

definition GetFragment :: "netURL \<Rightarrow> bytes" where "GetFragment u = Fragment u"

definition SetFragment :: "bytes \<Rightarrow> netURL \<Rightarrow> netURL" where
  "SetFragment fragment u = u\<lparr>Fragment := fragment, RawFragment := []\<rparr>"

definition GetRawFragment :: "netURL \<Rightarrow> bytes" where
  "GetRawFragment u = (if length (RawFragment u) > 0 then RawFragment u else Fragment u)"

definition SetRawFragment :: "(netURL \<Rightarrow> bytes \<Rightarrow> 'e option \<times> netURL) \<Rightarrow> bytes \<Rightarrow> netURL \<Rightarrow> 'e option \<times> netURL" where
  "SetRawFragment setFragment rawFragment u = setFragment u rawFragment"

definition GetString :: "(netURL \<Rightarrow> bytes) \<Rightarrow> netURL \<Rightarrow> bytes" where
  "GetString print u = print u"

section \<open>Query\<close>

definition GetRawQuery :: "netURL \<Rightarrow> bytes" where "GetRawQuery u = RawQuery u"
definition SetRawQuery :: "bytes \<Rightarrow> netURL \<Rightarrow> netURL" where "SetRawQuery rawQuery u = u\<lparr>RawQuery := rawQuery\<rparr>"

definition Query :: "netURL \<Rightarrow> Values" where
  "Query u = ParseQuery (RawQuery u)"

definition CountQueryParameters :: "netURL \<Rightarrow> nat" where
  "CountQueryParameters u = length (Query u)"

definition HasQueryParameter :: "bytes \<Rightarrow> netURL \<Rightarrow> bool" where
  "HasQueryParameter key u = (map_of (Query u) key \<noteq> None)"

definition GetQueryParameter :: "bytes \<Rightarrow> netURL \<Rightarrow> bytes" where
  "GetQueryParameter key u = (case map_of (Query u) key of Some (v # _) \<Rightarrow> v | _ \<Rightarrow> [])"

definition CountQueryParameter :: "bytes \<Rightarrow> netURL \<Rightarrow> nat" where
  "CountQueryParameter key u = (case map_of (Query u) key of Some value \<Rightarrow> length value | None \<Rightarrow> 0)"

definition GetQueryParameterAt :: "bytes \<Rightarrow> int \<Rightarrow> netURL \<Rightarrow> bytes" where
  "GetQueryParameterAt key i u =
     (case map_of (Query u) key of
        None \<Rightarrow> []
      | Some value \<Rightarrow> if i < 0 \<or> i \<ge> int (length value) then [] else value ! nat i)"

definition AddQueryParameter :: "bytes \<Rightarrow> bytes \<Rightarrow> netURL \<Rightarrow> netURL" where
  "AddQueryParameter key value u = u\<lparr>RawQuery := Encode (values_add key value (Query u))\<rparr>"

definition SetQueryParameter :: "bytes \<Rightarrow> bytes \<Rightarrow> netURL \<Rightarrow> netURL" where
  "SetQueryParameter key value u = u\<lparr>RawQuery := Encode (values_set key value (Query u))\<rparr>"

definition DeleteQueryParameter :: "bytes \<Rightarrow> netURL \<Rightarrow> netURL" where
  "DeleteQueryParameter key u = u\<lparr>RawQuery := Encode (values_del key (Query u))\<rparr>"

text \<open>All pairs, the keys in the order in which Go ranges over the map, an argument.\<close>

record QueryParameters =
  qp_size :: nat
  qp_keys :: "bytes list"
  qp_values :: "bytes list"

definition qp_append :: "bytes \<Rightarrow> bytes \<Rightarrow> QueryParameters \<Rightarrow> QueryParameters" where
  "qp_append key value q = q\<lparr>qp_size := Suc (qp_size q), qp_keys := qp_keys q @ [key], qp_values := qp_values q @ [value]\<rparr>"

definition url_QueryParameters :: "bytes list \<Rightarrow> netURL \<Rightarrow> QueryParameters" where
  "url_QueryParameters order u =
     foldl (\<lambda>q key. foldl (\<lambda>q value. qp_append key value q) q
         (case map_of (Query u) key of Some values \<Rightarrow> values | None \<Rightarrow> []))
       \<lparr>qp_size = 0, qp_keys = [], qp_values = []\<rparr> order"

definition QueryParameters_Size :: "QueryParameters \<Rightarrow> nat" where
  "QueryParameters_Size q = qp_size q"

definition GetKeyAt :: "QueryParameters \<Rightarrow> int \<Rightarrow> bytes go" where
  "GetKeyAt q i = (if i < 0 \<or> i \<ge> int (length (qp_keys q)) then Panic else Ret (qp_keys q ! nat i))"

definition GetValueAt :: "QueryParameters \<Rightarrow> int \<Rightarrow> bytes go" where
  "GetValueAt q i = (if i < 0 \<or> i \<ge> int (length (qp_values q)) then Panic else Ret (qp_values q ! nat i))"

section \<open>SplitHostPort\<close>

datatype split_error = AddrError addr_error | NotNumeric | AtoiError

definition SplitHostPort :: "bytes \<Rightarrow> split_error + bytes \<times> int" where
  "SplitHostPort s =
     (case SplitHostPort_net s of
        Inl e \<Rightarrow> Inl (AddrError e)
      | Inr (host, portStr) \<Rightarrow>
          if \<exists>b \<in> set portStr. b < 48 \<or> b > 57 then Inl NotNumeric
          else case Atoi portStr of (port, ok) \<Rightarrow>
            if \<not> ok then Inl AtoiError else Inr (host, to_int32 port))"

section \<open>Kinds of addresses\<close>

text \<open>
  What \<^verbatim>\<open>netip.ParseAddr\<close> finds of a text is an argument: nothing, or the kind of address it is; one of
  IPv6 may carry an IPv4 address and is still of IPv6.
\<close>

datatype ip_kind = Kind4 bool | Kind6 bool

definition IsIP :: "(bytes \<Rightarrow> ip_kind option) \<Rightarrow> bytes \<Rightarrow> bool" where
  "IsIP parse input = (case parse input of None \<Rightarrow> False | Some _ \<Rightarrow> True)"

definition IsIPv4 :: "(bytes \<Rightarrow> ip_kind option) \<Rightarrow> bytes \<Rightarrow> bool" where
  "IsIPv4 parse input = (case parse input of Some (Kind4 _) \<Rightarrow> True | _ \<Rightarrow> False)"

definition IsIPv6 :: "(bytes \<Rightarrow> ip_kind option) \<Rightarrow> bytes \<Rightarrow> bool" where
  "IsIPv6 parse input = (case parse input of Some (Kind6 _) \<Rightarrow> True | _ \<Rightarrow> False)"

text \<open>A kind has whether the address is the host's own.\<close>

definition IsLoopbackIP :: "(bytes \<Rightarrow> ip_kind option) \<Rightarrow> bytes \<Rightarrow> bool" where
  "IsLoopbackIP parse input =
     (case parse input of Some (Kind4 own) \<Rightarrow> own | Some (Kind6 own) \<Rightarrow> own | None \<Rightarrow> False)"

lemma ip_kinds:
  "IsIP parse s \<longleftrightarrow> IsIPv4 parse s \<or> IsIPv6 parse s" "\<not> (IsIPv4 parse s \<and> IsIPv6 parse s)"
  "IsLoopbackIP parse s \<Longrightarrow> IsIP parse s"
  by (auto simp: IsIP_def IsIPv4_def IsIPv6_def IsLoopbackIP_def split: option.splits ip_kind.splits)

section \<open>The query refines a map of lists\<close>

definition query_abs :: "netURL \<Rightarrow> bytes \<Rightarrow> bytes list" where
  "query_abs u key = vals (Query u) key"

lemma Query_map_of: "map_of (Query u) key = (if query_abs u key = [] then None else Some (query_abs u key))"
  by (simp add: query_abs_def Query_def wf_values_dom)

lemma query_abs_Encode: "wf_values m \<Longrightarrow> query_abs (u\<lparr>RawQuery := Encode m\<rparr>) key = vals m key"
  by (simp add: query_abs_def Query_def vals_Parse_Encode)

lemma wf_Query [simp]: "wf_values (Query u)"
  by (simp add: Query_def)

lemma CountQueryParameters_abs: "CountQueryParameters u = card {key. query_abs u key \<noteq> []}"
proof -
  have "set (map fst (Query u)) = {key. query_abs u key \<noteq> []}" unfolding query_abs_def by (rule wf_values_keys) simp
  moreover have "card (set (map fst (Query u))) = length (Query u)"
    using wf_Query[of u] distinct_card[of "map fst (Query u)"] by (simp add: wf_values_def)
  ultimately show ?thesis by (simp add: CountQueryParameters_def)
qed


text \<open>
  C24: The host and port set in a URL are the host and port read from it, for every host without brackets
  and every port that is not negative; the host set alone too, if it has a colon or no brackets.
\<close>

theorem url_host_port_roundtrip:
  assumes "91 \<notin> set host" "93 \<notin> set host" "0 \<le> port" "port < 2 ^ 31"
  shows "GetHost (SetHostPort host port u) = host \<and> GetPort (SetHostPort host port u) = port \<and>
    HasPort (SetHostPort host port u) \<and> GetHost (SetHost host u) = host \<and> GetPort (SetHost host u) = 0 \<and>
    \<not> HasPort (SetHost host u)"
proof -
  obtain n where n: "port = int n" using assms(3) nonneg_int_cases by blast
  have d: "digits (Itoa port)" unfolding n by (rule digits_Itoa)
  have a: "Atoi (Itoa port) = (port, True)" unfolding n
  proof (rule Atoi_Itoa)
    have "n < 2147483648" using assms(4) n by simp
    then show "n < 2 ^ 63" by simp
  qed
  have ne: "Itoa port \<noteq> []" by (simp add: n Itoa_def)
  have i32: "to_int32 port = port" using assms(3,4) by (intro to_int32_id) auto
  have "GetHost (SetHost host u) = host \<and> GetPort (SetHost host u) = 0 \<and> \<not> HasPort (SetHost host u)"
  proof (cases "58 \<in> set host")
    case True
    have "IndexByte ((91 # host) @ [93]) 93 = Some (length host + 1)" by (subst IndexByte_at) (use assms(2) in auto)
    with True show ?thesis
      by (simp add: GetHost_def GetPort_def SetHost_def HasPort_def url_split_brackets SplitHostPort_net_def split: option.split)
  next
    case False
    have "strip_brackets host = host" using assms(1) by (cases host) (auto simp: strip_brackets_def)
    moreover have l: "LastIndexByte host 58 = None" using False by simp
    ultimately show ?thesis using False
      by (simp add: l GetHost_def GetPort_def SetHost_def HasPort_def url_split_def SplitHostPort_net_def)
  qed
  with assms(1,2) d a ne i32 show ?thesis
    by (simp add: GetHost_def GetPort_def HasPort_def SetHostPort_def url_split_Join SplitHostPort_Join digits_plain)
qed

theorem url_host_port_roundtrip_witness:
  "GetHost (SetHostPort (str ''::1'') 443 (NewURL [])) = str ''::1'' \<and> url_Host (SetHostPort (str ''::1'') 443 (NewURL [])) = str ''[::1]:443''"
proof -
  have "url_Host (SetHostPort (str ''::1'') 443 (NewURL [])) = str ''[::1]:443''"
    by (simp add: SetHostPort_def JoinHostPort_def Itoa_def nat_digits.simps str_def)
  then show ?thesis using url_host_port_roundtrip[of "str ''::1''" 443 "NewURL []"] by (simp add: str_def)
qed

text \<open>
  \<open>SplitHostPort\<close> gives back a host without brackets and a number, but reads the number modulo
  2 to the 32: it accepts ports that no socket has, and reads some of them as others.
\<close>

theorem SplitHostPort_any_number:
  assumes "91 \<notin> set host" "93 \<notin> set host" "n < 2 ^ 63"
  shows "SplitHostPort (JoinHostPort host (Itoa (int n))) = Inr (host, to_int32 (int n))"
proof -
  have "\<not> (\<exists>b \<in> set (Itoa (int n)). b < 48 \<or> b > 57)" using digits_Itoa[of n] by (auto simp: digits_def not_less)
  with assms show ?thesis
    by (simp add: SplitHostPort_def SplitHostPort_Join digits_plain[OF digits_Itoa] Atoi_Itoa)
qed

theorem SplitHostPort_any_number_witness:
  "SplitHostPort (str ''a:4294967376'') = Inr (str ''a'', 80)"
proof -
  have "JoinHostPort (str ''a'') (Itoa (int 4294967376)) = str ''a:4294967376''"
    by (simp add: JoinHostPort_def Itoa_def nat_digits.simps str_def)
  moreover have "to_int32 (int 4294967376) = 80" by (simp add: to_int32_def)
  ultimately show ?thesis using SplitHostPort_any_number[of "str ''a''" 4294967376] by (simp add: str_def)
qed

end
