(* ===== verification/V2Ray.thy ===== *)
theory V2Ray
  imports Go_Numbers Machine
begin

text \<open>
  The instance of the proxy core the Java side drives (\<^verbatim>\<open>v2ray.go\<close>, \<^verbatim>\<open>observatory.go\<close>):
  it is loaded with a configuration, started, dialled through and closed. The core itself is a library:
  a core it creates is a number together with the features it has, and what its operations return are
  arguments of the instance's.
\<close>

section \<open>The instance\<close>

text \<open>\<open>None\<close> for a feature is a core without it.\<close>

record core =
  core_id :: nat
  core_Dispatcher :: "nat option"
  core_stats :: "nat option"
  core_Observatory :: "nat option"

record V2RayInstance =
  started :: bool
  closed :: bool
  inst_core :: "core option"
  dispatcher :: "nat option"
  statsManager :: "nat option"
  observatory :: "nat option"
  has_resolver :: bool

definition new_instance :: V2RayInstance where
  "new_instance = \<lparr>started = False, closed = False, inst_core = None, dispatcher = None, statsManager = None,
     observatory = None, has_resolver = False\<rparr>"

datatype instance_error = InstanceClosed | AlreadyStarted | NotInitialized | NotStarted | ObservatoryUnavailable | LibraryError bytes

text \<open>What parsing the configuration and making a core of it come to.\<close>

datatype load_outcome = BadConfig bytes | NewFailed bytes | Created core

text \<open>\<open>LoadConfig\<close>: the error and the instance; a core without a dispatcher or statistics panics.\<close>

definition LoadConfig :: "load_outcome \<Rightarrow> V2RayInstance \<Rightarrow> (instance_error option \<times> V2RayInstance) go" where
  "LoadConfig outcome i =
     (if closed i then Ret (Some InstanceClosed, i)
      else if started i then Ret (Some AlreadyStarted, i)
      else case outcome of
          BadConfig e \<Rightarrow> Ret (Some (LibraryError e), i)
        | NewFailed e \<Rightarrow> Ret (Some (LibraryError e), i\<lparr>inst_core := None\<rparr>)
        | Created c \<Rightarrow>
            (case (core_Dispatcher c, core_stats c) of
               (Some d, Some s) \<Rightarrow>
                 let i1 = i\<lparr>inst_core := Some c, dispatcher := Some d, statsManager := Some s\<rparr>
                 in Ret (None, case core_Observatory c of Some ob \<Rightarrow> i1\<lparr>observatory := Some ob\<rparr> | None \<Rightarrow> i1)
             | _ \<Rightarrow> Panic))"

definition Start :: "bytes option \<Rightarrow> V2RayInstance \<Rightarrow> instance_error option \<times> V2RayInstance" where
  "Start coreErr i =
     (if closed i then (Some InstanceClosed, i)
      else if started i then (Some AlreadyStarted, i)
      else if inst_core i = None then (Some NotInitialized, i)
      else case coreErr of
          Some e \<Rightarrow> (Some (LibraryError e), i)
        | None \<Rightarrow> (None, i\<lparr>started := True\<rparr>))"

definition Close :: "V2RayInstance \<Rightarrow> instance_error option \<times> V2RayInstance" where
  "Close i =
     (if closed i then (Some InstanceClosed, i)
      else let i1 = i\<lparr>closed := True\<rparr> in
        (None, if started i1 then i1\<lparr>inst_core := None, dispatcher := None, statsManager := None,
                 observatory := None, started := False\<rparr> else i1))"

text \<open>
  \<open>QueryStats\<close>: a counter of the statistics manager is read and set to 0. The managers' counters are a
  map, an argument and a result.
\<close>

definition counter_name :: "bytes \<Rightarrow> bytes \<Rightarrow> bytes" where
  "counter_name tag direct = str ''outbound>>>'' @ tag @ str ''>>>traffic>>>'' @ direct"

definition QueryStats ::
  "bytes \<Rightarrow> bytes \<Rightarrow> V2RayInstance \<Rightarrow> (nat \<Rightarrow> bytes \<Rightarrow> int option) \<Rightarrow> int \<times> (nat \<Rightarrow> bytes \<Rightarrow> int option)" where
  "QueryStats tag direct i counters =
     (case statsManager i of
        None \<Rightarrow> (0, counters)
      | Some m \<Rightarrow>
          (case counters m (counter_name tag direct) of
             None \<Rightarrow> (0, counters)
           | Some v \<Rightarrow> (v, counters(m := (counters m)(counter_name tag direct \<mapsto> 0)))))"

text \<open>
  \<open>dial\<close> and \<open>dialUDP\<close> are the core's, guarded; \<open>dispatch d\<close> is what the dispatcher returns, a link or an
  error, and a nil dispatcher panics.
\<close>

definition dial :: "(core \<Rightarrow> bytes + 'conn) \<Rightarrow> V2RayInstance \<Rightarrow> (instance_error + 'conn) go" where
  "dial coreDial i =
     (if closed i then Ret (Inl InstanceClosed)
      else if \<not> started i then Ret (Inl NotStarted)
      else case inst_core i of
          None \<Rightarrow> Panic
        | Some c \<Rightarrow> Ret (map_sum LibraryError id (coreDial c)))"

definition dialUDP :: "(nat \<Rightarrow> bytes + 'link) \<Rightarrow> V2RayInstance \<Rightarrow> (instance_error + 'link) go" where
  "dialUDP dispatch i =
     (if closed i then Ret (Inl InstanceClosed)
      else if \<not> started i then Ret (Inl NotStarted)
      else case dispatcher i of
          None \<Rightarrow> Panic
        | Some d \<Rightarrow> Ret (map_sum LibraryError id (dispatch d)))"

section \<open>Observatory\<close>

text \<open>
  The features of a tag are found by the observatory or not: \<open>byTag ob tag\<close>. The status is marshalled by a
  library, so it is bytes here.
\<close>

definition GetObservatoryStatus ::
  "(nat \<Rightarrow> bytes \<Rightarrow> bytes + nat) \<Rightarrow> (nat \<Rightarrow> bytes + bytes) \<Rightarrow> bytes \<Rightarrow> V2RayInstance \<Rightarrow> instance_error + bytes" where
  "GetObservatoryStatus byTag observation tag i =
     (case observatory i of
        None \<Rightarrow> Inl ObservatoryUnavailable
      | Some ob \<Rightarrow>
          (case byTag ob tag of
             Inl e \<Rightarrow> Inl (LibraryError e)
           | Inr observer \<Rightarrow> map_sum LibraryError id (observation observer)))"

text \<open>The result has the observer that is updated and its status.\<close>

definition UpdateStatus ::
  "(nat \<Rightarrow> bytes \<Rightarrow> bytes + nat) \<Rightarrow> (bytes \<Rightarrow> bytes + 'status) \<Rightarrow> bytes \<Rightarrow> bytes \<Rightarrow> V2RayInstance \<Rightarrow>
     instance_error + nat \<times> 'status" where
  "UpdateStatus byTag unmarshal tag status i =
     (case observatory i of
        None \<Rightarrow> Inl ObservatoryUnavailable
      | Some ob \<Rightarrow>
          (case unmarshal status of
             Inl e \<Rightarrow> Inl (LibraryError e)
           | Inr s \<Rightarrow>
               (case byTag ob tag of
                  Inl e \<Rightarrow> Inl (LibraryError e)
                | Inr observer \<Rightarrow> Inr (observer, s))))"

text \<open>The listener is set at the observer; here the instance's observatory is not compared with nil.\<close>

definition SetStatusUpdateListener ::
  "(nat \<Rightarrow> bytes \<Rightarrow> bytes + nat) \<Rightarrow> bytes \<Rightarrow> 'listener option \<Rightarrow> V2RayInstance \<Rightarrow>
     (instance_error + nat \<times> 'listener option) go" where
  "SetStatusUpdateListener byTag tag listener i =
     (case observatory i of
        None \<Rightarrow> Panic
      | Some ob \<Rightarrow>
          Ret (case byTag ob tag of
             Inl e \<Rightarrow> Inl (LibraryError e)
           | Inr observer \<Rightarrow> Inr (observer, listener)))"

section \<open>The resolver\<close>

datatype dns_error = RCodeError int | ResolverError bytes | ErrEmptyResponse

text \<open>
  \<open>lookupFunc\<close> on the Java resolver's answer: an error \<^verbatim>\<open>rcode n\<close> is the response code \<open>n\<close>, an
  answer is a list of addresses. \<open>parse\<close> is \<^verbatim>\<open>net.ParseIP\<close>, with IPv4 shortened to 4 bytes.
\<close>

definition lookupFunc :: "(bytes \<Rightarrow> bytes option) \<Rightarrow> bytes + bytes \<Rightarrow> (dns_error + bytes option list) go" where
  "lookupFunc parse answer =
     (case answer of
        Inl errStr \<Rightarrow>
          if take 5 errStr = str ''rcode''
          then (case split_at 32 errStr of
              _ # r # _ \<Rightarrow> Ret (Inl (RCodeError (fst (Atoi r))))
            | _ \<Rightarrow> Panic)
          else Ret (Inl (ResolverError errStr))
      | Inr response \<Rightarrow>
          if response = [] then Ret (Inl ErrEmptyResponse)
          else let ips = map parse (split_at 44 response) in
            if ips = [] then Ret (Inl ErrEmptyResponse) else Ret (Inr ips))"

text \<open>
  Installing a resolver, or none, in the instance and in the process, where functions that look up names
  and that exchange raw queries are set or not. A resolver says whether it can exchange.
\<close>

record 'r localdns =
  LookupFunc :: "'r option"
  RawQueryFunc :: "'r option"

definition WithLocalResolver :: "('r \<times> bool) option \<Rightarrow> V2RayInstance \<Rightarrow> 'r localdns \<Rightarrow> V2RayInstance \<times> 'r localdns" where
  "WithLocalResolver localResolver i g =
     (case localResolver of
        None \<Rightarrow> (i\<lparr>has_resolver := False\<rparr>, g\<lparr>LookupFunc := None, RawQueryFunc := None\<rparr>)
      | Some (r, supportExchange) \<Rightarrow>
          (i\<lparr>has_resolver := True\<rparr>,
           (if supportExchange then g\<lparr>LookupFunc := Some r, RawQueryFunc := Some r\<rparr> else g\<lparr>LookupFunc := Some r\<rparr>)))"

text \<open>
  A resolver that cannot exchange, installed after one that can, leaves the raw queries with the former.
\<close>

lemma WithLocalResolver_stale:
  assumes "WithLocalResolver (Some (r1, True)) i g = (i1, g1)" "WithLocalResolver (Some (r2, False)) i1 g1 = (i2, g2)"
  shows "has_resolver i2 \<and> LookupFunc g2 = Some r2 \<and> RawQueryFunc g2 = Some r1"
  using assms by (auto simp: WithLocalResolver_def)

text \<open>The two dialers the process has, made when first used; the result is the one in use.\<close>

record dialers =
  systemDialer :: "bytes option"
  systemDialerWithProtect :: "bytes option"
  dialer_in_use :: "bytes option"

text \<open>A dialer is the path of its protector, empty for none.\<close>

definition WithAlternativeSystemDialer :: "bytes \<Rightarrow> V2RayInstance \<Rightarrow> dialers \<Rightarrow> dialers go" where
  "WithAlternativeSystemDialer protectPath i g =
     (if \<not> has_resolver i then Panic
      else if length protectPath = 0
      then let g1 = (if systemDialer g = None then g\<lparr>systemDialer := Some []\<rparr> else g)
           in Ret (g1\<lparr>dialer_in_use := systemDialer g1\<rparr>)
      else let g1 = (if systemDialerWithProtect g = None then g\<lparr>systemDialerWithProtect := Some protectPath\<rparr> else g)
           in Ret (g1\<lparr>dialer_in_use := systemDialerWithProtect g1\<rparr>))"

section \<open>The life of an instance\<close>

text \<open>
  The operations in any order, with any outcome, together with the cores made, started and closed. A new
  core has a new number.
\<close>

datatype core_event = Made core | CoreStarted core | CoreClosed core

inductive instance_step :: "V2RayInstance \<times> core_event list \<Rightarrow> V2RayInstance \<times> core_event list \<Rightarrow> bool" where
  load: "LoadConfig outcome i = Ret (e, i') \<Longrightarrow>
    (case outcome of Created c \<Rightarrow> Made c \<notin> set evs \<and> new = (if e = None then [Made c] else []) | _ \<Rightarrow> new = []) \<Longrightarrow>
    instance_step (i, evs) (i', evs @ new)"
| start: "Start coreErr i = (e, i') \<Longrightarrow> new = (if e = None then [CoreStarted (the (inst_core i))] else []) \<Longrightarrow>
    instance_step (i, evs) (i', evs @ new)"
| close: "Close i = (e, i') \<Longrightarrow> new = (if e = None \<and> started i then [CoreClosed (the (inst_core i))] else []) \<Longrightarrow>
    instance_step (i, evs) (i', evs @ new)"

inductive_cases instance_stepE: "instance_step s s'"

abbreviation instance_reach :: "V2RayInstance \<times> core_event list \<Rightarrow> bool" where
  "instance_reach \<equiv> reaches instance_step (new_instance, [])"

text \<open>
  A started instance has a core with its dispatcher and statistics, and that core, and no other, runs. A
  closed one runs none, and never again.
\<close>

fun running :: "core_event list \<Rightarrow> core list" where
  "running [] = []"
| "running (Made c # es) = running es"
| "running (CoreStarted c # es) = c # running es"
| "running (CoreClosed c # es) = removeAll c (running es)"

definition running_now :: "core_event list \<Rightarrow> core list" where
  "running_now evs = running (rev evs)"

definition instance_inv :: "V2RayInstance \<times> core_event list \<Rightarrow> bool" where
  "instance_inv s = (case s of (i, evs) \<Rightarrow>
     (started i \<longrightarrow> \<not> closed i \<and> inst_core i \<noteq> None) \<and>
     (\<forall>c. inst_core i = Some c \<longrightarrow> core_Dispatcher c = dispatcher i \<and> dispatcher i \<noteq> None \<and>
        core_stats c = statsManager i \<and> statsManager i \<noteq> None) \<and>
     running_now evs = (if started i then [the (inst_core i)] else []))"

lemma running_now_snoc [simp]:
  "running_now [] = []"
  "running_now (evs @ [Made c]) = running_now evs"
  "running_now (evs @ [CoreStarted c]) = c # running_now evs"
  "running_now (evs @ [CoreClosed c]) = removeAll c (running_now evs)"
  by (simp_all add: running_now_def)

lemma LoadConfig_cases:
  assumes "LoadConfig outcome i = Ret (e, i')"
  obtains "closed i \<or> started i" "i' = i" "e \<noteq> None"
  | "\<not> closed i" "\<not> started i" "i' = i \<or> i' = i\<lparr>inst_core := None\<rparr>" "e \<noteq> None"
  | c d st ob where "\<not> closed i" "\<not> started i" "outcome = Created c" "core_Dispatcher c = Some d" "core_stats c = Some st"
      "i' = i\<lparr>inst_core := Some c, dispatcher := Some d, statsManager := Some st, observatory := ob\<rparr>" "e = None"
      "ob = (case core_Observatory c of Some x \<Rightarrow> Some x | None \<Rightarrow> observatory i)"
proof (cases "closed i \<or> started i")
  case True
  with assms that(1) show thesis by (auto simp: LoadConfig_def split: if_splits)
next
  case False
  show thesis
  proof (cases outcome)
    case (Created c)
    with assms False that(3)[of c _ _ "case core_Observatory c of Some x \<Rightarrow> Some x | None \<Rightarrow> observatory i"] show thesis
      by (cases "core_Dispatcher c"; cases "core_stats c"; cases "core_Observatory c") (auto simp: LoadConfig_def)
  qed (use assms False that(2) in \<open>auto simp: LoadConfig_def\<close>)
qed

lemma instance_step_inv: "instance_step s s' \<Longrightarrow> instance_inv s \<Longrightarrow> instance_inv s'"
proof (induction rule: instance_step.induct)
  case (load outcome i e i' evs new)
  from load(1) show ?case
  proof (cases rule: LoadConfig_cases)
    case (3 c d st ob)
    with load(2,3) show ?thesis by (simp add: instance_inv_def)
  qed (use load(2,3) in \<open>auto simp: instance_inv_def split: load_outcome.splits\<close>)
next
  case (start coreErr i e i' new evs)
  then show ?case by (auto simp: instance_inv_def Start_def split: if_splits option.splits)
next
  case (close i e i' new evs)
  then show ?case by (auto simp: instance_inv_def Close_def Let_def split: if_splits)
qed

interpretation life: machine instance_step instance_inv "(new_instance, [])"
proof
  fix s s' assume "instance_inv s" "instance_step s s'"
  then show "instance_inv s'" by (rule instance_step_inv[rotated])
qed (simp add: instance_inv_def new_instance_def)

lemma closed_stays: "instance_step s s' \<Longrightarrow> closed (fst s) \<Longrightarrow> s' = s"
  by (auto elim!: instance_stepE simp: LoadConfig_def Start_def Close_def split: load_outcome.splits)



lemma library_error_other [simp]: "map_sum LibraryError id x \<noteq> Inl ObservatoryUnavailable"
  by (cases x) auto

text \<open>
  An observatory outlives its core: when a configuration with one is loaded and then, before the start,
  one without, the running instance still answers from the first core's observatory instead of saying that
  there is none; and setting a listener on an instance that never had one panics.
\<close>

theorem stale_observatory:
  assumes "LoadConfig (Created c) i = Ret (None, i1)" "LoadConfig (Created c') i1 = Ret (None, i2)"
    and "core_Observatory c = Some ob" "core_Observatory c' = None"
  shows "inst_core i2 = Some c' \<and> observatory i2 = Some ob \<and>
    GetObservatoryStatus byTag observation tag i2 \<noteq> Inl ObservatoryUnavailable \<and>
    SetStatusUpdateListener byTag tag listener new_instance = Panic"
  using assms library_error_other
  by (auto simp: LoadConfig_def Let_def GetObservatoryStatus_def SetStatusUpdateListener_def new_instance_def
      split: if_splits option.splits sum.splits)

theorem stale_observatory_witness:
  "\<exists>i1 i2. LoadConfig (Created \<lparr>core_id = 1, core_Dispatcher = Some 1, core_stats = Some 1, core_Observatory = Some 5\<rparr>) new_instance = Ret (None, i1) \<and>
     LoadConfig (Created \<lparr>core_id = 2, core_Dispatcher = Some 2, core_stats = Some 2, core_Observatory = None\<rparr>) i1 = Ret (None, i2) \<and>
     observatory i2 = Some 5"
proof -
  let ?c = "\<lparr>core_id = 1, core_Dispatcher = Some 1, core_stats = Some 1, core_Observatory = Some 5\<rparr>"
  let ?c' = "\<lparr>core_id = 2, core_Dispatcher = Some 2, core_stats = Some 2, core_Observatory = None\<rparr>"
  obtain i1 i2 where l: "LoadConfig (Created ?c) new_instance = Ret (None, i1)" "LoadConfig (Created ?c') i1 = Ret (None, i2)"
    by (simp add: LoadConfig_def new_instance_def)
  from stale_observatory[OF l, of 5] l show ?thesis by auto
qed

end
