(* ===== verification/Dispatcher_Conn.thy ===== *)
theory Dispatcher_Conn
  imports Prelude Machine "HOL-Library.Sublist"
begin

text \<open>
  The packet connection over the core's dispatcher (\<^verbatim>\<open>dispatcherConn\<close> in \<^verbatim>\<open>v2ray.go\<close>).
  One goroutine takes packets from the link and puts them in a channel of 16 places; readers take them
  out; the timer, a failing write or the user close it meanwhile. A step of the relation is one operation
  on the channel or the context, so every interleaving is a run. Where a \<^verbatim>\<open>select\<close> has more
  than one case ready, Go picks one at random: the pick is an argument. A destination is of type \<open>'d\<close>.
\<close>

section \<open>The connection\<close>

text \<open>Where the goroutine is: before the check of the context, reading, with buffers left to put, ended, or panicked.\<close>

datatype 'd handler = Loop | Reading | Delivering "(bytes \<times> 'd option) list" | Stopped | Crashed

text \<open>The last three fields record what came from the link, what was read, and how many packets were dropped.\<close>

record 'd dispatcherConn =
  cache :: "(bytes \<times> 'd) list"
  cancelled :: bool
  closing :: bool
  cache_closed :: bool
  handler :: "'d handler"
  taken :: "(bytes \<times> 'd) list"
  delivered :: "(bytes \<times> 'd) list"
  dropped :: nat

definition new_dispatcherConn :: "'d dispatcherConn" where
  "new_dispatcherConn = \<lparr>cache = [], cancelled = False, closing = False, cache_closed = False, handler = Loop,
     taken = [], delivered = [], dropped = 0\<rparr>"

text \<open>\<open>Close\<close>: the two effects, once; other callers wait for the one that closes.\<close>

definition close_begin :: "'d dispatcherConn \<Rightarrow> 'd dispatcherConn" where
  "close_begin c = c\<lparr>closing := True, cancelled := True\<rparr>"

definition close_end :: "'d dispatcherConn \<Rightarrow> 'd dispatcherConn" where
  "close_end c = (if closing c then c\<lparr>cache_closed := True\<rparr> else c)"

definition dc_Close :: "'d dispatcherConn \<Rightarrow> 'd dispatcherConn" where
  "dc_Close c = close_end (close_begin c)"

text \<open>The loop of \<open>handleInput\<close>: the check, a read that came to buffers or to an error, one buffer.\<close>

definition dc_check :: "'d dispatcherConn \<Rightarrow> 'd dispatcherConn" where
  "dc_check c = (if cancelled c then (dc_Close c)\<lparr>handler := Stopped\<rparr> else c\<lparr>handler := Reading\<rparr>)"

definition dc_read :: "(bytes \<times> 'd option) list option \<Rightarrow> 'd dispatcherConn \<Rightarrow> 'd dispatcherConn" where
  "dc_read mb c =
     (case mb of
        None \<Rightarrow> (dc_Close c)\<lparr>handler := Stopped\<rparr>
      | Some buffers \<Rightarrow> c\<lparr>handler := Delivering buffers\<rparr>)"

text \<open>
  A send is ready when there is room, and on a closed channel, where it panics. The default case is
  taken only if nothing is ready.
\<close>

definition dc_deliver :: "'d \<Rightarrow> bool \<Rightarrow> bytes \<times> 'd option \<Rightarrow> (bytes \<times> 'd option) list \<Rightarrow> 'd dispatcherConn \<Rightarrow> 'd dispatcherConn" where
  "dc_deliver dest pickSend buffer rest c =
     (let c1 = c\<lparr>handler := Delivering rest\<rparr> in
      if fst buffer = [] then c1
      else let packet = (fst buffer, case snd buffer of Some e \<Rightarrow> e | None \<Rightarrow> dest);
               c2 = c1\<lparr>taken := taken c @ [packet]\<rparr>;
               ready = (cache_closed c \<or> length (cache c) < 16)
           in if ready \<and> (pickSend \<or> \<not> cancelled c)
              then if cache_closed c then c\<lparr>handler := Crashed\<rparr> else c2\<lparr>cache := cache c @ [packet]\<rparr>
              else c2\<lparr>dropped := Suc (dropped c)\<rparr>)"

text \<open>\<open>ReadFrom\<close> a buffer of \<open>m\<close> bytes: \<open>None\<close> is the end of the stream.\<close>

definition dc_ReadFrom :: "bool \<Rightarrow> nat \<Rightarrow> 'd dispatcherConn \<Rightarrow> ((bytes \<times> 'd) option \<times> 'd dispatcherConn) go" where
  "dc_ReadFrom pickDone m c =
     (case cache c of
        (payload, source) # ps \<Rightarrow>
          if cancelled c \<and> pickDone then Ret (None, c)
          else Ret (Some (take m payload, source), c\<lparr>cache := ps, delivered := delivered c @ [(payload, source)]\<rparr>)
      | [] \<Rightarrow> if cancelled c \<or> cache_closed c then Ret (None, c) else Hang)"

text \<open>\<open>WriteTo\<close>, given what the link's writer returns; the packet it is given carries its address.\<close>

definition dc_WriteTo :: "'e option \<Rightarrow> bytes \<Rightarrow> 'd \<Rightarrow> 'd dispatcherConn \<Rightarrow> (nat \<times> 'e option) \<times> (bytes \<times> 'd) \<times> 'd dispatcherConn" where
  "dc_WriteTo err p addr c =
     (case err of
        Some e \<Rightarrow> ((0, Some e), (p, addr), dc_Close c)
      | None \<Rightarrow> ((length p, None), (p, addr), c))"

text \<open>Deadlines are not kept.\<close>

definition dc_SetDeadline :: "int \<Rightarrow> 'd dispatcherConn \<Rightarrow> bytes option \<times> 'd dispatcherConn" where
  "dc_SetDeadline t c = (None, c)"

definition dc_SetReadDeadline :: "int \<Rightarrow> 'd dispatcherConn \<Rightarrow> bytes option \<times> 'd dispatcherConn" where
  "dc_SetReadDeadline t c = (None, c)"

definition dc_SetWriteDeadline :: "int \<Rightarrow> 'd dispatcherConn \<Rightarrow> bytes option \<times> 'd dispatcherConn" where
  "dc_SetWriteDeadline t c = (None, c)"

section \<open>Runs\<close>

inductive dc_step :: "'d \<Rightarrow> 'd dispatcherConn \<Rightarrow> 'd dispatcherConn \<Rightarrow> bool" for dest where
  check: "handler c = Loop \<Longrightarrow> dc_step dest c (dc_check c)"
| link_read: "handler c = Reading \<Longrightarrow> dc_step dest c (dc_read mb c)"
| deliver: "handler c = Delivering (b # bs) \<Longrightarrow> dc_step dest c (dc_deliver dest pick b bs c)"
| again: "handler c = Delivering [] \<Longrightarrow> dc_step dest c (c\<lparr>handler := Loop\<rparr>)"
| closes: "\<not> closing c \<Longrightarrow> dc_step dest c (close_begin c)"
| closed: "closing c \<Longrightarrow> dc_step dest c (close_end c)"
| context_done: "dc_step dest c (c\<lparr>cancelled := True\<rparr>)"
| read_from: "dc_ReadFrom pick m c = Ret (res, c') \<Longrightarrow> dc_step dest c c'"
| write_fails: "dc_WriteTo (Some (e :: bytes)) p addr c = (res, sent, c') \<Longrightarrow> dc_step dest c c'"

abbreviation dc_reach :: "'d \<Rightarrow> 'd dispatcherConn \<Rightarrow> bool" where
  "dc_reach dest \<equiv> reaches (dc_step dest) new_dispatcherConn"

lemmas dc_start = reaches_refl [of "dc_step dest" new_dispatcherConn] for dest
lemmas dc_next = reaches_next [of "dc_step dest"] for dest

definition dc_inv :: "'d dispatcherConn \<Rightarrow> bool" where
  "dc_inv c \<longleftrightarrow> length (cache c) \<le> 16 \<and> (cache_closed c \<longrightarrow> closing c) \<and> (closing c \<longrightarrow> cancelled c) \<and>
     subseq (delivered c @ cache c) (taken c) \<and> length (taken c) = length (delivered c @ cache c) + dropped c \<and>
     (handler c = Crashed \<longrightarrow> cache_closed c)"

lemma dc_inv_Close [simp]: "dc_inv c \<Longrightarrow> dc_inv (dc_Close c)" "dc_inv c \<Longrightarrow> dc_inv (close_begin c)" "dc_inv c \<Longrightarrow> dc_inv (close_end c)"
  by (auto simp: dc_inv_def dc_Close_def close_begin_def close_end_def)

lemma dc_inv_handler: "dc_inv c \<Longrightarrow> h \<noteq> Crashed \<Longrightarrow> dc_inv (c\<lparr>handler := h\<rparr>)"
  by (simp add: dc_inv_def)

lemma dc_inv_deliver:
  assumes "dc_inv c"
  shows "dc_inv (dc_deliver dest pick b bs c)"
proof -
  define packet where "packet = (fst b, case snd b of Some e \<Rightarrow> e | None \<Rightarrow> dest)"
  have "subseq (delivered c @ cache c) (taken c @ [packet])" "subseq (delivered c @ cache c @ [packet]) (taken c @ [packet])"
    using assms by (auto simp: dc_inv_def intro: list_emb_prefix subseq_append_le_same_iff[THEN iffD2]
        list_emb_append_mono[of "(=)" "delivered c @ cache c" "taken c" "[packet]" "[packet]", simplified])
  then show ?thesis
    using assms by (auto simp: dc_inv_def dc_deliver_def packet_def[symmetric] Let_def)
qed

interpretation dc: machine "dc_step dest" dc_inv new_dispatcherConn for dest
proof
  show "dc_inv new_dispatcherConn" by (simp add: dc_inv_def new_dispatcherConn_def)
next
  fix c c' assume inv: "dc_inv c" and "dc_step dest c c'"
  from this(2) show "dc_inv c'"
  proof cases
    case check
    with inv show ?thesis by (auto simp: dc_check_def intro!: dc_inv_handler)
  next
    case (link_read mb)
    with inv show ?thesis by (auto simp: dc_read_def intro!: dc_inv_handler split: option.split)
  next
    case (deliver b bs pick)
    with inv show ?thesis by (simp add: dc_inv_deliver)
  next
    case again
    with inv show ?thesis by (auto intro!: dc_inv_handler)
  next
    case context_done
    with inv show ?thesis by (simp add: dc_inv_def)
  next
    case (read_from pick m res)
    with inv show ?thesis
      by (auto simp: dc_ReadFrom_def dc_inv_def split: list.splits prod.splits if_splits)
  next
    case (write_fails e p addr res sent)
    with inv show ?thesis by (auto simp: dc_WriteTo_def)
  qed (use inv in simp_all)
qed

text \<open>
  C7: The packets read from a connection are those the link delivered, each with its source, in their
  order, without repetition, and all of them when none was dropped; never more than 16 wait. This
  holds in every interleaving of the goroutine, the readers and the closers.
\<close>

theorem dispatcher_fifo:
  assumes "dc_reach dest c"
  shows "subseq (delivered c) (taken c) \<and> length (cache c) \<le> 16 \<and>
    (dropped c = 0 \<longrightarrow> delivered c @ cache c = taken c) \<and> length (taken c) = length (delivered c) + length (cache c) + dropped c"
proof -
  have inv: "dc_inv c" by (rule dc.reachable[OF assms])
  then have "subseq (delivered c) (taken c)" by (auto simp: dc_inv_def dest: list_emb_appendD subseq_order.trans[rotated])
  moreover have "delivered c @ cache c = taken c" if "dropped c = 0"
    using inv that by (intro subseq_same_length) (simp_all add: dc_inv_def)
  ultimately show ?thesis using inv by (simp add: dc_inv_def)
qed

theorem dispatcher_fifo_witness:
  "\<exists>c. dc_reach (9 :: nat) c \<and> delivered c = [([1], 9)] \<and> cache c = [([2], 8)] \<and> dropped c = 0"
proof -
  let ?c0 = "new_dispatcherConn :: nat dispatcherConn"
  let ?c1 = "dc_read (Some [([1], None), ([], None), ([2], Some 8)]) (dc_check ?c0)"
  let ?c2 = "dc_deliver 9 True ([], None) [([2], Some 8)] (dc_deliver 9 True ([1], None) [([], None), ([2], Some 8)] ?c1)"
  let ?c3 = "dc_deliver 9 True ([2], Some 8) [] ?c2"
  let ?c4 = "?c3\<lparr>cache := [([2], 8)], delivered := [([1], 9)]\<rparr>"
  note defs = new_dispatcherConn_def dc_check_def dc_read_def dc_deliver_def Let_def
  have "dc_reach 9 ?c1" by (intro dc_next[OF dc_next[OF dc_start check] link_read]) (simp_all add: defs)
  then have "dc_reach 9 ?c2" by (intro dc_next[OF dc_next[OF _ deliver] deliver]) (simp_all add: defs)
  then have "dc_reach 9 ?c3" by (rule dc_next[OF _ deliver]) (simp add: defs)
  then have r: "dc_reach 9 ?c4" by (rule dc_next[OF _ read_from[of False 5]]) (simp add: defs dc_ReadFrom_def)
  from dispatcher_fifo[OF r] have "dropped ?c4 = 0" by (simp add: defs)
  with r show ?thesis by (intro exI[of _ ?c4]) simp
qed

text \<open>
  The connection can panic: a packet that the goroutine has read when another goroutine closes the
  connection is sent on the closed channel. It happens for every packet, in the interleaving in which the
  close falls between the read and the send, and only after a close.
\<close>

theorem dispatcher_crash:
  assumes "(b :: bytes) \<noteq> []"
  shows "(\<exists>c. dc_reach dest c \<and> handler c = Crashed \<and> taken c = []) \<and>
    (\<forall>c. dc_reach dest c \<and> handler c = Crashed \<longrightarrow> cache_closed c \<and> closing c)"
proof -
  let ?c1 = "dc_read (Some [(b, None)]) (dc_check new_dispatcherConn)"
  let ?c2 = "close_end (close_begin ?c1)"
  let ?c3 = "dc_deliver dest True (b, None) [] ?c2"
  note defs = new_dispatcherConn_def dc_check_def dc_read_def dc_deliver_def close_begin_def close_end_def Let_def
  have "dc_reach dest ?c1" by (intro dc_next[OF dc_next[OF dc_start check] link_read]) (simp_all add: defs)
  then have "dc_reach dest ?c2" by (intro dc_next[OF dc_next[OF _ closes] closed]) (simp_all add: defs)
  then have "dc_reach dest ?c3" by (rule dc_next[OF _ deliver]) (simp add: defs)
  moreover have "handler ?c3 = Crashed" "taken ?c3 = []" using assms by (simp_all add: defs)
  ultimately show ?thesis using dc.reachable by (fastforce simp: dc_inv_def)
qed

theorem dispatcher_crash_witness:
  "\<exists>c. dc_reach (0 :: nat) c \<and> handler c = Crashed \<and> taken c = []"
  using dispatcher_crash[of "[1]" "0 :: nat"] by simp

end
