(* ===== verification/Sockets.thy ===== *)
theory Sockets
  imports Prelude
begin

text \<open>
  The dialer that protects its sockets from the tunnel (\<^verbatim>\<open>dialer.go\<close>) and the server and
  client by which another process has a socket protected (\<^verbatim>\<open>protect.go\<close>). What matters is which
  descriptors are made, protected, used and closed, and in which order: an operation returns its result
  and the system calls it made. What the calls return is an argument.
\<close>

section \<open>Destinations\<close>

datatype network = Network_Unknown | Network_TCP | Network_UDP | Network_UNIX

datatype address = IPv4 "32 word" | IPv6 "128 word" | Domain bytes

record destination =
  dest_Network :: network
  dest_Address :: "address option"
  dest_Port :: uint16

datatype socket_kind = INET6_DGRAM | INET_STREAM | INET6_STREAM

datatype sys_event =
    Socket socket_kind nat
  | Protect nat
  | ApplySockopt nat bytes
  | Connect nat address uint16
  | Bind nat
  | Dup nat nat
  | CloseFd nat
  | Reply byte
  | CloseConn
  | Sendmsg nat nat

section \<open>The dialer\<close>

datatype dial_error = InvalidDestination | EmptyResponse | ProtectError | FailedToConnect | SystemError bytes

text \<open>
  What the calls come to: a new socket's descriptor, connecting or binding, whether \<^verbatim>\<open>os.NewFile\<close>
  takes the descriptor, the duplicate that \<^verbatim>\<open>net.FileConn\<close> or \<^verbatim>\<open>net.FilePacketConn\<close>
  makes, resolving the destination.
\<close>

record os_calls =
  os_socket :: "bytes + nat"
  os_connect :: "bytes option"
  os_file :: bool
  os_dup :: "bytes + nat"
  os_resolve :: "bytes option"

definition socket_kind_of :: "destination \<Rightarrow> socket_kind" where
  "socket_kind_of dest =
     (if dest_Network dest = Network_UDP then INET6_DGRAM
      else case dest_Address dest of Some (IPv4 _) \<Rightarrow> INET_STREAM | _ \<Rightarrow> INET6_STREAM)"

text \<open>The name of the network given to \<^verbatim>\<open>ApplySockopt\<close>; no address of the source is IPv6's.\<close>

definition sockopt_network :: "address option \<Rightarrow> destination \<Rightarrow> bytes option" where
  "sockopt_network src dest =
     (case dest_Network dest of
        Network_TCP \<Rightarrow> Some (case dest_Address dest of
            Some (IPv4 _) \<Rightarrow> str ''tcp4'' | Some (IPv6 _) \<Rightarrow> str ''tcp6'' | _ \<Rightarrow> [])
      | Network_UDP \<Rightarrow> Some (case src of
            Some (IPv4 w) \<Rightarrow> if w = 0 then str ''udp6'' else str ''udp4''
          | Some (Domain _) \<Rightarrow> [] | _ \<Rightarrow> str ''udp6'')
      | _ \<Rightarrow> None)"

text \<open>
  Making a connection of the socket: the descriptor is closed with the file in any case, and by the error
  paths besides.
\<close>

definition dial_file :: "os_calls \<Rightarrow> destination \<Rightarrow> nat \<Rightarrow> (dial_error + nat) \<times> sys_event list" where
  "dial_file os dest fd =
     (if dest_Network dest = Network_UDP then
        (case os_dup os of
           Inl e \<Rightarrow> (Inl (SystemError e), [CloseFd fd, CloseFd fd])
         | Inr fd' \<Rightarrow>
             (case os_resolve os of
                Some e \<Rightarrow> (Inl (SystemError e), [Dup fd fd', CloseFd fd, CloseFd fd])
              | None \<Rightarrow> (Inr fd', [Dup fd fd', CloseFd fd])))
      else (case os_dup os of
           Inl e \<Rightarrow> (Inl (SystemError e), [CloseFd fd, CloseFd fd])
         | Inr fd' \<Rightarrow> (Inr fd', [Dup fd fd', CloseFd fd])))"

definition dial ::
  "os_calls \<Rightarrow> (nat \<Rightarrow> bool) \<Rightarrow> address option \<Rightarrow> destination \<Rightarrow> bool \<Rightarrow> (dial_error + nat) \<times> sys_event list" where
  "dial os protect src dest sockopt =
     (case os_socket os of
        Inl e \<Rightarrow> (Inl (SystemError e), [])
      | Inr fd \<Rightarrow>
          let opened = [Socket (socket_kind_of dest) fd, Protect fd] in
          if \<not> protect fd then (Inl ProtectError, opened @ [CloseFd fd])
          else let opts = (if sockopt then case sockopt_network src dest of
                     Some network \<Rightarrow> [ApplySockopt fd network] | None \<Rightarrow> [] else []);
                   (err, calls) = (case dest_Network dest of
                       Network_TCP \<Rightarrow> (os_connect os, case dest_Address dest of
                           Some a \<Rightarrow> [Connect fd a (dest_Port dest)] | None \<Rightarrow> [])
                     | Network_UDP \<Rightarrow> (os_connect os, [Bind fd])
                     | _ \<Rightarrow> (None, []))
               in case err of
                    Some e \<Rightarrow> (Inl (SystemError e), opened @ opts @ calls @ [CloseFd fd])
                  | None \<Rightarrow>
                      if \<not> os_file os then (Inl FailedToConnect, opened @ opts @ calls @ [CloseFd fd])
                      else case dial_file os dest fd of (res, evs) \<Rightarrow> (res, opened @ opts @ calls @ evs))"

text \<open>\<open>Dial\<close>: a domain is resolved first, to the first of its addresses.\<close>

definition Dial ::
  "os_calls \<Rightarrow> (bytes \<Rightarrow> bytes + address list) \<Rightarrow> (nat \<Rightarrow> bool) \<Rightarrow> address option \<Rightarrow> destination \<Rightarrow> bool \<Rightarrow>
     (dial_error + nat) \<times> sys_event list" where
  "Dial os resolver protect src dest sockopt =
     (case dest_Address dest of
        None \<Rightarrow> (Inl InvalidDestination, [])
      | Some addr \<Rightarrow>
          if dest_Network dest = Network_Unknown \<or> dest_Network dest = Network_UNIX then (Inl InvalidDestination, [])
          else case addr of
              Domain name \<Rightarrow>
                (case resolver name of
                   Inl e \<Rightarrow> (Inl (SystemError e), [])
                 | Inr [] \<Rightarrow> (Inl EmptyResponse, [])
                 | Inr (ip # _) \<Rightarrow> dial os protect src (dest\<lparr>dest_Address := Some ip\<rparr>) sockopt)
            | _ \<Rightarrow> dial os protect src dest sockopt)"

section \<open>Protection by another process\<close>

datatype fd_error = RecvError bytes | InvalidMsgsCount nat | InvalidFdsCount nat

text \<open>The descriptors of each control message of what was received; a message that does not parse has none.\<close>

definition getOneFd :: "bytes + nat list list \<Rightarrow> fd_error + nat" where
  "getOneFd recv =
     (case recv of
        Inl e \<Rightarrow> Inl (RecvError e)
      | Inr msgs \<Rightarrow>
          if length msgs \<noteq> 1 then Inl (InvalidMsgsCount (length msgs))
          else if length (msgs ! 0) \<noteq> 1 then Inl (InvalidFdsCount (length (msgs ! 0)))
          else Inr (msgs ! 0 ! 0))"

text \<open>
  One accepted connection of the server. The error of \<open>getOneFd\<close> is assigned to the variable that then
  takes the result of \<^verbatim>\<open>Control\<close>, and the descriptor stays 0. The deferred calls run at the end,
  the last first. \<open>raw\<close> is whether there is a raw connection, \<open>control\<close> the result of \<^verbatim>\<open>Control\<close>.
\<close>

definition protect_handler :: "bool \<Rightarrow> bool \<Rightarrow> nat \<Rightarrow> bytes + nat list list \<Rightarrow> (nat \<Rightarrow> bool) \<Rightarrow> sys_event list" where
  "protect_handler raw control connFd recv protect =
     (if \<not> raw \<or> \<not> control then [CloseConn]
      else let recvFd = (case getOneFd recv of Inr fd \<Rightarrow> fd | Inl _ \<Rightarrow> 0)
           in [Protect recvFd, Reply (if protect recvFd then 1 else 0), CloseFd connFd, CloseConn])"

text \<open>The client: \<open>None\<close> is success. \<open>answer\<close> is what reading one byte comes to.\<close>

definition protect_client ::
  "bytes + nat \<Rightarrow> bytes option \<Rightarrow> bytes option \<Rightarrow> bytes + bytes \<Rightarrow> nat \<Rightarrow> bytes option \<times> sys_event list" where
  "protect_client sock connectErr sendErr answer fd =
     (case sock of
        Inl e \<Rightarrow> (Some e, [])
      | Inr socketFd \<Rightarrow>
          (case connectErr of
             Some e \<Rightarrow> (Some e, [CloseFd socketFd])
           | None \<Rightarrow>
               (case sendErr of
                  Some e \<Rightarrow> (Some e, [Sendmsg socketFd fd, CloseFd socketFd])
                | None \<Rightarrow>
                    ((case answer of
                        Inl e \<Rightarrow> Some e
                      | Inr msg \<Rightarrow> if length msg \<noteq> 1 \<or> msg ! 0 \<noteq> 1 then Some (str ''failed to protect fd'') else None),
                     [Sendmsg socketFd fd, CloseFd socketFd]))))"

text \<open>\<^verbatim>\<open>protector.Protect\<close> of \<^verbatim>\<open>v2ray.go\<close>, and the protector that protects nothing.\<close>

definition protector_Protect ::
  "bytes + nat \<Rightarrow> bytes option \<Rightarrow> bytes option \<Rightarrow> bytes + bytes \<Rightarrow> nat \<Rightarrow> bool" where
  "protector_Protect sock connectErr sendErr answer fd \<longleftrightarrow> fst (protect_client sock connectErr sendErr answer fd) = None"

definition noopProtector_Protect :: "nat \<Rightarrow> bool" where
  "noopProtector_Protect fd \<longleftrightarrow> True"

text \<open>
  The server: \<open>None\<close> when it cannot listen; else what its goroutines do, one for each connection that is
  accepted before accepting fails.
\<close>

definition protectServer ::
  "bool \<Rightarrow> (bool \<times> bool \<times> nat \<times> (bytes + nat list list)) option list \<Rightarrow> (nat \<Rightarrow> bool) \<Rightarrow> sys_event list list option" where
  "protectServer listens accepts protect =
     (if \<not> listens then None
      else Some (map (\<lambda>c. case the c of (raw, control, connFd, recv) \<Rightarrow> protect_handler raw control connFd recv protect)
        (takeWhile (\<lambda>c. c \<noteq> None) accepts)))"

section \<open>Properties\<close>

text \<open>Whether the socket has come as far as being made a connection.\<close>

definition dial_ready :: "os_calls \<Rightarrow> (nat \<Rightarrow> bool) \<Rightarrow> nat \<Rightarrow> bool" where
  "dial_ready os protect fd \<longleftrightarrow> protect fd \<and> os_connect os = None \<and> os_file os"

text \<open>
  C20: A dialled socket is protected before anything is done with it, and nothing is done with one that is
  not; whatever call fails, the socket is closed, once, but for the failures behind \<^verbatim>\<open>os.NewFile\<close>, which
  close it twice; and when resolving a UDP destination fails, the duplicate stays open.
\<close>

theorem dial_descriptors:
  assumes d: "dial os protect src dest sockopt = (res, evs)" and fd: "os_socket os = Inr fd"
    and net: "dest_Network dest = Network_TCP \<or> dest_Network dest = Network_UDP"
  shows "evs ! 0 = Socket (socket_kind_of dest) fd \<and> evs ! 1 = Protect fd \<and>
    (\<not> protect fd \<longrightarrow> res = Inl ProtectError \<and> evs = [Socket (socket_kind_of dest) fd, Protect fd, CloseFd fd]) \<and>
    count_list evs (CloseFd fd) = (if dial_ready os protect fd \<and> res \<notin> range Inr then 2 else 1) \<and>
    (\<forall>fd'. res = Inr fd' \<longleftrightarrow> dial_ready os protect fd \<and> os_dup os = Inr fd' \<and> (dest_Network dest = Network_UDP \<longrightarrow> os_resolve os = None)) \<and>
    (\<forall>fd'. fd' \<noteq> fd \<longrightarrow> CloseFd fd' \<notin> set evs)"
proof -
  define opts where "opts = (if sockopt then case sockopt_network src dest of Some network \<Rightarrow> [ApplySockopt fd network] | None \<Rightarrow> [] else [])"
  define calls where "calls = (case dest_Network dest of Network_TCP \<Rightarrow> (case dest_Address dest of Some a \<Rightarrow> [Connect fd a (dest_Port dest)] | None \<Rightarrow> [])
    | Network_UDP \<Rightarrow> [Bind fd] | _ \<Rightarrow> [])"
  have no: "CloseFd x \<notin> set opts" "CloseFd x \<notin> set calls" for x
  proof -
    show "CloseFd x \<notin> set opts" by (cases sockopt; cases "sockopt_network src dest") (simp_all add: opts_def)
    show "CloseFd x \<notin> set calls" by (cases "dest_Network dest"; cases "dest_Address dest") (simp_all add: calls_def)
  qed
  have n0: "count_list opts (CloseFd fd) = 0" "count_list calls (CloseFd fd) = 0"
    unfolding count_list_0_iff by (rule no)+
  let ?open = "[Socket (socket_kind_of dest) fd, Protect fd]"
  have step: "dial os protect src dest sockopt =
    (if \<not> protect fd then (Inl ProtectError, ?open @ [CloseFd fd])
     else case os_connect os of
         Some e \<Rightarrow> (Inl (SystemError e), ?open @ opts @ calls @ [CloseFd fd])
       | None \<Rightarrow> if \<not> os_file os then (Inl FailedToConnect, ?open @ opts @ calls @ [CloseFd fd])
           else case dial_file os dest fd of (res, evs) \<Rightarrow> (res, ?open @ opts @ calls @ evs))"
    using net unfolding dial_def fd opts_def calls_def sum.case Let_def
    by (elim disjE; cases "os_connect os"; cases "os_file os"; simp)
  consider "\<not> protect fd" | e where "protect fd" "os_connect os = Some e" | "protect fd" "os_connect os = None" "\<not> os_file os"
    | "dial_ready os protect fd" by (cases "os_connect os") (auto simp: dial_ready_def)
  then show ?thesis
  proof cases
    case 4
    then obtain r es where r: "dial_file os dest fd = (r, es)" "res = r" "evs = ?open @ opts @ calls @ es"
      using d step by (auto simp: dial_ready_def split: prod.splits)
    have "protect fd" using 4 by (simp add: dial_ready_def)
    with r 4 no n0 show ?thesis by (auto simp: dial_file_def split: if_splits option.splits sum.splits)
  qed (use d step no n0 in \<open>auto simp: dial_ready_def\<close>)
qed

theorem dial_descriptors_witness:
  "\<exists>evs. dial \<lparr>os_socket = Inr 5, os_connect = None, os_file = True, os_dup = Inl [1], os_resolve = None\<rparr> (\<lambda>_. True) None
     \<lparr>dest_Network = Network_TCP, dest_Address = Some (IPv4 1), dest_Port = 80\<rparr> False = (Inl (SystemError [1]), evs) \<and>
     count_list evs (CloseFd 5) = 2"
proof -
  let ?os = "\<lparr>os_socket = Inr 5, os_connect = None, os_file = True, os_dup = Inl [1], os_resolve = None\<rparr> :: os_calls"
  let ?d = "\<lparr>dest_Network = Network_TCP, dest_Address = Some (IPv4 1), dest_Port = 80\<rparr>"
  have d: "dial ?os (\<lambda>_. True) None ?d False = (Inl (SystemError [1]), [Socket INET_STREAM 5, Protect 5, Connect 5 (IPv4 1) 80, CloseFd 5, CloseFd 5])"
    by (simp add: dial_def dial_file_def socket_kind_of_def)
  from dial_descriptors[OF d, of 5] have "count_list [Socket INET_STREAM 5, Protect 5, Connect 5 (IPv4 1) 80, CloseFd 5, CloseFd 5] (CloseFd 5) = 2"
    by (simp add: dial_ready_def)
  with d show ?thesis by blast
qed

text \<open>
  C21: A client that sends one descriptor is told of success exactly when the protector has taken the
  descriptor the server received for it. But the server does not see that receiving failed: then it has
  the descriptor 0 protected instead and answers for that; and it never closes a descriptor it received,
  but closes its own connection's twice.
\<close>

theorem protect_exchange:
  assumes h: "protect_handler True True connFd recv protect = evs" and c: "protect_client (Inr s) None None (Inr [b]) fd = (err, sent)"
    and reply: "Reply b \<in> set evs"
  shows "(err = None \<longleftrightarrow> protect (case getOneFd recv of Inr fd' \<Rightarrow> fd' | Inl _ \<Rightarrow> 0)) \<and>
    (recv = Inr [[fd']] \<longrightarrow> (err = None \<longleftrightarrow> protect fd') \<and> (fd' \<noteq> connFd \<longrightarrow> CloseFd fd' \<notin> set evs)) \<and>
    ((\<forall>fd'. recv \<noteq> Inr [[fd']]) \<longrightarrow> (err = None \<longleftrightarrow> protect 0)) \<and>
    [e \<leftarrow> evs. e = CloseFd connFd \<or> e = CloseConn] = [CloseFd connFd, CloseConn]"
proof -
  have one: "getOneFd recv = Inr x \<longleftrightarrow> recv = Inr [[x]]" for x
    by (cases recv) (auto simp: getOneFd_def length_Suc_conv split: if_splits)
  define r where "r = (case getOneFd recv of Inr fd \<Rightarrow> fd | Inl _ \<Rightarrow> 0)"
  have evs: "evs = [Protect r, Reply (if protect r then 1 else 0), CloseFd connFd, CloseConn]"
    unfolding h[symmetric] protect_handler_def Let_def r_def by simp
  have "(err = None \<longleftrightarrow> protect r)" using c reply by (auto simp: evs protect_client_def split: if_splits)
  moreover have "r = fd'" if "recv = Inr [[fd']]" using that one[of fd'] by (simp add: r_def)
  moreover have "r = 0" if "\<forall>fd'. recv \<noteq> Inr [[fd']]" using that one by (auto simp: r_def split: sum.split)
  ultimately show ?thesis unfolding r_def[symmetric] by (auto simp: evs)
qed

theorem protect_exchange_witness:
  "protect_handler True True 3 (Inl []) (\<lambda>fd. fd = 0) = [Protect 0, Reply 1, CloseFd 3, CloseConn] \<and>
   fst (protect_client (Inr 4) None None (Inr [1]) 9) = None"
proof -
  have h: "protect_handler True True 3 (Inl []) (\<lambda>fd. fd = 0) = [Protect 0, Reply 1, CloseFd 3, CloseConn]"
    by (simp add: protect_handler_def getOneFd_def)
  obtain err sent where c: "protect_client (Inr 4) None None (Inr [1]) 9 = (err, sent)" by fastforce
  from protect_exchange[OF h c] have "err = None" by simp
  with h c show ?thesis by simp
qed

end
