(* ===== verification/Tun_Stats.thy ===== *)
theory Tun_Stats
  imports Prelude Machine
begin

text \<open>
  The traffic statistics of the tunnel (\<^verbatim>\<open>stats.go\<close>, and the part of \<^verbatim>\<open>tun.go\<close> that
  makes them): per app counters that connections add to and the Java side reads. The counters are of
  their width, so they wrap. An app's counters are an object: connections hold it, the table leads to it.
\<close>

section \<open>Counters\<close>

record appStats =
  tcpConn :: uint32
  udpConn :: uint32
  tcpConnTotal :: uint32
  udpConnTotal :: uint32
  uplink :: uint64
  downlink :: uint64
  uplinkTotal :: uint64
  downlinkTotal :: uint64
  deactivateAt :: uint64

definition zero_appStats :: appStats where
  "zero_appStats = \<lparr>tcpConn = 0, udpConn = 0, tcpConnTotal = 0, udpConnTotal = 0, uplink = 0, downlink = 0,
     uplinkTotal = 0, downlinkTotal = 0, deactivateAt = 0\<rparr>"

text \<open>What is shown to Java: the conversions to signed types keep the bits, the time loses half of them.\<close>

record AppStats =
  Uid :: int
  TcpConn :: uint32
  UdpConn :: uint32
  TcpConnTotal :: uint32
  UdpConnTotal :: uint32
  Uplink :: uint64
  Downlink :: uint64
  UplinkTotal :: uint64
  DownlinkTotal :: uint64
  DeactivateAt :: uint32

text \<open>A connection that begins and one that ends, in TCP and in UDP; \<open>now\<close> is the time in seconds.\<close>

definition tcp_begin :: "appStats \<Rightarrow> appStats" where
  "tcp_begin s = s\<lparr>tcpConn := tcpConn s + 1, tcpConnTotal := tcpConnTotal s + 1, deactivateAt := 0\<rparr>"

definition tcp_end :: "uint64 \<Rightarrow> appStats \<Rightarrow> appStats" where
  "tcp_end now s = (let s1 = s\<lparr>tcpConn := tcpConn s - 1\<rparr> in
     if tcpConn s1 + udpConn s1 = 0 then s1\<lparr>deactivateAt := now\<rparr> else s1)"

definition udp_begin :: "appStats \<Rightarrow> appStats" where
  "udp_begin s = s\<lparr>udpConn := udpConn s + 1, udpConnTotal := udpConnTotal s + 1, deactivateAt := 0\<rparr>"

definition udp_end :: "uint64 \<Rightarrow> appStats \<Rightarrow> appStats" where
  "udp_end now s = (let s1 = s\<lparr>udpConn := udpConn s - 1\<rparr> in
     if udpConn s1 + tcpConn s1 = 0 then s1\<lparr>deactivateAt := now\<rparr> else s1)"

text \<open>
  The wrappers count what passes, unless there is an error: reads of the app's connection go up, reads of
  the proxy's packets go down.
\<close>

definition statsConn_Read :: "'e option \<Rightarrow> nat \<Rightarrow> appStats \<Rightarrow> appStats" where
  "statsConn_Read err n s = (if err = None then s\<lparr>uplink := uplink s + of_nat n\<rparr> else s)"

definition statsConn_Write :: "'e option \<Rightarrow> nat \<Rightarrow> appStats \<Rightarrow> appStats" where
  "statsConn_Write err n s = (if err = None then s\<lparr>downlink := downlink s + of_nat n\<rparr> else s)"

definition statsPacketConn_ReadFrom :: "'e option \<Rightarrow> nat \<Rightarrow> appStats \<Rightarrow> appStats" where
  "statsPacketConn_ReadFrom err n s = (if err = None then s\<lparr>downlink := downlink s + of_nat n\<rparr> else s)"

definition statsPacketConn_WriteTo :: "'e option \<Rightarrow> nat \<Rightarrow> appStats \<Rightarrow> appStats" where
  "statsPacketConn_WriteTo err n s = (if err = None then s\<lparr>uplink := uplink s + of_nat n\<rparr> else s)"

text \<open>
  \<open>ReadAppTraffics\<close> for one app, as it is when nothing else runs. The counters are swapped for 0 and
  added to the totals.
\<close>

definition swap_up :: "appStats \<Rightarrow> uint64 \<times> appStats" where
  "swap_up s = (uplink s, s\<lparr>uplink := 0\<rparr>)"

definition add_up :: "uint64 \<Rightarrow> appStats \<Rightarrow> uint64 \<times> appStats" where
  "add_up n s = (uplinkTotal s + n, s\<lparr>uplinkTotal := uplinkTotal s + n\<rparr>)"

definition swap_down :: "appStats \<Rightarrow> uint64 \<times> appStats" where
  "swap_down s = (downlink s, s\<lparr>downlink := 0\<rparr>)"

definition add_down :: "uint64 \<Rightarrow> appStats \<Rightarrow> uint64 \<times> appStats" where
  "add_down n s = (downlinkTotal s + n, s\<lparr>downlinkTotal := downlinkTotal s + n\<rparr>)"

definition export_stats :: "int \<Rightarrow> appStats \<Rightarrow> AppStats \<times> appStats" where
  "export_stats uid s =
     (case swap_up s of (up, s1) \<Rightarrow> case add_up up s1 of (upTotal, s2) \<Rightarrow>
      case swap_down s2 of (down, s3) \<Rightarrow> case add_down down s3 of (downTotal, s4) \<Rightarrow>
        (\<lparr>Uid = uid, TcpConn = tcpConn s, UdpConn = udpConn s, TcpConnTotal = tcpConnTotal s, UdpConnTotal = udpConnTotal s,
           Uplink = up, Downlink = down, UplinkTotal = upTotal, DownlinkTotal = downTotal,
           DeactivateAt = ucast (deactivateAt s)\<rparr>, s4))"

text \<open>
  The table: whether statistics are kept, the objects, and the app of each. \<open>order\<close> is the order in
  which Go ranges over the map.
\<close>

record stats_table =
  trafficStats :: bool
  objects :: "nat \<Rightarrow> appStats"
  app_of :: "int \<rightharpoonup> nat"

fun export_all :: "int list \<Rightarrow> stats_table \<Rightarrow> AppStats list \<times> stats_table" where
  "export_all [] t = ([], t)"
| "export_all (uid # uids) t =
     (case app_of t uid of
        None \<Rightarrow> export_all uids t
      | Some ob \<Rightarrow>
          (case export_stats uid (objects t ob) of (export, s) \<Rightarrow>
           case export_all uids (t\<lparr>objects := (objects t)(ob := s)\<rparr>) of (rest, t') \<Rightarrow> (export # rest, t')))"

definition ReadAppTraffics :: "int list \<Rightarrow> stats_table \<Rightarrow> AppStats list \<times> stats_table" where
  "ReadAppTraffics order t = (if \<not> trafficStats t then ([], t) else export_all order t)"

definition ResetAppTraffics :: "stats_table \<Rightarrow> stats_table" where
  "ResetAppTraffics t = (if \<not> trafficStats t then t else t\<lparr>app_of := Map.empty\<rparr>)"

section \<open>Nothing is counted twice or lost\<close>

text \<open>
  One object while connections and readers run. Each atomic operation is a step: traffic up, a reader's
  swap, and its addition later, with its part in hand meanwhile. \<open>moved\<close> is what has passed, \<open>shown\<close> what
  readers have been shown.
\<close>

record counting =
  obj :: appStats
  in_hand :: "uint64 list"
  moved :: uint64
  shown :: "uint64 list"

inductive count_step :: "counting \<Rightarrow> counting \<Rightarrow> bool" where
  conn_up: "count_step c (c\<lparr>obj := statsConn_Read (None :: bytes option) n (obj c), moved := moved c + of_nat n\<rparr>)"
| packet_up: "count_step c (c\<lparr>obj := statsPacketConn_WriteTo (None :: bytes option) n (obj c), moved := moved c + of_nat n\<rparr>)"
| failed_up: "count_step c (c\<lparr>obj := statsConn_Read (Some (e :: bytes)) n (obj c)\<rparr>)"
| other: "s' \<in> {tcp_begin (obj c), tcp_end now (obj c), udp_begin (obj c), udp_end now (obj c),
      statsConn_Write (None :: bytes option) n (obj c), statsPacketConn_ReadFrom (None :: bytes option) n (obj c)} \<Longrightarrow>
    count_step c (c\<lparr>obj := s'\<rparr>)"
| reader_swap: "swap_up (obj c) = (n, s') \<Longrightarrow> count_step c (c\<lparr>obj := s', in_hand := in_hand c @ [n]\<rparr>)"
| reader_add: "in_hand c = xs @ n # ys \<Longrightarrow> add_up n (obj c) = (newTotal, s') \<Longrightarrow>
    count_step c (c\<lparr>obj := s', in_hand := xs @ ys, shown := shown c @ [n]\<rparr>)"

abbreviation count_reach :: "counting \<Rightarrow> bool" where
  "count_reach \<equiv> reaches count_step \<lparr>obj = zero_appStats, in_hand = [], moved = 0, shown = []\<rparr>"

lemma counters_keep_up [simp]:
  "uplink (tcp_begin s) = uplink s" "uplinkTotal (tcp_begin s) = uplinkTotal s"
  "uplink (tcp_end t s) = uplink s" "uplinkTotal (tcp_end t s) = uplinkTotal s"
  "uplink (udp_begin s) = uplink s" "uplinkTotal (udp_begin s) = uplinkTotal s"
  "uplink (udp_end t s) = uplink s" "uplinkTotal (udp_end t s) = uplinkTotal s"
  "uplink (statsConn_Write e n s) = uplink s" "uplinkTotal (statsConn_Write e n s) = uplinkTotal s"
  "uplink (statsPacketConn_ReadFrom e n s) = uplink s" "uplinkTotal (statsPacketConn_ReadFrom e n s) = uplinkTotal s"
  by (simp_all add: tcp_begin_def tcp_end_def udp_begin_def udp_end_def statsConn_Write_def statsPacketConn_ReadFrom_def Let_def)

definition conserved :: "counting \<Rightarrow> bool" where
  "conserved c \<longleftrightarrow> moved c = sum_list (shown c) + sum_list (in_hand c) + uplink (obj c) \<and> uplinkTotal (obj c) = sum_list (shown c)"

interpretation counting: machine count_step conserved "\<lparr>obj = zero_appStats, in_hand = [], moved = 0, shown = []\<rparr>"
proof
  fix c c' assume "conserved c" "count_step c c'"
  from this(2,1) show "conserved c'"
    by cases (auto simp: conserved_def statsConn_Read_def statsPacketConn_WriteTo_def swap_up_def add_up_def algebra_simps)
qed (simp add: conserved_def zero_appStats_def)

text \<open>
  C17: However connections and readers of an app's counters interleave, what has gone up is exactly what
  readers have been shown, what they have in hand and what is still to be read; and the total is the sum of
  all that was shown. Everything is modulo 2 to the 64.
\<close>

theorem stats_conserved:
  assumes "count_reach c"
  shows "moved c = sum_list (shown c) + sum_list (in_hand c) + uplink (obj c) \<and> uplinkTotal (obj c) = sum_list (shown c)"
  using counting.reachable[OF assms] unfolding conserved_def .

theorem stats_conserved_witness:
  "\<exists>c. count_reach c \<and> moved c = 12 \<and> shown c = [5] \<and> uplink (obj c) = 7"
proof -
  let ?s0 = "\<lparr>obj = zero_appStats, in_hand = [], moved = 0, shown = []\<rparr> :: counting"
  let ?s1 = "?s0\<lparr>obj := statsConn_Read (None :: bytes option) 5 zero_appStats, moved := 5\<rparr>"
  let ?s2 = "?s1\<lparr>obj := zero_appStats, in_hand := [5]\<rparr>"
  let ?s3 = "?s2\<lparr>obj := statsConn_Read (None :: bytes option) 7 zero_appStats, moved := 12\<rparr>"
  let ?s4 = "?s3\<lparr>obj := zero_appStats\<lparr>uplink := 7, uplinkTotal := 5\<rparr>, in_hand := [], shown := [5]\<rparr>"
  have "count_reach ?s1" by (rule reaches_next[OF reaches_refl], rule conn_up[of _ 5, THEN back_subst[of "count_step _"]]) simp
  then have "count_reach ?s2" by (rule reaches_next, intro reader_swap[of _ 5, THEN back_subst[of "count_step _"]])
    (simp_all add: swap_up_def statsConn_Read_def zero_appStats_def)
  then have "count_reach ?s3" by (rule reaches_next, intro conn_up[of ?s2 7, THEN back_subst[of "count_step _"]]) simp
  then have r: "count_reach ?s4"
    by (rule reaches_next, intro reader_add[of _ "[]" 5 "[]" 5, THEN back_subst[of "count_step _"]])
      (simp_all add: add_up_def statsConn_Read_def zero_appStats_def)
  from stats_conserved[OF r] have "moved ?s4 = 5 + uplink (obj ?s4)" by simp
  with r show ?thesis by (intro exI[of _ ?s4]) simp
qed

section \<open>Who makes the counters\<close>

text \<open>
  The goroutines of new connections of one app. Each looks for the app's counters; without them it puts a
  condition variable into the lock table, or finds another's there. The one that put it makes the counters,
  takes the variable out and wakes who waits; the others wait and look again. A condition variable is a
  number, new each time.
\<close>

datatype goroutine = Looking | Missed | Making nat | Made nat | Waking nat | Waiter nat | Waiting nat | Woken | Has | Panicked

record making =
  has_stats :: bool
  lockTable :: "nat option"
  next_cond :: nat
  goroutines :: "nat \<Rightarrow> goroutine"

definition make_start :: making where
  "make_start = \<lparr>has_stats = False, lockTable = None, next_cond = 0, goroutines = \<lambda>_. Looking\<rparr>"

abbreviation moves :: "making \<Rightarrow> nat \<Rightarrow> goroutine \<Rightarrow> making" where
  "moves s g pc \<equiv> s\<lparr>goroutines := (goroutines s)(g := pc)\<rparr>"

text \<open>One step of goroutine \<open>g\<close>; \<open>None\<close> when it cannot go on by itself.\<close>

definition make_step :: "nat \<Rightarrow> making \<Rightarrow> making option" where
  "make_step g s =
     (case goroutines s g of
        Looking \<Rightarrow> Some (moves s g (if has_stats s then Has else Missed))
      | Missed \<Rightarrow>
          (case lockTable s of
             None \<Rightarrow> Some ((moves s g (Making (next_cond s)))\<lparr>lockTable := Some (next_cond s), next_cond := Suc (next_cond s)\<rparr>)
           | Some cond \<Rightarrow> Some (moves s g (Waiter cond)))
      | Making cond \<Rightarrow> Some ((moves s g (Made cond))\<lparr>has_stats := True\<rparr>)
      | Made cond \<Rightarrow> Some ((moves s g (Waking cond))\<lparr>lockTable := None\<rparr>)
      | Waking cond \<Rightarrow> Some (s\<lparr>goroutines := (\<lambda>h. if goroutines s h = Waiting cond then Woken else goroutines s h)(g := Has)\<rparr>)
      | Waiter cond \<Rightarrow> Some (moves s g (Waiting cond))
      | Waiting cond \<Rightarrow> None
      | Woken \<Rightarrow> Some (moves s g (if has_stats s then Has else Panicked))
      | Has \<Rightarrow> None
      | Panicked \<Rightarrow> None)"

inductive make_move :: "making \<Rightarrow> making \<Rightarrow> bool" where
  goes: "make_step g s = Some s' \<Longrightarrow> make_move s s'"
| reset: "make_move s (s\<lparr>has_stats := False\<rparr>)"

abbreviation make_runs :: "making \<Rightarrow> making \<Rightarrow> bool" where
  "make_runs \<equiv> reaches make_move"

lemma runs_step: "make_runs s s' \<Longrightarrow> make_step g s' = Some s'' \<Longrightarrow> make_runs s s''"
  by (blast intro: reaches_next goes)

text \<open>A condition variable that nobody will wake: it is old, in no table, and no goroutine is about to wake it.\<close>

definition dead_cond :: "nat \<Rightarrow> making \<Rightarrow> bool" where
  "dead_cond c s \<longleftrightarrow> c < next_cond s \<and> lockTable s \<noteq> Some c \<and>
     (\<forall>g. goroutines s g \<noteq> Making c \<and> goroutines s g \<noteq> Made c \<and> goroutines s g \<noteq> Waking c)"

lemma dead_cond_step:
  assumes "dead_cond c s" "goroutines s h = Waiting c" "make_step g s = Some s'"
  shows "dead_cond c s' \<and> goroutines s' h = Waiting c"
  using assms
  by (auto simp: dead_cond_def make_step_def split: goroutine.splits option.splits if_splits)

interpretation making: stable make_move "\<lambda>s. dead_cond c s \<and> goroutines s h = Waiting c" for c h
proof
  fix s s' assume inv: "dead_cond c s \<and> goroutines s h = Waiting c" and "make_move s s'"
  from this(2) show "dead_cond c s' \<and> goroutines s' h = Waiting c"
  proof cases
    case (goes g)
    with inv dead_cond_step show ?thesis by blast
  next
    case reset
    with inv show ?thesis by (simp add: dead_cond_def)
  qed
qed

text \<open>
  C34: A new connection can wait for ever: when it finds the condition variable of the goroutine that makes
  the counters, but begins to wait only after that one has woken the others, nothing that happens afterwards
  wakes it, although the counters are there.
\<close>

theorem stats_wait_for_ever:
  "\<exists>s. make_runs make_start s \<and> has_stats s \<and> goroutines s 1 = Waiting 0 \<and> goroutines s 0 = Has \<and>
    (\<forall>s'. make_runs s s' \<longrightarrow> goroutines s' 1 = Waiting 0)"
proof -
  define g :: "goroutine \<times> goroutine \<Rightarrow> nat \<Rightarrow> goroutine" where "g xs = (\<lambda>_. Looking)(0 := fst xs, 1 := snd xs)" for xs
  let ?s = "\<lambda>st lock n xs. \<lparr>has_stats = st, lockTable = lock, next_cond = n, goroutines = g xs\<rparr>"
  have upd: "(g xs)(0 := x) = g (x, snd xs)" "(g xs)(1 := x) = g (fst xs, x)" "(g xs)(Suc 0 := x) = g (fst xs, x)" for xs x
    by (auto simp: g_def)
  have at: "g xs 0 = fst xs" "g xs 1 = snd xs" "g xs (Suc 0) = snd xs" for xs by (auto simp: g_def)
  have none: "(\<lambda>h. if g (Waking 0, Waiter 0) h = Waiting 0 then Woken else g (Waking 0, Waiter 0) h) = g (Waking 0, Waiter 0)"
    by (auto simp: g_def)
  have "make_start = ?s False None 0 (Looking, Looking)" by (auto simp: make_start_def g_def)
  then have "make_runs make_start (?s False None 0 (Looking, Looking))" using reaches_refl[of make_move make_start] by simp
  then have "make_runs make_start (?s False None 0 (Missed, Looking))"
    by (rule runs_step[of _ _ 0]) (simp add: make_step_def at upd)
  then have "make_runs make_start (?s False None 0 (Missed, Missed))"
    by (rule runs_step[of _ _ 1]) (simp add: make_step_def at upd)
  then have "make_runs make_start (?s False (Some 0) 1 (Making 0, Missed))"
    by (rule runs_step[of _ _ 0]) (simp add: make_step_def at upd)
  then have "make_runs make_start (?s False (Some 0) 1 (Making 0, Waiter 0))"
    by (rule runs_step[of _ _ 1]) (simp add: make_step_def at upd)
  then have "make_runs make_start (?s True (Some 0) 1 (Made 0, Waiter 0))"
    by (rule runs_step[of _ _ 0]) (simp add: make_step_def at upd)
  then have "make_runs make_start (?s True None 1 (Waking 0, Waiter 0))"
    by (rule runs_step[of _ _ 0]) (simp add: make_step_def at upd)
  then have "make_runs make_start (?s True None 1 (Has, Waiter 0))"
    by (rule runs_step[of _ _ 0]) (simp add: make_step_def at upd none cong: if_cong)
  then have r: "make_runs make_start (?s True None 1 (Has, Waiting 0))"
    by (rule runs_step[of _ _ 1]) (simp add: make_step_def at upd)
  let ?t = "?s True None 1 (Has, Waiting 0)"
  have d: "dead_cond 0 ?t" "goroutines ?t 1 = Waiting 0" by (auto simp: dead_cond_def g_def)
  have "goroutines s' 1 = Waiting 0" if "make_runs ?t s'" for s'
    using making.runs[OF that] d by blast
  then have "\<forall>s'. make_runs ?t s' \<longrightarrow> goroutines s' 1 = Waiting 0" by blast
  moreover have "has_stats ?t" "goroutines ?t 0 = Has" by (simp_all add: at)
  ultimately show ?thesis using r d(2) by blast
qed

theorem stats_wait_for_ever_witness:
  "\<exists>s s'. make_runs make_start s \<and> make_runs s s' \<and> has_stats s \<and> goroutines s 1 = Waiting 0 \<and> goroutines s' 1 = Waiting 0"
proof -
  from stats_wait_for_ever obtain s where s: "make_runs make_start s" "has_stats s" "goroutines s 1 = Waiting 0"
    "\<forall>s'. make_runs s s' \<longrightarrow> goroutines s' 1 = Waiting 0" by blast
  have "make_runs s s" by (rule reaches_refl)
  with s show ?thesis by blast
qed

end
