(* ===== verification/IPC.thy ===== *)
theory IPC
  imports Net Sockets
begin

text \<open>
  Connections through another process (\<^verbatim>\<open>ipc.go\<close>): over one unix socket goes a header with
  the destination, then the stream, or datagrams, each behind its address and its length in two bytes.
  The address parser is a library's, so it is an argument: what it writes of an address and port, and
  how it reads them.
\<close>

section \<open>The connection\<close>

type_synonym endpoint = "address \<times> uint16"

text \<open>
  What the socket will deliver, and what has been written to it. \<open>write_fails n\<close> is what becomes of the
  write number \<open>n\<close>: \<open>None\<close>, or the number of bytes that are written before an error.
\<close>

record ipcConn =
  headerWritten :: bool
  ipc_dest :: endpoint
  noDomainResponse :: bool
  incoming :: net
  wire :: bytes
  write_count :: nat
  write_fails :: "nat \<Rightarrow> (nat \<times> io_error) option"

text \<open>What the parser writes, with its error, and what it reads of the socket.\<close>

record address_parser =
  WriteAddressPort :: "endpoint \<Rightarrow> bytes \<times> io_error option"
  ReadAddressPort :: "net \<Rightarrow> ((io_error + endpoint) \<times> net) go"

datatype ipc_error = IPCError io_error | ErrInvalid

definition newIPCConn :: "net \<Rightarrow> (nat \<Rightarrow> (nat \<times> io_error) option) \<Rightarrow> endpoint \<Rightarrow> ipcConn" where
  "newIPCConn net fails dest = \<lparr>headerWritten = False, ipc_dest = dest, noDomainResponse = False, incoming = net,
     wire = [], write_count = 0, write_fails = fails\<rparr>"

definition newIPCPacketConn :: "net \<Rightarrow> (nat \<Rightarrow> (nat \<times> io_error) option) \<Rightarrow> endpoint \<Rightarrow> ipcConn" where
  "newIPCPacketConn net fails dest = newIPCConn net fails dest"

text \<open>A write to the socket.\<close>

definition socket_write :: "bytes \<Rightarrow> ipcConn \<Rightarrow> (nat \<times> io_error option) \<times> ipcConn" where
  "socket_write b c =
     (let c1 = c\<lparr>write_count := Suc (write_count c)\<rparr> in
      case write_fails c (write_count c) of
        None \<Rightarrow> ((length b, None), c1\<lparr>wire := wire c @ b\<rparr>)
      | Some (n, e) \<Rightarrow> ((min n (length b), Some e), c1\<lparr>wire := wire c @ take n b\<rparr>))"

text \<open>The error of encoding the destination into the buffer is not looked at.\<close>

definition writeHeader :: "address_parser \<Rightarrow> byte \<Rightarrow> ipcConn \<Rightarrow> (nat \<times> io_error option) \<times> ipcConn" where
  "writeHeader ap command c = socket_write (command # fst (WriteAddressPort ap (ipc_dest c))) c"

definition ipc_Write :: "address_parser \<Rightarrow> bytes \<Rightarrow> ipcConn \<Rightarrow> (nat \<times> io_error option) \<times> ipcConn" where
  "ipc_Write ap b c =
     (if headerWritten c then socket_write b c
      else case writeHeader ap 1 c of
          ((_, Some e), c1) \<Rightarrow> ((0, Some e), c1)
        | ((_, None), c1) \<Rightarrow> socket_write b (c1\<lparr>headerWritten := True\<rparr>))"

text \<open>\<open>RemoteAddr\<close>: a domain is shown as the unspecified address.\<close>

definition ipc_RemoteAddr :: "ipcConn \<Rightarrow> endpoint" where
  "ipc_RemoteAddr c = (case ipc_dest c of (Domain _, port) \<Rightarrow> (IPv4 0, port) | ipPort \<Rightarrow> ipPort)"

section \<open>Datagrams\<close>

text \<open>The length is read with one \<^verbatim>\<open>Read\<close>, into two zero bytes.\<close>

definition ipc_ReadFrom :: "address_parser \<Rightarrow> nat \<Rightarrow> ipcConn \<Rightarrow> ((ipc_error + bytes \<times> endpoint) \<times> ipcConn) go" where
  "ipc_ReadFrom ap m c =
     go_bind (ReadAddressPort ap (incoming c)) (\<lambda>(res1, net1).
       case res1 of
         Inl e \<Rightarrow> Ret (Inl (IPCError e), c\<lparr>incoming := net1\<rparr>)
       | Inr (addr, port) \<Rightarrow>
           go_bind (net_read 2 net1) (\<lambda>(res2, net2).
             case res2 of
               Inl e \<Rightarrow> Ret (Inl (IPCError e), c\<lparr>incoming := net2\<rparr>)
             | Inr x \<Rightarrow>
                 let n = min (unat (rd_be16 (copy_at 0 x [0, 0]))) m in
                 go_bind (ReadFull n net2) (\<lambda>(p, err, net3).
                   case err of
                     Some e \<Rightarrow> Ret (Inl (IPCError e), c\<lparr>incoming := net3\<rparr>)
                   | None \<Rightarrow>
                       if (\<exists>d. addr = Domain d) \<and> noDomainResponse c then Ret (Inl ErrInvalid, c\<lparr>incoming := net3\<rparr>)
                       else Ret (Inr (p, addr, port), c\<lparr>incoming := net3\<rparr>))))"

text \<open>\<open>parsed\<close> is what parsing the text of the address comes to.\<close>

text \<open>The address of a domain is its text.\<close>

record udpAddr =
  udp_address :: bytes

definition udpAddr_Network :: "udpAddr \<Rightarrow> bytes" where
  "udpAddr_Network a = str ''udp''"

definition udpAddr_String :: "udpAddr \<Rightarrow> bytes" where
  "udpAddr_String a = udp_address a"

definition ipc_WriteTo ::
  "address_parser \<Rightarrow> bytes \<Rightarrow> io_error + endpoint \<Rightarrow> ipcConn \<Rightarrow> (nat \<times> io_error option) \<times> ipcConn" where
  "ipc_WriteTo ap p parsed c =
     (case parsed of
        Inl e \<Rightarrow> ((0, Some e), c)
      | Inr dest \<Rightarrow>
          (case (if headerWritten c then ((0, None), c) else writeHeader ap 3 c) of
             ((_, Some e), c1) \<Rightarrow> ((0, Some e), c1)
           | ((_, None), c1) \<Rightarrow>
               (case socket_write (fst (WriteAddressPort ap dest)) (c1\<lparr>headerWritten := True\<rparr>) of
                  ((_, Some e), c2) \<Rightarrow> ((0, Some e), c2)
                | ((_, None), c2) \<Rightarrow>
                    (case snd (WriteAddressPort ap dest) of
                       Some e \<Rightarrow> ((0, Some e), c2)
                     | None \<Rightarrow>
                         (case socket_write (be16 (of_nat (length p))) c2 of
                            ((_, Some e), c3) \<Rightarrow> ((0, Some e), c3)
                          | ((_, None), c3) \<Rightarrow> socket_write p c3)))))"

section \<open>Frames\<close>

definition frame :: "address_parser \<Rightarrow> bytes \<times> endpoint \<Rightarrow> bytes" where
  "frame ap = (\<lambda>(p, e). fst (WriteAddressPort ap e) @ be16 (of_nat (length p)) @ p)"

text \<open>
  What is relied on of the parser for an address: it can be written, and what is written is read back,
  by taking exactly its bytes of the stream, however the network cuts it.
\<close>

definition parser_law :: "address_parser \<Rightarrow> endpoint \<Rightarrow> bool" where
  "parser_law ap e \<longleftrightarrow> snd (WriteAddressPort ap e) = None \<and>
     (\<forall>net s. chunks_of net (fst (WriteAddressPort ap e) @ s) \<longrightarrow>
        (\<exists>net'. ReadFull (length (fst (WriteAddressPort ap e))) net = Ret (fst (WriteAddressPort ap e), None, net') \<and>
           ReadAddressPort ap net = Ret (Inr e, net')))"

text \<open>A network that cuts only between frames.\<close>

definition framed :: "address_parser \<Rightarrow> (bytes \<times> endpoint) list list \<Rightarrow> net" where
  "framed ap gs = map (\<lambda>g. Inr (concat (map (frame ap) g))) gs"

definition front :: "bytes \<Rightarrow> net \<Rightarrow> net" where
  "front y rest = (if y = [] then rest else Inr y # rest)"

lemma ReadFull_0 [simp]: "ReadFull 0 net = Ret ([], None, net)"
  unfolding ReadFull_def by (cases net; cases "hd net") auto

lemma read_full_loop_done: "length got \<ge> n \<Longrightarrow> read_full_loop n got net = Ret (got, None, net)"
  by (cases net; cases "hd net") auto

lemma ReadFull_front: "ReadFull (length x) (front (x @ y) rest) = Ret (x, None, front y rest)"
  by (cases "x = []") (auto simp: front_def ReadFull_def Let_def read_full_loop_done)

lemma net_read_front: "x \<noteq> [] \<Longrightarrow> net_read (length x) (front (x @ y) rest) = Ret (Inr x, front y rest)"
  by (auto simp: front_def)

lemma frame_ne [simp]: "frame ap d \<noteq> []"
  by (auto simp: frame_def be16_def split: prod.split)

lemma frames_Nil: "concat (map (frame ap) g) = [] \<longleftrightarrow> g = []"
  by (cases g) (auto simp del: concat_eq_Nil_conv)

lemma framed_Cons: "g \<noteq> [] \<Longrightarrow> framed ap (g # gs) = front (concat (map (frame ap) g)) (framed ap gs)"
  by (simp add: framed_def front_def frames_Nil del: concat_eq_Nil_conv)

lemma framed_front: "front (concat (map (frame ap) g)) (framed ap gs) = framed ap (if g = [] then gs else g # gs)"
  by (simp add: framed_def front_def frames_Nil del: concat_eq_Nil_conv)

lemma chunks_of_framed: "\<exists>s. chunks_of (framed ap gs) s"
  by (auto simp: chunks_of_def framed_def intro!: exI[of _ "map (\<lambda>g. concat (map (frame ap) g)) gs"])

lemma chunks_of_front: "chunks_of rest s \<Longrightarrow> chunks_of (front y rest) (y @ s)"
  by (auto simp: front_def chunks_of_Cons)

text \<open>One datagram at the front of what has arrived is read, as much of it as fits.\<close>

definition received :: "ipcConn \<Rightarrow> bytes \<times> endpoint \<Rightarrow> ipc_error + bytes \<times> endpoint" where
  "received c d = (if (\<exists>n. fst (snd d) = Domain n) \<and> noDomainResponse c then Inl ErrInvalid else Inr d)"

lemma ReadFrom_front:
  assumes law: "parser_law ap e" and len: "length p < 65536" and rest: "chunks_of rest t"
    and c: "incoming c = front (frame ap (p, e) @ s) rest"
  shows "ipc_ReadFrom ap m c =
    Ret (received c (take m p, e), c\<lparr>incoming := front (drop m p @ s) rest\<rparr>)"
proof -
  let ?a = "fst (WriteAddressPort ap e)" and ?l = "be16 (of_nat (length p))"
  have c': "incoming c = front (?a @ (?l @ p @ s)) rest" using c by (simp add: frame_def)
  have "chunks_of (incoming c) (?a @ (?l @ p @ s) @ t)"
    unfolding c' using chunks_of_front[OF rest, of "?a @ ?l @ p @ s"] by simp
  with law obtain net' where "ReadFull (length ?a) (incoming c) = Ret (?a, None, net')"
    and 1: "ReadAddressPort ap (incoming c) = Ret (Inr e, net')"
    unfolding parser_law_def by blast
  then have 2: "net' = front (?l @ p @ s) rest" using ReadFull_front[of ?a "?l @ p @ s" rest] c' by simp
  have "?l \<noteq> []" "length ?l = 2" by (simp_all add: be16_def)
  then have 3: "net_read 2 net' = Ret (Inr ?l, front (p @ s) rest)"
    using net_read_front[of ?l "p @ s" rest] 2 by simp
  have 4: "unat (rd_be16 (copy_at 0 ?l [0, 0])) = length p"
    using len by (simp add: copy_at_def unat_uint16_of_nat)
  have "ReadFull (length (take m p)) (front (take m p @ drop m p @ s) rest) = Ret (take m p, None, front (drop m p @ s) rest)"
    by (rule ReadFull_front)
  moreover have "take m p @ drop m p @ s = p @ s" by (metis append_assoc append_take_drop_id)
  ultimately have 5: "ReadFull (min (length p) m) (front (p @ s) rest) = Ret (take m p, None, front (drop m p @ s) rest)"
    by (simp add: min.commute)
  obtain a port where "e = (a, port)" by (cases e)
  then show ?thesis using 1 3 4 5 by (auto simp: ipc_ReadFrom_def received_def Let_def)
qed

section \<open>Sequences of datagrams\<close>

fun ipc_reads :: "address_parser \<Rightarrow> nat list \<Rightarrow> ipcConn \<Rightarrow> ((ipc_error + bytes \<times> endpoint) list \<times> ipcConn) go" where
  "ipc_reads ap [] c = Ret ([], c)"
| "ipc_reads ap (m # ms) c =
     go_bind (ipc_ReadFrom ap m c) (\<lambda>(r, c1). go_bind (ipc_reads ap ms c1) (\<lambda>(rs, c2). Ret (r # rs, c2)))"

fun ipc_writes :: "address_parser \<Rightarrow> (bytes \<times> endpoint) list \<Rightarrow> ipcConn \<Rightarrow> ipcConn" where
  "ipc_writes ap [] c = c"
| "ipc_writes ap ((p, e) # ds) c = ipc_writes ap ds (snd (ipc_WriteTo ap p (Inr e) c))"

lemma reads_framed:
  assumes "\<And>p e. (p, e) \<in> set (concat gs) \<Longrightarrow> parser_law ap e \<and> length p < 65536" "[] \<notin> set gs"
    "list_all2 (\<lambda>m (p, e). length p \<le> m) ms (concat gs)" "incoming c = framed ap gs"
  shows "ipc_reads ap ms c = Ret (map (received c) (concat gs), c\<lparr>incoming := []\<rparr>)"
  using assms
proof (induction ms arbitrary: gs c)
  case Nil
  then have "gs = []" by (cases gs) auto
  with Nil show ?case by (simp add: framed_def)
next
  case (Cons m ms)
  from Cons.prems(2,3) obtain p e g gs' where gs: "gs = ((p, e) # g) # gs'"
    by (cases gs; cases "hd gs") auto
  let ?gs = "if g = [] then gs' else g # gs'"
  obtain t where "chunks_of (framed ap gs') t" using chunks_of_framed by blast
  moreover have "incoming c = front (frame ap (p, e) @ concat (map (frame ap) g)) (framed ap gs')"
    using Cons.prems(4) gs by (simp add: framed_Cons)
  ultimately have "ipc_ReadFrom ap m c = Ret (received c (p, e), c\<lparr>incoming := framed ap ?gs\<rparr>)"
    using ReadFrom_front[of ap e p "framed ap gs'" t c "concat (map (frame ap) g)" m] Cons.prems(1)[of p e] Cons.prems(3) gs
    by (simp add: framed_front)
  moreover have "ipc_reads ap ms (c\<lparr>incoming := framed ap ?gs\<rparr>) =
      Ret (map (received (c\<lparr>incoming := framed ap ?gs\<rparr>)) (concat ?gs), c\<lparr>incoming := framed ap ?gs, incoming := []\<rparr>)"
    by (rule Cons.IH) (use Cons.prems gs in \<open>auto split: if_splits\<close>)
  ultimately show ?case using gs by (simp add: received_def)
qed

lemma WriteTo_ok:
  assumes "write_fails c = (\<lambda>_. None)" "parser_law ap e"
  shows "\<exists>c'. ipc_WriteTo ap p (Inr e) c = ((length p, None), c') \<and> write_fails c' = (\<lambda>_. None) \<and> headerWritten c' \<and>
    ipc_dest c' = ipc_dest c \<and>
    wire c' = wire c @ (if headerWritten c then [] else 3 # fst (WriteAddressPort ap (ipc_dest c))) @ frame ap (p, e)"
  using assms by (auto simp: ipc_WriteTo_def writeHeader_def socket_write_def parser_law_def frame_def Let_def)

lemma writes_wire:
  "write_fails c = (\<lambda>_. None) \<Longrightarrow> (\<And>p e. (p, e) \<in> set ds \<Longrightarrow> parser_law ap e) \<Longrightarrow>
   wire (ipc_writes ap ds c) = wire c @
     (if headerWritten c \<or> ds = [] then [] else 3 # fst (WriteAddressPort ap (ipc_dest c))) @ concat (map (frame ap) ds)"
proof (induction ds arbitrary: c)
  case (Cons d ds)
  obtain p e where d: "d = (p, e)" by (cases d)
  obtain c' where "ipc_WriteTo ap p (Inr e) c = ((length p, None), c')" "write_fails c' = (\<lambda>_. None)" "headerWritten c'"
    "ipc_dest c' = ipc_dest c"
    "wire c' = wire c @ (if headerWritten c then [] else 3 # fst (WriteAddressPort ap (ipc_dest c))) @ frame ap (p, e)"
    using WriteTo_ok[OF Cons.prems(1), of ap e p] Cons.prems(2)[of p e] d by auto
  moreover have "parser_law ap e" if "(p, e) \<in> set ds" for p e using that Cons.prems(2)[of p e] by simp
  ultimately show ?case using Cons.IH[of c'] d by simp
qed simp

lemma be16_high: "unat (rd_be16 [h, 0]) = unat (h :: byte) * 256"
proof -
  have "rd_be16 [h, 0] = (of_nat (unat h * 256) :: uint16)"
    by (simp add: rd_be16_def push_bit_eq_mult flip: unsigned_ucast_eq) 
  moreover have "unat h * 256 < 65536" using unat_byte_less[of h] by simp
  ultimately show ?thesis by (simp only: unat_uint16_of_nat)
qed

section \<open>Properties\<close>


text \<open>A parser of the addresses of IPv4 only, with the byte the code gives them.\<close>

definition ipv4_parser :: address_parser where
  "ipv4_parser =
     \<lparr>WriteAddressPort = (\<lambda>(a, port). case a of
         IPv4 w \<Rightarrow> (1 # be32 w @ be16 port, None) | _ \<Rightarrow> ([], Some (OtherError 0))),
      ReadAddressPort = (\<lambda>net. go_bind (ReadFull 7 net) (\<lambda>(b, err, net').
         case err of
           Some e \<Rightarrow> Ret (Inl e, net')
         | None \<Rightarrow> if b ! 0 = 1 then Ret (Inr (IPv4 (rd_be32 (sub 1 4 b)), rd_be16 (drop 5 b)), net')
                   else Ret (Inl (OtherError 0), net')))\<rparr>"

lemma ipv4_parser_law: "parser_law ipv4_parser (IPv4 w, port)"
proof -
  let ?b = "1 # be32 w @ be16 port"
  have "\<exists>net'. ReadFull (length ?b) net = Ret (?b, None, net') \<and> ReadAddressPort ipv4_parser net = Ret (Inr (IPv4 w, port), net')"
    if "chunks_of net (?b @ s)" for net s
  proof -
    have "length ?b = 7" "take 7 (?b @ s) = ?b" by simp_all
    with ReadFull_chunks[OF that, of 7] obtain net' where "ReadFull 7 net = Ret (?b, None, net')" by auto
    then show ?thesis using \<open>length ?b = 7\<close> by (simp add: ipv4_parser_def)
  qed
  then show ?thesis by (simp add: parser_law_def ipv4_parser_def)
qed


text \<open>
  Where the framing is lost: of a datagram longer than the reader's buffer the rest stays in the
  stream, and the next read takes it for an address; when the network cuts between the two bytes of a
  length, the second counts as payload and the length as if it were 0; and a datagram of 65536 bytes or
  more is written whole behind the length of its last part.
\<close>

theorem ipc_framing_lost:
  assumes law: "parser_law ap e" and rest: "chunks_of rest t"
  shows "(length p < 65536 \<and> m < length p \<and> incoming c = front (frame ap (p, e) @ s) rest \<longrightarrow>
      ipc_ReadFrom ap m c = Ret (received c (take m p, e), c\<lparr>incoming := front (drop m p @ s) rest\<rparr>) \<and> drop m p \<noteq> []) \<and>
    (incoming c = front (fst (WriteAddressPort ap e) @ [h]) (Inr (l # q) # rest) \<and> unat h * 256 \<le> m \<and>
       unat h * 256 \<le> Suc (length q) \<longrightarrow>
      ipc_ReadFrom ap m c = Ret (received c (take (unat h * 256) (l # q), e),
        c\<lparr>incoming := front (drop (unat h * 256) (l # q)) rest\<rparr>)) \<and>
    (write_fails c = (\<lambda>_. None) \<and> headerWritten c \<and> length p = 65536 + k \<longrightarrow>
      wire (snd (ipc_WriteTo ap p (Inr e) c)) = wire c @ fst (WriteAddressPort ap e) @ be16 (of_nat k) @ p)"
proof (intro conjI impI; elim conjE)
  assume 1: "length p < 65536" "m < length p" "incoming c = front (frame ap (p, e) @ s) rest"
  show "ipc_ReadFrom ap m c = Ret (received c (take m p, e), c\<lparr>incoming := front (drop m p @ s) rest\<rparr>)"
    by (rule ReadFrom_front[OF law 1(1) rest 1(3)])
  show "drop m p \<noteq> []" using 1(2) by simp
next
  let ?a = "fst (WriteAddressPort ap e)" and ?n = "unat h * 256"
  assume c: "incoming c = front (?a @ [h]) (Inr (l # q) # rest)" and m: "?n \<le> m" "?n \<le> Suc (length q)"
  have "chunks_of (incoming c) (?a @ [h] @ (l # q) @ t)"
    unfolding c using rest by (auto simp: front_def chunks_of_Cons)
  with law obtain net' where "ReadFull (length ?a) (incoming c) = Ret (?a, None, net')"
    and 1: "ReadAddressPort ap (incoming c) = Ret (Inr e, net')"
    unfolding parser_law_def by blast
  then have 2: "net' = Inr [h] # Inr (l # q) # rest"
    using ReadFull_front[of ?a "[h]" "Inr (l # q) # rest"] c by (simp add: front_def)
  have 3: "min (unat (rd_be16 (copy_at 0 [h] [0, 0]))) m = ?n"
    using m(1) be16_high[of h] by (simp add: copy_at_def)
  have "ReadFull ?n (Inr (l # q) # rest) = Ret (take ?n (l # q), None, front (drop ?n (l # q)) rest)"
    using ReadFull_front[of "take ?n (l # q)" "drop ?n (l # q)" rest] m(2) by (simp add: front_def)
  moreover obtain a port where "e = (a, port)" by (cases e)
  ultimately show "ipc_ReadFrom ap m c = Ret (received c (take ?n (l # q), e), c\<lparr>incoming := front (drop ?n (l # q)) rest\<rparr>)"
    using 1 2 3 by (auto simp: ipc_ReadFrom_def received_def Let_def)
next
  assume 1: "write_fails c = (\<lambda>_. None)" "headerWritten c" "length p = 65536 + k"
  have "(of_nat (length p) :: uint16) = of_nat k" unfolding 1(3) by (simp add: of_nat_add)
  then show "wire (snd (ipc_WriteTo ap p (Inr e) c)) = wire c @ fst (WriteAddressPort ap e) @ be16 (of_nat k) @ p"
    using 1(1,2) law by (simp add: ipc_WriteTo_def socket_write_def Let_def parser_law_def)
qed

theorem ipc_framing_lost_witness:
  "\<exists>c. incoming c = front (frame ipv4_parser ([5, 6, 7], IPv4 1, 53) @ []) [] \<and>
     ipc_ReadFrom ipv4_parser 2 c = Ret (Inr ([5, 6], IPv4 1, 53), c\<lparr>incoming := [Inr [7]]\<rparr>)"
proof -
  let ?c = "newIPCPacketConn (front (frame ipv4_parser ([5, 6, 7], IPv4 1, 53) @ []) []) (\<lambda>_. None) (IPv4 9, 9)"
  have "ipc_ReadFrom ipv4_parser 2 ?c =
      Ret (received ?c (take 2 [5, 6, 7], IPv4 1, 53), ?c\<lparr>incoming := front (drop 2 [5, 6, 7] @ []) []\<rparr>)"
    using ipc_framing_lost[OF ipv4_parser_law chunks_of_Nil[THEN iffD2, OF refl], of "[5, 6, 7]" 2 ?c 1 53 "[]"]
    by (simp add: newIPCPacketConn_def newIPCConn_def)
  then show ?thesis
    by (intro exI[of _ ?c]) (simp add: received_def newIPCPacketConn_def newIPCConn_def front_def)
qed

end
