(* ===== verification/Stun.thy ===== *)
theory Stun
  imports Sockets
begin

text \<open>
  The tests of the NAT (\<^verbatim>\<open>stun.go\<close>): a server's address is parsed and resolved, a connection is
  made, directly or through another process, the library does its test over it, and the result is turned
  into strings. The library, the resolver and the connections are arguments, by what they return. An
  operation returns its result and what it opened and closed.
\<close>

section \<open>The client\<close>

type_synonym stun_server = "address \<times> uint16"

record stunClient =
  uds :: "bytes option"
  dns_uds :: "bytes option"

definition NewStunClient :: stunClient where
  "NewStunClient = \<lparr>uds = None, dns_uds = None\<rparr>"

definition UseUDS :: "bytes \<Rightarrow> stunClient \<Rightarrow> stunClient" where
  "UseUDS path c = c\<lparr>uds := Some path\<rparr>"

definition UseDNSUDS :: "bytes \<Rightarrow> stunClient \<Rightarrow> stunClient" where
  "UseDNSUDS path c = c\<lparr>dns_uds := Some path\<rparr>"

text \<open>
  A connection: a socket of this process, or one through the unix socket, to the server; packets through
  it are without domains.
\<close>

datatype stun_conn = PlainUDP | PlainTCP stun_server | PacketsOver bytes stun_server | StreamOver bytes stun_server

datatype stun_event = OpenConn stun_conn | CloseStun

text \<open>
  What is given: parsing an address behind its network's name, the addresses of a domain by a resolver,
  and whether making a connection fails.
\<close>

record stun_world =
  ParseDestination :: "bytes \<Rightarrow> bytes + stun_server"
  LookupIP :: "bytes option \<Rightarrow> bytes \<Rightarrow> bytes + address list"
  open_fails :: "stun_conn \<Rightarrow> bytes option"

definition listenUDP :: "stunClient \<Rightarrow> stun_server \<Rightarrow> stun_conn" where
  "listenUDP c dest = (case uds c of None \<Rightarrow> PlainUDP | Some path \<Rightarrow> PacketsOver path dest)"

definition dialTCP :: "stunClient \<Rightarrow> stun_server \<Rightarrow> stun_conn" where
  "dialTCP c dest = (case uds c of None \<Rightarrow> PlainTCP dest | Some path \<Rightarrow> StreamOver path dest)"

text \<open>The common beginning: the address, its first IP if it is a domain, the connection.\<close>

definition stun_resolve :: "stun_world \<Rightarrow> stunClient \<Rightarrow> bytes \<Rightarrow> (bytes + stun_server) go" where
  "stun_resolve w c address =
     (case ParseDestination w address of
        Inl e \<Rightarrow> Ret (Inl e)
      | Inr (Domain name, port) \<Rightarrow>
          (case LookupIP w (dns_uds c) name of
             Inl e \<Rightarrow> Ret (Inl e)
           | Inr [] \<Rightarrow> Panic
           | Inr (ip # _) \<Rightarrow> Ret (Inr (ip, port)))
      | Inr dest \<Rightarrow> Ret (Inr dest))"

definition stun_open ::
  "stun_world \<Rightarrow> stunClient \<Rightarrow> bytes \<Rightarrow> (stun_server \<Rightarrow> stun_conn) \<Rightarrow> (bytes + stun_server \<times> stun_conn) go" where
  "stun_open w c address mk =
     go_bind (stun_resolve w c address) (\<lambda>res. case res of
       Inl e \<Rightarrow> Ret (Inl e)
     | Inr dest \<Rightarrow> Ret (case open_fails w (mk dest) of Some e \<Rightarrow> Inl e | None \<Rightarrow> Inr (dest, mk dest)))"

section \<open>The tests\<close>

record StunNatBehaviorDiscoveryResult =
  bd_NatMapping :: bytes
  bd_NatFiltering :: bytes
  bd_Host :: bytes
  bd_Error :: bytes

record StunNatTypeTestResult =
  tt_NatType :: bytes
  tt_Host :: bytes
  tt_Error :: bytes

record StunBindingResult =
  sb_Host :: bytes
  sb_Error :: bytes

text \<open>What the library finds of a NAT, as text.\<close>

record nat_behavior =
  MappingType :: bytes
  FilteringType :: bytes
  NoTranslation :: bool
  NormalType :: bytes

definition text_or_empty :: "bytes option \<Rightarrow> bytes" where
  "text_or_empty x = (case x of Some t \<Rightarrow> t | None \<Rightarrow> [])"

text \<open>The library's test, given the connection and the server: the finding, the host, the error.\<close>

definition StunNatBehaviorDiscovery ::
  "stun_world \<Rightarrow> (stun_conn \<Rightarrow> stun_server \<Rightarrow> nat_behavior option \<times> bytes option \<times> bytes option) \<Rightarrow> bytes \<Rightarrow> stunClient \<Rightarrow>
     (StunNatBehaviorDiscoveryResult \<times> stun_event list) go" where
  "StunNatBehaviorDiscovery w test serverAddress c =
     go_bind (stun_open w c (str ''udp:'' @ serverAddress) (listenUDP c)) (\<lambda>res. case res of
       Inl e \<Rightarrow> Ret (\<lparr>bd_NatMapping = [], bd_NatFiltering = [], bd_Host = [], bd_Error = e\<rparr>, [])
     | Inr (dest, conn) \<Rightarrow>
         Ret (case test conn dest of (behavior, host, err) \<Rightarrow>
           (\<lparr>bd_NatMapping = (case behavior of None \<Rightarrow> [] | Some b \<Rightarrow> if NoTranslation b then NormalType b else MappingType b),
             bd_NatFiltering = (case behavior of None \<Rightarrow> [] | Some b \<Rightarrow> FilteringType b),
             bd_Host = text_or_empty host, bd_Error = text_or_empty err\<rparr>,
            [OpenConn conn, CloseStun])))"

text \<open>A type of NAT is a number, positive if there is one, with its text.\<close>

definition StunNatTypeTest ::
  "stun_world \<Rightarrow> (stun_conn \<Rightarrow> stun_server \<Rightarrow> int \<times> bytes option \<times> bytes option) \<Rightarrow> (int \<Rightarrow> bytes) \<Rightarrow> bytes \<Rightarrow> stunClient \<Rightarrow>
     (StunNatTypeTestResult \<times> stun_event list) go" where
  "StunNatTypeTest w test type_text serverAddress c =
     go_bind (stun_open w c (str ''udp:'' @ serverAddress) (listenUDP c)) (\<lambda>res. case res of
       Inl e \<Rightarrow> Ret (\<lparr>tt_NatType = [], tt_Host = [], tt_Error = e\<rparr>, [])
     | Inr (dest, conn) \<Rightarrow>
         Ret (case test conn dest of (natType, host, err) \<Rightarrow>
           (\<lparr>tt_NatType = (if natType > 0 then type_text natType else []), tt_Host = text_or_empty host,
             tt_Error = text_or_empty err\<rparr>, [OpenConn conn, CloseStun])))"

definition StunBinding ::
  "stun_world \<Rightarrow> (stun_conn \<Rightarrow> stun_server \<Rightarrow> bytes option \<times> bytes option) \<Rightarrow> bytes \<Rightarrow> stunClient \<Rightarrow>
     (StunBindingResult \<times> stun_event list) go" where
  "StunBinding w test serverAddress c =
     go_bind (stun_open w c (str ''udp:'' @ serverAddress) (listenUDP c)) (\<lambda>res. case res of
       Inl e \<Rightarrow> Ret (\<lparr>sb_Host = [], sb_Error = e\<rparr>, [])
     | Inr (dest, conn) \<Rightarrow>
         Ret (case test conn dest of (host, err) \<Rightarrow>
           (\<lparr>sb_Host = text_or_empty host, sb_Error = text_or_empty err\<rparr>, [OpenConn conn, CloseStun])))"

definition StunTCPBinding ::
  "stun_world \<Rightarrow> (stun_conn \<Rightarrow> stun_server \<Rightarrow> bytes option \<times> bytes option) \<Rightarrow> bytes \<Rightarrow> stunClient \<Rightarrow>
     (StunBindingResult \<times> stun_event list) go" where
  "StunTCPBinding w test serverAddress c =
     go_bind (stun_open w c (str ''tcp:'' @ serverAddress) (dialTCP c)) (\<lambda>res. case res of
       Inl e \<Rightarrow> Ret (\<lparr>sb_Host = [], sb_Error = e\<rparr>, [])
     | Inr (dest, conn) \<Rightarrow>
         Ret (case test conn dest of (host, err) \<Rightarrow>
           (\<lparr>sb_Host = text_or_empty host, sb_Error = text_or_empty err\<rparr>, [OpenConn conn, CloseStun])))"

section \<open>Properties\<close>

text \<open>
  The resolver answers with an address or an error, and errors have a text; the answers of a resolver are
  IPs, not domains.
\<close>

definition stun_world_law :: "stun_world \<Rightarrow> bool" where
  "stun_world_law w \<longleftrightarrow>
     (\<forall>r name ips. LookupIP w r name = Inr ips \<longrightarrow> ips \<noteq> [] \<and> (\<forall>ip \<in> set ips. \<forall>n. ip \<noteq> Domain n)) \<and>
     (\<forall>a. ParseDestination w a \<noteq> Inl []) \<and> (\<forall>r name. LookupIP w r name \<noteq> Inl []) \<and> (\<forall>c. open_fails w c \<noteq> Some [])"

lemma stun_open_cases:
  assumes "stun_world_law w"
  obtains e where "stun_open w c a mk = Ret (Inl e)" "e \<noteq> []"
    | ip port where "stun_open w c a mk = Ret (Inr ((ip, port), mk (ip, port)))" "\<forall>n. ip \<noteq> Domain n"
        "open_fails w (mk (ip, port)) = None"
proof -
  have "(\<exists>e. stun_resolve w c a = Ret (Inl e) \<and> e \<noteq> []) \<or> (\<exists>ip port. stun_resolve w c a = Ret (Inr (ip, port)) \<and> (\<forall>n. ip \<noteq> Domain n))"
    using assms
    by (auto simp: stun_resolve_def stun_world_law_def split: sum.splits prod.splits address.splits list.splits)
  then show thesis
  proof (elim disjE exE conjE)
    fix ip port assume r: "stun_resolve w c a = Ret (Inr (ip, port))" "\<forall>n. ip \<noteq> Domain n"
    show thesis
    proof (cases "open_fails w (mk (ip, port))")
      case None
      with r that(2) show thesis by (simp add: stun_open_def)
    next
      case (Some e)
      then have "e \<noteq> []" using assms unfolding stun_world_law_def by metis
      with r Some that(1) show thesis by (simp add: stun_open_def)
    qed
  qed (use that in \<open>auto simp: stun_open_def\<close>)
qed

text \<open>Nothing is opened and there is an error, or a connection to an IP is, and closed, and the library's findings are reported.\<close>

definition stun_ended :: "(stun_server \<Rightarrow> stun_conn) \<Rightarrow> (stun_conn \<Rightarrow> stun_server \<Rightarrow> bool) \<Rightarrow> bytes \<Rightarrow> stun_event list \<Rightarrow> bool" where
  "stun_ended mk reported err evs \<longleftrightarrow> (evs = [] \<and> err \<noteq> []) \<or>
     (\<exists>ip port. (\<forall>n. ip \<noteq> Domain n) \<and> evs = [OpenConn (mk (ip, port)), CloseStun] \<and> reported (mk (ip, port)) (ip, port))"

lemma stun_ended_intros:
  "err \<noteq> [] \<Longrightarrow> stun_ended mk P err []"
  "\<forall>n. ip \<noteq> Domain n \<Longrightarrow> P (mk (ip, port)) (ip, port) \<Longrightarrow> stun_ended mk P err [OpenConn (mk (ip, port)), CloseStun]"
  by (auto simp: stun_ended_def)

text \<open>
  Every test comes back: either it opens nothing and says why, or it opens one connection, to an IP and
  never to a domain, and closes it again, and what the library found is reported, the host even when there
  is an error besides.
\<close>

theorem stun_tests:
  assumes "stun_world_law w"
  shows "(\<exists>res evs. StunBinding w test1 addr c = Ret (res, evs) \<and>
      stun_ended (listenUDP c) (\<lambda>conn dest. sb_Host res = text_or_empty (fst (test1 conn dest)) \<and>
        sb_Error res = text_or_empty (snd (test1 conn dest))) (sb_Error res) evs) \<and>
    (\<exists>res evs. StunTCPBinding w test1 addr c = Ret (res, evs) \<and>
      stun_ended (dialTCP c) (\<lambda>conn dest. sb_Host res = text_or_empty (fst (test1 conn dest)) \<and>
        sb_Error res = text_or_empty (snd (test1 conn dest))) (sb_Error res) evs) \<and>
    (\<exists>res evs. StunNatTypeTest w test2 type_text addr c = Ret (res, evs) \<and>
      stun_ended (listenUDP c) (\<lambda>conn dest. tt_Host res = text_or_empty (fst (snd (test2 conn dest))) \<and>
        tt_NatType res = (if fst (test2 conn dest) > 0 then type_text (fst (test2 conn dest)) else [])) (tt_Error res) evs) \<and>
    (\<exists>res evs. StunNatBehaviorDiscovery w test3 addr c = Ret (res, evs) \<and>
      stun_ended (listenUDP c) (\<lambda>conn dest. bd_Host res = text_or_empty (fst (snd (test3 conn dest))) \<and>
        (\<forall>b. fst (test3 conn dest) = Some b \<longrightarrow> bd_NatFiltering res = FilteringType b \<and>
           bd_NatMapping res = (if NoTranslation b then NormalType b else MappingType b))) (bd_Error res) evs)"
proof (intro conjI)
  show "\<exists>res evs. StunBinding w test1 addr c = Ret (res, evs) \<and>
      stun_ended (listenUDP c) (\<lambda>conn dest. sb_Host res = text_or_empty (fst (test1 conn dest)) \<and>
        sb_Error res = text_or_empty (snd (test1 conn dest))) (sb_Error res) evs"
    by (rule stun_open_cases[OF assms, of c "str ''udp:'' @ addr" "listenUDP c"])
      (auto simp: StunBinding_def split: prod.split intro!: stun_ended_intros)
  show "\<exists>res evs. StunTCPBinding w test1 addr c = Ret (res, evs) \<and>
      stun_ended (dialTCP c) (\<lambda>conn dest. sb_Host res = text_or_empty (fst (test1 conn dest)) \<and>
        sb_Error res = text_or_empty (snd (test1 conn dest))) (sb_Error res) evs"
    by (rule stun_open_cases[OF assms, of c "str ''tcp:'' @ addr" "dialTCP c"])
      (auto simp: StunTCPBinding_def split: prod.split intro!: stun_ended_intros)
  show "\<exists>res evs. StunNatTypeTest w test2 type_text addr c = Ret (res, evs) \<and>
      stun_ended (listenUDP c) (\<lambda>conn dest. tt_Host res = text_or_empty (fst (snd (test2 conn dest))) \<and>
        tt_NatType res = (if fst (test2 conn dest) > 0 then type_text (fst (test2 conn dest)) else [])) (tt_Error res) evs"
    by (rule stun_open_cases[OF assms, of c "str ''udp:'' @ addr" "listenUDP c"])
      (auto simp: StunNatTypeTest_def split: prod.split intro!: stun_ended_intros)
  show "\<exists>res evs. StunNatBehaviorDiscovery w test3 addr c = Ret (res, evs) \<and>
      stun_ended (listenUDP c) (\<lambda>conn dest. bd_Host res = text_or_empty (fst (snd (test3 conn dest))) \<and>
        (\<forall>b. fst (test3 conn dest) = Some b \<longrightarrow> bd_NatFiltering res = FilteringType b \<and>
           bd_NatMapping res = (if NoTranslation b then NormalType b else MappingType b))) (bd_Error res) evs"
    by (rule stun_open_cases[OF assms, of c "str ''udp:'' @ addr" "listenUDP c"])
      (auto simp: StunNatBehaviorDiscovery_def split: prod.split intro!: stun_ended_intros)
qed

theorem stun_tests_witness:
  "\<exists>w. stun_world_law w \<and>
     (\<exists>res evs. StunBinding w (\<lambda>_ _. (Some [9], None)) [1] (UseUDS [7] NewStunClient) = Ret (res, evs) \<and>
        stun_ended (listenUDP (UseUDS [7] NewStunClient)) (\<lambda>_ _. sb_Host res = [9] \<and> sb_Error res = []) (sb_Error res) evs)"
proof -
  let ?w = "\<lparr>ParseDestination = (\<lambda>_. Inr (Domain [3], 3478)), LookupIP = (\<lambda>_ _. Inr [IPv4 5, IPv4 6]), open_fails = (\<lambda>_. None)\<rparr>"
  have "stun_world_law ?w" by (simp add: stun_world_law_def)
  from this stun_tests[OF this, THEN conjunct1, of "\<lambda>_ _. (Some [9], None)" "[1]" "UseUDS [7] NewStunClient"]
  show ?thesis by (intro exI[of _ ?w]) (simp add: text_or_empty_def)
qed

end
