(* ===== verification/Cert_Prober.thy ===== *)
theory Cert_Prober
  imports Sockets Go_URL Crypto
begin

text \<open>
  Probing the certificates of a server (\<^verbatim>\<open>certProber.go\<close> and the two variants of its key
  printer): connections, handshakes, the parser and the verifier of certificates are arguments. A
  certificate is a record of what the program prints of it, as the library's methods give it.
\<close>

section \<open>Certificates\<close>

datatype public_key =
    RSA nat bytes int
  | ECDSA nat "bytes + bytes"
  | Ed25519 bytes
  | MLDSA nat bytes
  | OtherKey

record certificate =
  Raw :: bytes
  CommonName :: bytes
  cert_Version :: int
  SerialNumber :: bytes
  SignatureAlgorithm :: bytes
  Signature :: bytes
  PublicKeyAlgorithm :: bytes
  PublicKey :: public_key
  Subject :: bytes
  Issuer :: bytes
  SubjectKeyId :: bytes
  AuthorityKeyId :: bytes
  DNSNames :: "bytes list"
  IPAddresses :: "bytes list"
  NotBefore :: bytes
  NotAfter :: bytes
  KeyUsage :: bytes
  ExtKeyUsage :: "bytes list"
  IsCA :: bool

text \<open>\<^verbatim>\<open>strings.Join\<close> with a comma.\<close>

fun join_comma :: "bytes list \<Rightarrow> bytes" where
  "join_comma [] = []"
| "join_comma [s] = s"
| "join_comma (s # ss) = s @ 44 # join_comma ss"

definition info_line :: "bytes \<Rightarrow> bytes \<Rightarrow> bytes" where
  "info_line label v = str ''  '' @ label @ str '': '' @ v @ [10, 10]"

text \<open>The key in the build for Go 1.26, where a key of ML-DSA prints nothing, and for Go 1.27.\<close>

definition publicKeyToString_go126 :: "public_key \<Rightarrow> bytes go" where
  "publicKeyToString_go126 key =
     (case key of
        RSA bits modulus exponent \<Rightarrow>
          Ret (info_line (str ''Public Key Size'') (Itoa (int bits)) @ info_line (str ''Modulus'') (hex_string modulus) @
            info_line (str ''Public Exponent'') (Itoa exponent))
      | ECDSA bits ecdh \<Rightarrow>
          (case ecdh of
             Inl _ \<Rightarrow> Panic
           | Inr point \<Rightarrow> Ret (info_line (str ''Public Key Size'') (Itoa (int bits)) @ info_line (str ''Public Key'') (hex_string point)))
      | Ed25519 k \<Rightarrow> Ret (info_line (str ''Public Key'') (hex_string k))
      | _ \<Rightarrow> Ret [])"

definition publicKeyToString_go127 :: "public_key \<Rightarrow> bytes go" where
  "publicKeyToString_go127 key =
     (case key of
        MLDSA size_ k \<Rightarrow> Ret (info_line (str ''Public Key Size'') (Itoa (int size_)) @ info_line (str ''Public Key'') (hex_string k))
      | RSA bits modulus exponent \<Rightarrow>
          Ret (info_line (str ''Public Key Size'') (Itoa (int bits)) @ info_line (str ''Modulus'') (hex_string modulus) @
            info_line (str ''Public Exponent'') (Itoa exponent))
      | ECDSA bits ecdh \<Rightarrow>
          (case ecdh of
             Inl _ \<Rightarrow> Panic
           | Inr point \<Rightarrow> Ret (info_line (str ''Public Key Size'') (Itoa (int bits)) @ info_line (str ''Public Key'') (hex_string point)))
      | Ed25519 k \<Rightarrow> Ret (info_line (str ''Public Key'') (hex_string k))
      | OtherKey \<Rightarrow> Ret [])"

definition cert_info :: "(public_key \<Rightarrow> bytes go) \<Rightarrow> certificate \<Rightarrow> bytes go" where
  "cert_info keyText c =
     go_bind (keyText (PublicKey c)) (\<lambda>key. Ret (
       CommonName c @ [10, 10] @
       info_line (str ''Version'') (Itoa (cert_Version c)) @
       info_line (str ''Serial Number'') (hex_string (SerialNumber c)) @
       info_line (str ''Signature Algorithm'') (SignatureAlgorithm c) @
       info_line (str ''Signature'') (hex_string (Signature c)) @
       info_line (str ''Public Key Algorithm'') (PublicKeyAlgorithm c) @
       key @
       info_line (str ''Subject'') (Subject c) @
       info_line (str ''Issuer'') (Issuer c) @
       info_line (str ''Subject Key ID'') (hex_string (SubjectKeyId c)) @
       info_line (str ''Authority Key ID'') (hex_string (AuthorityKeyId c)) @
       (if length (DNSNames c) > 0 then info_line (str ''DNS Names'') (join_comma (DNSNames c)) else []) @
       (if length (IPAddresses c) > 0 then info_line (str ''IP Addresses'') (join_comma (IPAddresses c)) else []) @
       info_line (str ''Not Before'') (NotBefore c) @
       info_line (str ''Not After'') (NotAfter c) @
       info_line (str ''Key Usage'') (KeyUsage c) @
       (if length (ExtKeyUsage c) > 0 then info_line (str ''Extended Key Usage'') (join_comma (ExtKeyUsage c)) else []) @
       str ''  Is CA: '' @ (if IsCA c then str ''true'' else str ''false'')))"

fun cert_infos :: "(public_key \<Rightarrow> bytes go) \<Rightarrow> certificate list \<Rightarrow> bytes go" where
  "cert_infos keyText [] = Ret []"
| "cert_infos keyText (c # cs) =
     go_bind (cert_info keyText c) (\<lambda>t. go_bind (cert_infos keyText cs) (\<lambda>ts.
       Ret (t @ (if cs = [] then [] else [10, 10]) @ ts)))"

text \<open>
  The loop over the blocks of PEM: \<open>decode\<close> is \<^verbatim>\<open>pem.Decode\<close>, the type and bytes of the next block
  and the rest. It may go on for ever, so its result is an option.
\<close>

partial_function (option) pem_loop ::
  "(bytes \<Rightarrow> (bytes \<times> bytes) option \<times> bytes) \<Rightarrow> (bytes \<Rightarrow> bytes + 'c) \<Rightarrow> bytes \<Rightarrow> 'c list \<Rightarrow> (bytes + 'c list) option" where
  "pem_loop decode parse data certs =
     (case decode data of
        (None, _) \<Rightarrow> Some (Inr certs)
      | (Some (kind, block), rest) \<Rightarrow>
          if kind \<noteq> str ''CERTIFICATE'' then pem_loop decode parse rest certs
          else case parse block of
              Inl e \<Rightarrow> Some (Inl e)
            | Inr c \<Rightarrow> pem_loop decode parse rest (certs @ [c]))"

definition CertificateToPrettyInfo ::
  "(bytes \<Rightarrow> (bytes \<times> bytes) option \<times> bytes) \<Rightarrow> (bytes \<Rightarrow> bytes + certificate) \<Rightarrow> (public_key \<Rightarrow> bytes go) \<Rightarrow> bytes \<Rightarrow>
     (bytes + bytes) go" where
  "CertificateToPrettyInfo decode parse keyText input =
     (case pem_loop decode parse input [] of
        None \<Rightarrow> Hang
      | Some (Inl e) \<Rightarrow> Ret (Inl e)
      | Some (Inr []) \<Rightarrow> Ret (Inl (str ''no certificate found''))
      | Some (Inr certs) \<Rightarrow> go_bind (cert_infos keyText certs) (\<lambda>t. Ret (Inr t)))"

section \<open>Probing\<close>

text \<open>\<^verbatim>\<open>pem.Encode\<close> of a certificate: base64 in lines of 64.\<close>

function lines64 :: "bytes \<Rightarrow> bytes" where
  "lines64 b = (if b = [] then [] else take 64 b @ [10] @ lines64 (drop 64 b))"
  by auto
termination by (relation "measure length") auto

declare lines64.simps [simp del]

definition pem_encode :: "bytes \<Rightarrow> bytes" where
  "pem_encode raw = str ''-----BEGIN CERTIFICATE-----'' @ [10] @ lines64 (b64_encode raw) @ str ''-----END CERTIFICATE-----'' @ [10]"

type_synonym probe_server = "address \<times> uint16"

datatype probe_conn = TCPTo bytes | UnixStream bytes probe_server | UDPSocket | UnixPackets bytes probe_server

datatype probe_event = OpenProbe probe_conn | Handshake probe_conn bytes "bytes list" | CloseSession | CloseProbe probe_conn

text \<open>What is given: parsing addresses, whether a connection fails, resolving, and the handshakes.\<close>

record 'cert probe_world =
  probe_parse :: "bytes \<Rightarrow> bytes + probe_server"
  probe_open :: "probe_conn \<Rightarrow> bytes option"
  probe_resolve :: "bytes \<Rightarrow> bytes option"
  tls_handshake :: "probe_conn \<Rightarrow> bytes \<Rightarrow> bytes list \<Rightarrow> bytes + 'cert list"
  quic_handshake :: "probe_conn \<Rightarrow> bytes \<Rightarrow> bytes \<Rightarrow> bytes list \<Rightarrow> bytes + 'cert list"

definition probe_dial :: "'cert probe_world \<Rightarrow> probe_conn \<Rightarrow> bytes + probe_conn" where
  "probe_dial w conn = (case probe_open w conn of Some e \<Rightarrow> Inl e | None \<Rightarrow> Inr conn)"

definition probeTLS ::
  "'cert probe_world \<Rightarrow> bytes \<Rightarrow> bytes \<Rightarrow> bytes \<Rightarrow> bytes list \<Rightarrow> (bytes + 'cert list) \<times> probe_event list" where
  "probeTLS w udsPath address sni alpn =
     (case (if length udsPath > 0
            then case probe_parse w (str ''tcp:'' @ address) of Inl e \<Rightarrow> Inl e | Inr dest \<Rightarrow> probe_dial w (UnixStream udsPath dest)
            else probe_dial w (TCPTo address)) of
        Inl e \<Rightarrow> (Inl e, [])
      | Inr conn \<Rightarrow> (tls_handshake w conn sni alpn, [OpenProbe conn, Handshake conn sni alpn, CloseSession, CloseProbe conn]))"

definition probeQUIC ::
  "'cert probe_world \<Rightarrow> bytes \<Rightarrow> bytes \<Rightarrow> bytes \<Rightarrow> bytes list \<Rightarrow> (bytes + 'cert list) \<times> probe_event list" where
  "probeQUIC w udsPath address sni alpn =
     (let run = (\<lambda>conn. case quic_handshake w conn address sni alpn of
          Inl e \<Rightarrow> (Inl e, [OpenProbe conn, Handshake conn sni alpn, CloseProbe conn])
        | Inr certs \<Rightarrow> (Inr certs, [OpenProbe conn, Handshake conn sni alpn, CloseSession, CloseProbe conn]))
      in if length udsPath > 0
         then case probe_parse w (str ''udp:'' @ address) of
             Inl e \<Rightarrow> (Inl e, [])
           | Inr dest \<Rightarrow> (case probe_dial w (UnixPackets udsPath dest) of Inl e \<Rightarrow> (Inl e, []) | Inr conn \<Rightarrow> run conn)
         else case probe_dial w UDPSocket of
             Inl e \<Rightarrow> (Inl e, [])
           | Inr conn \<Rightarrow> (case probe_resolve w address of
               Some e \<Rightarrow> (Inl e, [OpenProbe conn, CloseProbe conn])
             | None \<Rightarrow> run conn))"

record CertProbeResult =
  Cert :: bytes
  VerifyError :: bytes
  probe_Error :: bytes

datatype probe_protocol = ProbeTLS | ProbeQUIC

text \<open>\<open>verify\<close> is the verifier's error, given the name, the intermediates and the certificate.\<close>

definition probe ::
  "certificate probe_world \<Rightarrow> (bytes \<Rightarrow> certificate list \<Rightarrow> certificate \<Rightarrow> bytes option) \<Rightarrow> bytes \<Rightarrow> bytes \<Rightarrow> int \<Rightarrow> bytes \<Rightarrow> bytes \<Rightarrow>
     probe_protocol \<Rightarrow> (CertProbeResult \<times> probe_event list) go" where
  "probe w verify udsPath host port sni alpn protocol =
     (if length host = 0 then Ret (\<lparr>Cert = [], VerifyError = [], probe_Error = str ''empty host''\<rparr>, [])
      else let nextProto = (if length alpn > 0 then split_at 44 alpn else []);
               address = JoinHostPort host (Itoa port)
           in case (case protocol of ProbeTLS \<Rightarrow> probeTLS w udsPath address sni nextProto
                      | ProbeQUIC \<Rightarrow> probeQUIC w udsPath address sni nextProto) of
                (Inl e, evs) \<Rightarrow> Ret (\<lparr>Cert = [], VerifyError = [], probe_Error = e\<rparr>, evs)
              | (Inr [], evs) \<Rightarrow> Panic
              | (Inr (leaf # intermediates), evs) \<Rightarrow>
                  Ret (\<lparr>Cert = concat (map (\<lambda>c. pem_encode (Raw c)) (leaf # intermediates)),
                    VerifyError = (case verify (if length sni > 0 then sni else host) intermediates leaf of Some e \<Rightarrow> e | None \<Rightarrow> []),
                    probe_Error = []\<rparr>, evs))"

text \<open>The prober itself: the path of the socket it goes through, if any.\<close>

record certProber =
  prober_udsPath :: bytes

definition NewCertProber :: certProber where
  "NewCertProber = \<lparr>prober_udsPath = []\<rparr>"

definition prober_UseUDS :: "bytes \<Rightarrow> certProber \<Rightarrow> certProber" where
  "prober_UseUDS path c = c\<lparr>prober_udsPath := path\<rparr>"

definition prober_ProbeTLS ::
  "certificate probe_world \<Rightarrow> (bytes \<Rightarrow> certificate list \<Rightarrow> certificate \<Rightarrow> bytes option) \<Rightarrow> certProber \<Rightarrow> bytes \<Rightarrow> int \<Rightarrow>
     bytes \<Rightarrow> bytes \<Rightarrow> (CertProbeResult \<times> probe_event list) go" where
  "prober_ProbeTLS w verify c host port sni alpn = probe w verify (prober_udsPath c) host port sni alpn ProbeTLS"

definition prober_ProbeQUIC ::
  "certificate probe_world \<Rightarrow> (bytes \<Rightarrow> certificate list \<Rightarrow> certificate \<Rightarrow> bytes option) \<Rightarrow> certProber \<Rightarrow> bytes \<Rightarrow> int \<Rightarrow>
     bytes \<Rightarrow> bytes \<Rightarrow> (CertProbeResult \<times> probe_event list) go" where
  "prober_ProbeQUIC w verify c host port sni alpn = probe w verify (prober_udsPath c) host port sni alpn ProbeQUIC"

section \<open>Reading certificates\<close>

text \<open>The blocks of the input, at most \<open>n\<close>, and what parsing the certificates among them comes to.\<close>

fun pem_blocks :: "(bytes \<Rightarrow> (bytes \<times> bytes) option \<times> bytes) \<Rightarrow> nat \<Rightarrow> bytes \<Rightarrow> (bytes \<times> bytes) list" where
  "pem_blocks decode 0 data = []"
| "pem_blocks decode (Suc n) data = (case decode data of (None, _) \<Rightarrow> [] | (Some b, rest) \<Rightarrow> b # pem_blocks decode n rest)"

fun parse_all :: "(bytes \<Rightarrow> bytes + 'c) \<Rightarrow> (bytes \<times> bytes) list \<Rightarrow> bytes + 'c list" where
  "parse_all parse [] = Inr []"
| "parse_all parse ((kind, block) # bs) =
     (if kind \<noteq> str ''CERTIFICATE'' then parse_all parse bs
      else case parse block of
          Inl e \<Rightarrow> Inl e
        | Inr c \<Rightarrow> (case parse_all parse bs of Inl e \<Rightarrow> Inl e | Inr cs \<Rightarrow> Inr (c # cs)))"

definition decode_law :: "(bytes \<Rightarrow> (bytes \<times> bytes) option \<times> bytes) \<Rightarrow> bool" where
  "decode_law decode \<longleftrightarrow> (\<forall>data b rest. decode data = (Some b, rest) \<longrightarrow> length rest < length data)"

lemma pem_loop_blocks:
  assumes "decode_law decode"
  shows "length data \<le> n \<Longrightarrow>
    pem_loop decode parse data certs = 
      Some (case parse_all parse (pem_blocks decode n data) of Inl e \<Rightarrow> Inl e | Inr cs \<Rightarrow> Inr (certs @ cs))"
proof (induction n arbitrary: data certs)
  case 0
  then have "fst (decode data) = None"
    using assms unfolding decode_law_def by (metis length_0_conv le_zero_eq not_less_zero option.exhaust prod.collapse)
  with 0 show ?case by (subst pem_loop.simps) (cases "decode data", simp)
next
  case (Suc n)
  show ?case
  proof (cases "decode data")
    case (Pair blk rest)
    show ?thesis
    proof (cases blk)
      case None
      with Pair show ?thesis by (subst pem_loop.simps) simp
    next
      case (Some b)
      then have "length rest \<le> n" using assms Pair Suc.prems unfolding decode_law_def by fastforce
      note IH = Suc.IH[OF this]
      obtain kind block where b: "b = (kind, block)" by (cases b)
      from IH Pair Some b show ?thesis
        by (subst pem_loop.simps) (simp split: sum.split)
    qed
  qed
qed

section \<open>Properties\<close>


text \<open>A decoder that takes the first byte of its input as the type of a block, and the next as its content.\<close>

definition toy_decode :: "bytes \<Rightarrow> (bytes \<times> bytes) option \<times> bytes" where
  "toy_decode d = (case d of k # b # r \<Rightarrow> (Some (if k = 1 then str ''CERTIFICATE'' else str ''KEY'', [b]), r) | _ \<Rightarrow> (None, d))"

definition toy_parse :: "bytes \<Rightarrow> bytes + certificate" where
  "toy_parse b = (if b = [9] then Inl [0] else Inl [1])"


text \<open>A handshake that succeeds has a certificate, and errors have a text.\<close>

definition handshake_law :: "'cert probe_world \<Rightarrow> bool" where
  "handshake_law w \<longleftrightarrow> (\<forall>c n ps. tls_handshake w c n ps \<noteq> Inr []) \<and> (\<forall>c a n ps. quic_handshake w c a n ps \<noteq> Inr []) \<and>
     (\<forall>c n ps. tls_handshake w c n ps \<noteq> Inl []) \<and> (\<forall>c a n ps. quic_handshake w c a n ps \<noteq> Inl []) \<and>
     (\<forall>a. probe_parse w a \<noteq> Inl []) \<and> (\<forall>c. probe_open w c \<noteq> Some []) \<and> (\<forall>a. probe_resolve w a \<noteq> Some [])"

definition probe_closed :: "probe_event list \<Rightarrow> bool" where
  "probe_closed evs \<longleftrightarrow> evs = [] \<or>
     (\<exists>conn mid. evs = OpenProbe conn # mid @ [CloseProbe conn] \<and> (\<forall>c. OpenProbe c \<notin> set mid))"

lemma probe_closedI: "\<forall>c. OpenProbe c \<notin> set mid \<Longrightarrow> probe_closed (OpenProbe conn # mid @ [CloseProbe conn])"
  unfolding probe_closed_def by blast

lemma probeTLS_closed:
  assumes "handshake_law w" "probeTLS w uds addr sni ps = (r, evs)"
  shows "probe_closed evs \<and> (case r of Inl e \<Rightarrow> e \<noteq> []
    | Inr certs \<Rightarrow> certs \<noteq> [] \<and> (\<exists>conn. evs = [OpenProbe conn, Handshake conn sni ps, CloseSession, CloseProbe conn] \<and>
        tls_handshake w conn sni ps = Inr certs))"
proof -
  let ?dial = "if length uds > 0 then case probe_parse w (str ''tcp:'' @ addr) of Inl e \<Rightarrow> Inl e | Inr dest \<Rightarrow> probe_dial w (UnixStream uds dest)
    else probe_dial w (TCPTo addr)"
  have l: "\<And>a. probe_parse w a \<noteq> Inl []" "\<And>c. probe_open w c \<noteq> Some []" "\<And>c. tls_handshake w c sni ps \<noteq> Inl []"
    "\<And>c. tls_handshake w c sni ps \<noteq> Inr []"
    using assms(1) by (simp_all add: handshake_law_def)
  have "?dial \<noteq> Inl []"
    using l(1)[of "str ''tcp:'' @ addr"] l(2) by (auto simp: probe_dial_def split: sum.splits option.splits)
  moreover have "probe_closed [OpenProbe conn, Handshake conn sni ps, CloseSession, CloseProbe conn]" for conn
    using probe_closedI[of "[Handshake conn sni ps, CloseSession]" conn] by simp
  ultimately show ?thesis
    using assms(2) l(3,4) unfolding probeTLS_def
    by (cases ?dial) (auto simp: probe_closed_def[of "[]"] split: sum.split)
qed

lemma probeQUIC_closed:
  assumes "handshake_law w" "probeQUIC w uds addr sni ps = (r, evs)"
  shows "probe_closed evs \<and> (case r of Inl e \<Rightarrow> e \<noteq> []
    | Inr certs \<Rightarrow> certs \<noteq> [] \<and> (\<exists>conn. evs = [OpenProbe conn, Handshake conn sni ps, CloseSession, CloseProbe conn] \<and>
        quic_handshake w conn addr sni ps = Inr certs))"
proof -
  have l: "\<And>a. probe_parse w a \<noteq> Inl []" "\<And>c. probe_open w c \<noteq> Some []" "\<And>a. probe_resolve w a \<noteq> Some []"
    "\<And>c. quic_handshake w c addr sni ps \<noteq> Inl []" "\<And>c. quic_handshake w c addr sni ps \<noteq> Inr []"
    using assms(1) by (simp_all add: handshake_law_def)
  have closed: "probe_closed [OpenProbe conn, Handshake conn sni ps, CloseSession, CloseProbe conn]"
    "probe_closed [OpenProbe conn, Handshake conn sni ps, CloseProbe conn]" "probe_closed [OpenProbe conn, CloseProbe conn]"
    "probe_closed []" for conn
    using probe_closedI[of "[Handshake conn sni ps, CloseSession]" conn] probe_closedI[of "[Handshake conn sni ps]" conn]
      probe_closedI[of "[]" conn] by (simp_all add: probe_closed_def[of "[]"])
  show ?thesis
    using assms(2) l closed unfolding probeQUIC_def Let_def
    by (auto simp: probe_dial_def split: sum.splits option.splits if_splits)
qed

text \<open>
  C40: A probe comes back, given that a successful handshake has a certificate. It closes every connection
  it opens, as the last thing; and when there is no error, the certificates are those of one handshake with
  the server under the given name, printed in order, and the first has been verified for that name, or for
  the host if there is none, with the others as intermediates.
\<close>

theorem probe_result:
  assumes "handshake_law w"
  shows "\<exists>res evs. probe w verify uds host port sni alpn protocol = Ret (res, evs) \<and> probe_closed evs \<and>
    (probe_Error res = [] \<longrightarrow> host \<noteq> [] \<and>
      (\<exists>conn leaf rest. evs = [OpenProbe conn, Handshake conn sni (if alpn = [] then [] else split_at 44 alpn), CloseSession, CloseProbe conn] \<and>
        (case protocol of
           ProbeTLS \<Rightarrow> tls_handshake w conn sni (if alpn = [] then [] else split_at 44 alpn)
         | ProbeQUIC \<Rightarrow> quic_handshake w conn (JoinHostPort host (Itoa port)) sni (if alpn = [] then [] else split_at 44 alpn)) = Inr (leaf # rest) \<and>
        Cert res = concat (map (\<lambda>c. pem_encode (Raw c)) (leaf # rest)) \<and>
        VerifyError res = (case verify (if sni = [] then host else sni) rest leaf of Some e \<Rightarrow> e | None \<Rightarrow> [])))"
proof (cases "host = []")
  case False
  let ?ps = "if alpn = [] then [] else split_at 44 alpn" and ?addr = "JoinHostPort host (Itoa port)"
  obtain r evs where e: "(case protocol of ProbeTLS \<Rightarrow> probeTLS w uds ?addr sni ?ps | ProbeQUIC \<Rightarrow> probeQUIC w uds ?addr sni ?ps) = (r, evs)"
    by (cases "case protocol of ProbeTLS \<Rightarrow> probeTLS w uds ?addr sni ?ps | ProbeQUIC \<Rightarrow> probeQUIC w uds ?addr sni ?ps") auto
  have c: "probe_closed evs \<and> (case r of Inl e \<Rightarrow> e \<noteq> []
    | Inr certs \<Rightarrow> certs \<noteq> [] \<and> (\<exists>conn. evs = [OpenProbe conn, Handshake conn sni ?ps, CloseSession, CloseProbe conn] \<and>
        (case protocol of ProbeTLS \<Rightarrow> tls_handshake w conn sni ?ps | ProbeQUIC \<Rightarrow> quic_handshake w conn ?addr sni ?ps) = Inr certs))"
  proof (cases protocol)
    case ProbeTLS
    with e have "probeTLS w uds ?addr sni ?ps = (r, evs)" by simp
    from probeTLS_closed[OF assms this] show ?thesis unfolding ProbeTLS probe_protocol.case .
  next
    case ProbeQUIC
    with e have "probeQUIC w uds ?addr sni ?ps = (r, evs)" by simp
    from probeQUIC_closed[OF assms this] show ?thesis unfolding ProbeQUIC probe_protocol.case .
  qed
  have p: "probe w verify uds host port sni alpn protocol = (case (r, evs) of
      (Inl e, evs) \<Rightarrow> Ret (\<lparr>Cert = [], VerifyError = [], probe_Error = e\<rparr>, evs)
    | (Inr [], evs) \<Rightarrow> Panic
    | (Inr (leaf # intermediates), evs) \<Rightarrow>
        Ret (\<lparr>Cert = concat (map (\<lambda>c. pem_encode (Raw c)) (leaf # intermediates)),
          VerifyError = (case verify (if sni = [] then host else sni) intermediates leaf of Some e \<Rightarrow> e | None \<Rightarrow> []), probe_Error = []\<rparr>, evs))"
    unfolding e[symmetric] using False by (simp add: probe_def Let_def if_distrib)
  show ?thesis
  proof (cases r)
    case (Inr certs)
    with c obtain leaf rest conn where "certs = leaf # rest" "evs = [OpenProbe conn, Handshake conn sni ?ps, CloseSession, CloseProbe conn]"
      "(case protocol of ProbeTLS \<Rightarrow> tls_handshake w conn sni ?ps | ProbeQUIC \<Rightarrow> quic_handshake w conn ?addr sni ?ps) = Inr certs"
      by (cases certs) auto
    with Inr c p False show ?thesis by simp
  qed (use c p in simp)
qed (simp add: probe_def probe_closed_def str_def)

theorem probe_result_witness:
  "\<exists>w :: certificate probe_world. handshake_law w \<and>
     (\<exists>res evs. probe w (\<lambda>n _ _. Some n) [] (str ''example.org'') 443 [] (str ''h2'') ProbeTLS = Ret (res, evs) \<and> probe_closed evs)"
proof -
  let ?w = "\<lparr>probe_parse = (\<lambda>_. Inr (IPv4 1, 1)), probe_open = (\<lambda>_. None), probe_resolve = (\<lambda>_. None),
    tls_handshake = (\<lambda>_ _ _. Inr [undefined]), quic_handshake = (\<lambda>_ _ _ _. Inr [undefined])\<rparr> :: certificate probe_world"
  have l: "handshake_law ?w" by (simp add: handshake_law_def)
  from probe_result[OF l, of "\<lambda>n _ _. Some n" "[]" "str ''example.org''" 443 "[]" "str ''h2''" ProbeTLS] l
  show ?thesis by blast
qed

end
