(* ===== verification/HTTP_Client.thy ===== *)
theory HTTP_Client
  imports V2Ray Crypto
begin

text \<open>
  The HTTP client the Java side uses (\<^verbatim>\<open>http.go\<close>) and the test of a URL through an instance
  (\<^verbatim>\<open>urltest.go\<close>). Sending a request is the standard library's and an argument; what the
  program does around it, its requests and what becomes of a response, is here.
\<close>

section \<open>The client\<close>

record httpClient =
  tls13_only :: bool
  DisableKeepAlives :: bool
  dial_uds :: "bytes option"

definition NewHttpClient :: httpClient where
  "NewHttpClient = \<lparr>tls13_only = False, DisableKeepAlives = True, dial_uds = None\<rparr>"

definition RestrictedTLS :: "httpClient \<Rightarrow> httpClient" where "RestrictedTLS c = c\<lparr>tls13_only := True\<rparr>"
definition http_UseUDS :: "bytes \<Rightarrow> httpClient \<Rightarrow> httpClient" where "http_UseUDS path c = c\<lparr>dial_uds := Some path\<rparr>"
text \<open>\<open>Close\<close> closes the connections that are idle now, and changes nothing of the client.\<close>

definition http_Close :: "'conn list \<Rightarrow> httpClient \<Rightarrow> 'conn list \<times> httpClient" where
  "http_Close idle c = (idle, c)"

definition KeepAlive :: "httpClient \<Rightarrow> httpClient" where "KeepAlive c = c\<lparr>DisableKeepAlives := False\<rparr>"

text \<open>
  The connection made through the unix socket: the destination parsed of the network's name and the
  address, and the path; \<open>unix_err\<close> is the error of connecting.
\<close>

definition uds_dial :: "(bytes \<Rightarrow> bytes + 'dest) \<Rightarrow> (bytes \<Rightarrow> bytes option) \<Rightarrow> bytes \<Rightarrow> bytes \<Rightarrow> bytes \<Rightarrow> bytes + bytes \<times> 'dest" where
  "uds_dial parse unix_err path network addr =
     (case parse (network @ str '':'' @ addr) of
        Inl e \<Rightarrow> Inl e
      | Inr dest \<Rightarrow> (case unix_err path of Some e \<Rightarrow> Inl e | None \<Rightarrow> Inr (path, dest)))"

section \<open>Requests\<close>

text \<open>\<^verbatim>\<open>textproto.CanonicalMIMEHeaderKey\<close>: a key that is no token is left as it is.\<close>

definition token_byte :: "byte \<Rightarrow> bool" where
  "token_byte b \<longleftrightarrow> (48 \<le> b \<and> b \<le> 57) \<or> (65 \<le> b \<and> b \<le> 90) \<or> (97 \<le> b \<and> b \<le> 122) \<or> b \<in> set (str ''!#$%&*+-.^_|~'') \<or> b = 39 \<or> b = 96"

fun canonical_from :: "bool \<Rightarrow> bytes \<Rightarrow> bytes" where
  "canonical_from upper [] = []"
| "canonical_from upper (b # bs) =
     (if upper \<and> 97 \<le> b \<and> b \<le> 122 then b - 32 else if \<not> upper \<and> 65 \<le> b \<and> b \<le> 90 then b + 32 else b) #
     canonical_from (b = 45) bs"

definition CanonicalHeaderKey :: "bytes \<Rightarrow> bytes" where
  "CanonicalHeaderKey k = (if \<forall>b \<in> set k. token_byte b then canonical_from True k else k)"

text \<open>A parsed URL, with its user and password if it has them.\<close>

record request_url =
  url_text :: bytes
  url_user :: "(bytes \<times> bytes) option"

record httpRequest =
  Method :: bytes
  Header :: "bytes \<rightharpoonup> bytes list"
  request_URL :: "request_url option"
  Body :: "bytes option"
  ContentLength :: int

definition NewRequest :: httpRequest where
  "NewRequest = \<lparr>Method = str ''GET'', Header = Map.empty, request_URL = None, Body = None, ContentLength = 0\<rparr>"

definition header_set :: "bytes \<Rightarrow> bytes \<Rightarrow> httpRequest \<Rightarrow> httpRequest" where
  "header_set key value r = r\<lparr>Header := (Header r)(CanonicalHeaderKey key \<mapsto> [value])\<rparr>"

definition SetURL :: "(bytes \<Rightarrow> bytes + request_url) \<Rightarrow> bytes \<Rightarrow> httpRequest \<Rightarrow> bytes option \<times> httpRequest" where
  "SetURL parse link r =
     (case parse link of
        Inl e \<Rightarrow> (Some e, r\<lparr>request_URL := None\<rparr>)
      | Inr u \<Rightarrow> (None, case url_user u of
            Some (user, password) \<Rightarrow>
              header_set (str ''Authorization'') (str ''Basic '' @ b64_encode (user @ 58 # password)) (r\<lparr>request_URL := Some u\<rparr>)
          | None \<Rightarrow> r\<lparr>request_URL := Some u\<rparr>))"

definition SetMethod :: "bytes \<Rightarrow> httpRequest \<Rightarrow> httpRequest" where "SetMethod m r = r\<lparr>Method := m\<rparr>"
definition SetHeader :: "bytes \<Rightarrow> bytes \<Rightarrow> httpRequest \<Rightarrow> httpRequest" where "SetHeader key value r = header_set key value r"
definition SetUserAgent :: "bytes \<Rightarrow> httpRequest \<Rightarrow> httpRequest" where "SetUserAgent ua r = header_set (str ''User-Agent'') ua r"

definition SetContent :: "bytes \<Rightarrow> httpRequest \<Rightarrow> httpRequest" where
  "SetContent x r = r\<lparr>Body := Some x, ContentLength := int (length x)\<rparr>"

definition SetContentString :: "bytes \<Rightarrow> httpRequest \<Rightarrow> httpRequest" where "SetContentString x r = SetContent x r"

section \<open>Responses\<close>

text \<open>
  What is still to be read of the body, and the error it ends with; closed, it gives an error of the
  standard library, which depends on the version of the protocol.
\<close>

record httpResponse =
  StatusCode :: int
  Status :: bytes
  response_Header :: "bytes \<rightharpoonup> bytes list"
  body :: "bytes \<times> bytes option"
  body_closed :: bool
  closed_error :: bytes
  getContentOnce :: bool
  response_content :: bytes
  contentError :: "bytes option"

definition new_response :: "bytes \<Rightarrow> int \<Rightarrow> bytes \<Rightarrow> (bytes \<rightharpoonup> bytes list) \<Rightarrow> bytes \<times> bytes option \<Rightarrow> httpResponse" where
  "new_response closedErr code status hdr b = \<lparr>StatusCode = code, Status = status, response_Header = hdr, body = b, body_closed = False,
     closed_error = closedErr, getContentOnce = False, response_content = [], contentError = None\<rparr>"

text \<open>Reading the body to its end.\<close>

definition read_body :: "httpResponse \<Rightarrow> (bytes \<times> bytes option) \<times> httpResponse" where
  "read_body h = (if body_closed h then (([], Some (closed_error h)), h) else (body h, h\<lparr>body := ([], snd (body h))\<rparr>))"

definition GetContent :: "httpResponse \<Rightarrow> (bytes + bytes) \<times> httpResponse" where
  "GetContent h =
     (let h1 = (if getContentOnce h then h
        else case read_body h of ((x, err), h') \<Rightarrow>
          h'\<lparr>getContentOnce := True, response_content := x, contentError := err, body_closed := True\<rparr>)
      in (case contentError h1 of Some e \<Rightarrow> Inl e | None \<Rightarrow> Inr (response_content h1), h1))"

definition GetContentString :: "httpResponse \<Rightarrow> (bytes + bytes) \<times> httpResponse" where
  "GetContentString h = GetContent h"

definition errorString :: "httpResponse \<Rightarrow> bytes \<times> httpResponse" where
  "errorString h = (case GetContentString h of (res, h1) \<Rightarrow>
     (str ''HTTP '' @ Status h @ str '': '' @ (case res of Inl e \<Rightarrow> e | Inr x \<Rightarrow> x), h1))"

text \<open>\<open>Execute\<close>, given what sending the request comes to: an error, with the response closed, or the response.\<close>

definition Execute :: "bytes + httpResponse \<Rightarrow> (bytes + httpResponse) \<times> httpResponse option" where
  "Execute outcome =
     (case outcome of
        Inl e \<Rightarrow> (Inl e, None)
      | Inr response \<Rightarrow>
          if StatusCode response \<noteq> 200
          then (case errorString response of (e, response') \<Rightarrow> (Inl e, Some response'))
          else (Inr response, Some response))"

definition GetHeader :: "bytes \<Rightarrow> httpResponse \<Rightarrow> bytes" where
  "GetHeader key h = (case response_Header h (CanonicalHeaderKey key) of Some (v # _) \<Rightarrow> v | _ \<Rightarrow> [])"

text \<open>\<open>WriteTo\<close> a file: the error, and what is in the file if it could be made.\<close>

definition WriteTo :: "bytes option \<Rightarrow> httpResponse \<Rightarrow> (bytes option \<times> bytes option) \<times> httpResponse" where
  "WriteTo create_err h =
     (case create_err of
        Some e \<Rightarrow> ((Some e, None), h\<lparr>body_closed := True\<rparr>)
      | None \<Rightarrow> (case read_body h of ((x, err), h1) \<Rightarrow> ((err, Some x), h1\<lparr>body_closed := True\<rparr>)))"

section \<open>The test of a URL\<close>

text \<open>
  The connections of the test are the instance's; \<open>coreDial\<close> is given the tag of the inbound, if there is
  one, and the destination.
\<close>

definition urltest_dial ::
  "(bytes \<Rightarrow> bytes + 'dest) \<Rightarrow> (bytes option \<Rightarrow> 'dest \<Rightarrow> core \<Rightarrow> bytes + 'conn) \<Rightarrow> V2RayInstance \<Rightarrow> bytes \<Rightarrow> bytes \<Rightarrow> bytes \<Rightarrow>
     (instance_error + 'conn) go" where
  "urltest_dial parse coreDial i inbound network addr =
     (case parse (network @ str '':'' @ addr) of
        Inl e \<Rightarrow> Ret (Inl (LibraryError e))
      | Inr dest \<Rightarrow> dial (coreDial (if inbound \<noteq> [] then Some inbound else None) dest) i)"

text \<open>The result: an error of making or of doing the request, or the milliseconds it took, as 32 bits.\<close>

definition UrlTest :: "(bytes \<Rightarrow> bytes option) \<Rightarrow> (bytes \<Rightarrow> bytes option) \<Rightarrow> int \<Rightarrow> bytes \<Rightarrow> bytes + int" where
  "UrlTest new_request_err do_err elapsed_ms link =
     (case new_request_err link of
        Some e \<Rightarrow> Inl e
      | None \<Rightarrow> (case do_err link of Some e \<Rightarrow> Inl e | None \<Rightarrow> Inr (to_int32 elapsed_ms)))"

section \<open>Properties\<close>

text \<open>
  The body of a response is read at most once and then closed: asking for the content again gives the
  same content or the same error, even after something has tried to write it to a file, and that file is
  then empty and the attempt an error. A response that is no success is an error with its status and
  content, and its body has been read and closed.
\<close>

theorem http_body_once:
  assumes "GetContent h = (res, h1)" "\<not> getContentOnce h" "\<not> body_closed h"
  shows "res = (case body h of (x, None) \<Rightarrow> Inr x | (_, Some e) \<Rightarrow> Inl e) \<and> body_closed h1 \<and>
    GetContent h1 = (res, h1) \<and>
    (\<exists>h2. WriteTo None h1 = ((Some (closed_error h), Some []), h2) \<and> fst (GetContent h2) = res) \<and>
    (StatusCode h \<noteq> 200 \<longrightarrow>
      Execute (Inr h) = (Inl (str ''HTTP '' @ Status h @ str '': '' @ (case res of Inl e \<Rightarrow> e | Inr x \<Rightarrow> x)), Some h1))"
proof -
  obtain x err where b: "body h = (x, err)" by (cases "body h")
  have h1: "h1 = h\<lparr>body := ([], err), getContentOnce := True, response_content := x, contentError := err, body_closed := True\<rparr>"
    and res: "res = (case err of Some e \<Rightarrow> Inl e | None \<Rightarrow> Inr x)"
    using assms b by (auto simp: GetContent_def read_body_def Let_def split: option.splits)
  have again: "GetContent h1 = (res, h1)" by (simp add: h1 res GetContent_def Let_def split: option.split)
  have "WriteTo None h1 = ((Some (closed_error h), Some []), h1)" by (simp add: h1 WriteTo_def read_body_def)
  moreover have "Execute (Inr h) = (Inl (str ''HTTP '' @ Status h @ str '': '' @ (case res of Inl e \<Rightarrow> e | Inr x \<Rightarrow> x)), Some h1)"
    if "StatusCode h \<noteq> 200"
    using that assms(1) by (simp add: Execute_def errorString_def GetContentString_def)
  ultimately show ?thesis using again b by (auto simp: h1 res split: option.split)
qed

theorem http_body_once_witness:
  "Execute (Inr (new_response (str ''closed'') 404 (str ''404 Not Found'') Map.empty ([1, 2], None))) =
     (Inl (str ''HTTP 404 Not Found: '' @ [1, 2]),
      Some (snd (GetContent (new_response (str ''closed'') 404 (str ''404 Not Found'') Map.empty ([1, 2], None)))))"
proof -
  let ?h = "new_response (str ''closed'') 404 (str ''404 Not Found'') Map.empty ([1, 2], None)"
  have "GetContent ?h = (fst (GetContent ?h), snd (GetContent ?h))" "\<not> getContentOnce ?h" "\<not> body_closed ?h" "StatusCode ?h \<noteq> 200"
    by (simp_all add: new_response_def)
  with http_body_once[of ?h "fst (GetContent ?h)" "snd (GetContent ?h)"] show ?thesis
    by (simp add: new_response_def str_def)
qed

end
